(* ===== verification/Prelude.thy ===== *)
theory Prelude
  imports Main "HOL-Library.Word" "HOL-Library.Sublist"
begin

text \<open>
  Shared vocabulary of the development: names for the machine integers of the C++ code, the
  simplification collections of the components, and the generic lemmas on lists, modular indices and
  words that the components share.
\<close>

unbundle bit_operations_syntax

section \<open>Machine integers\<close>

type_synonym u8 = "8 word"
type_synonym u16 = "16 word"
type_synonym u32 = "32 word"
type_synonym u64 = "64 word"

section \<open>Collections\<close>

named_theorems queue_simps
  \<open>rules that evaluate the ring buffer operations on their list abstraction\<close>
named_theorems storage_simps
  \<open>rules for the path and disk selection helpers\<close>
named_theorems step_defs
  \<open>definitions of the step functions of the state machines\<close>

section \<open>Modular indices\<close>

lemma mod_eq_imp_eq:
  fixes a b n :: nat
  assumes "a mod n = b mod n" and "a \<le> b" and "b < a + n"
  shows "a = b"
proof -
  have "(b - a) mod n = 0"
    using assms(1,2) by (metis mod_eq_dvd_iff_nat mod_0_imp_dvd dvd_imp_mod_0)
  moreover have "b - a < n" using assms(2,3) by linarith
  ultimately show ?thesis using assms(2) by simp
qed

lemma mod_neq_offset:
  fixes r i j n :: nat
  assumes "i < j" and "j < n"
  shows "(r + i) mod n \<noteq> (r + j) mod n"
  using mod_eq_imp_eq [of "r + i" n "r + j"] assms by linarith

lemma nth_list_update_mod_neq [simp]:
  assumes "i < j" and "j < n"
  shows "xs[(r + j) mod n := v] ! ((r + i) mod n) = xs ! ((r + i) mod n)"
  using mod_neq_offset [OF assms, of r] by simp

lemma map_upt_Suc_conv:
  "map f [0..<Suc n] = f 0 # map (\<lambda>i. f (Suc i)) [0..<n]"
  by (simp add: map_upt_Suc del: upt_Suc)

section \<open>Words\<close>

lemma unat_add_one_less:
  fixes i n :: "'a::len word"
  assumes "i < n"
  shows "unat (i + 1) = unat i + 1"
proof -
  have "unat i + 1 < 2 ^ LENGTH('a)"
    using assms unsigned_less [of n] unfolding word_less_nat_alt by (metis Suc_eq_plus1 Suc_leI le_less_trans)
  then show ?thesis by (simp add: unat_word_ariths)
qed

lemma unat_ucast_widen:
  fixes w :: "'a::len word"
  assumes "LENGTH('a) \<le> LENGTH('b::len)"
  shows "unat (ucast w :: 'b word) = unat w"
proof -
  have "(2::nat) ^ LENGTH('a) \<le> 2 ^ LENGTH('b)" using assms by simp
  then have "unat w < 2 ^ LENGTH('b)" using unsigned_less [of w] by (rule less_le_trans [rotated])
  then show ?thesis by (simp add: unsigned_ucast_eq take_bit_nat_eq_self)
qed


lemma unat_word_of_int_small:
  "0 \<le> i \<Longrightarrow> i < 2 ^ LENGTH('a) \<Longrightarrow> unat (word_of_int i :: 'a::len word) = nat i"
  by (simp add: unsigned_of_int take_bit_int_eq_self)

lemma unat_and_mask: "unat (w AND mask n :: 'a::len word) = unat w mod 2 ^ n"
  unfolding take_bit_eq_mask [symmetric] unsigned_take_bit_eq by (rule take_bit_eq_mod)

lemma unat_drop_bit: "unat (drop_bit n w :: 'a::len word) = unat w div 2 ^ n"
proof -
  have "take_bit LENGTH('a) (unat w) = unat w" using unsigned_less [of w] by (rule take_bit_nat_eq_self)
  then show ?thesis unfolding unsigned_drop_bit_eq by (simp add: drop_bit_eq_div)
qed

lemma bit_31_iff_unat: "bit (w :: u32) 31 \<longleftrightarrow> 2 ^ 31 \<le> unat w"
proof -
  have "unat w < 2 ^ 32" using unsigned_less [of w] by simp
  then have "unat w div 2 ^ 31 = (if 2 ^ 31 \<le> unat w then 1 else 0)"
    by (simp add: div_nat_eqI)
  moreover have "bit w 31 = odd (unat w div 2 ^ 31)"
    using bit_iff_odd [of "unat w" 31] by (simp add: bit_unsigned_iff)
  ultimately show ?thesis by simp
qed

lemma not_bit_31_iff_unat: "\<not> bit (w :: u32) 31 \<longleftrightarrow> unat w < 2 ^ 31"
  by (simp add: bit_31_iff_unat not_le)

lemma sint_neg_iff_unat: "sint (w :: u32) < 0 \<longleftrightarrow> 2 ^ 31 \<le> unat w"
  by (simp add: sint_uint bit_simps bit_31_iff_unat)


section \<open>Strings of the C++ and C libraries\<close>

definition isdigit :: "char \<Rightarrow> bool" where
  "isdigit c = (of_char c \<ge> (48::nat) \<and> of_char c \<le> (57::nat))"

definition digit_val :: "char \<Rightarrow> nat" where
  "digit_val c = of_char c - 48"

definition digit_char :: "nat \<Rightarrow> char" where
  "digit_char d = char_of (48 + d)"

text \<open>\<^verbatim>\<open>std::to_string\<close> of an unsigned number, and the value of a digit string.\<close>

fun to_string :: "nat \<Rightarrow> string" where
  "to_string n = (if n < 10 then [digit_char n] else to_string (n div 10) @ [digit_char (n mod 10)])"

declare to_string.simps [simp del]

definition digits_val :: "string \<Rightarrow> nat" where
  "digits_val ds = foldl (\<lambda>acc c. 10 * acc + digit_val c) 0 ds"

text \<open>\<^verbatim>\<open>std::strtoull\<close> with base 10: leading white space, an optional sign, then digits; the value
  saturates at the largest 64-bit number, a minus sign negates it in 64 bits.  \<^term>\<open>None\<close> stands for
  \<^verbatim>\<open>end == value\<close>: nothing was converted.\<close>

definition isspace :: "char \<Rightarrow> bool" where
  "isspace c = (of_char c = (32::nat) \<or> of_char c \<ge> (9::nat) \<and> of_char c \<le> (13::nat))"

definition strtoull :: "string \<Rightarrow> u64 option" where
  "strtoull s = (let t = dropWhile isspace s;
       neg = (t \<noteq> [] \<and> hd t = CHR ''-'');
       t = (if t \<noteq> [] \<and> (hd t = CHR ''-'' \<or> hd t = CHR ''+'') then tl t else t);
       ds = takeWhile isdigit t; v = digits_val ds in
     if ds = [] then None
     else if v \<ge> 2 ^ 64 then Some (- 1)
     else Some (if neg then - of_nat v else of_nat v))"

text \<open>\<^verbatim>\<open>std::string::find\<close>: the first position at which the pattern occurs.\<close>

fun find_from :: "nat \<Rightarrow> string \<Rightarrow> string \<Rightarrow> nat option" where
  "find_from i pat [] = (if pat = [] then Some i else None)"
| "find_from i pat (c # cs) =
     (if take (length pat) (c # cs) = pat then Some i else find_from (Suc i) pat cs)"

definition find_sub :: "string \<Rightarrow> string \<Rightarrow> nat option" where
  "find_sub pat s = find_from 0 pat s"

definition find_last_of :: "char \<Rightarrow> string \<Rightarrow> nat option" where
  "find_last_of c s = (if c \<in> set s
     then Some (length s - Suc (length (takeWhile (\<lambda>x. x \<noteq> c) (rev s)))) else None)"

lemma of_char_digit_char: "d < 10 \<Longrightarrow> of_char (digit_char d) = 48 + d"
  by (simp add: digit_char_def)

lemma digit_char_simps [simp]:
  assumes "d < 10"
  shows "isdigit (digit_char d)" and "digit_val (digit_char d) = d"
  using assms of_char_digit_char [OF assms] by (simp_all add: isdigit_def digit_val_def)

lemma digits_val_snoc [simp]: "digits_val (ds @ [c]) = 10 * digits_val ds + digit_val c"
  by (simp add: digits_val_def)

lemma to_string_not_Nil [simp]: "to_string n \<noteq> []"
  by (subst to_string.simps) simp

lemma to_string_digits: "list_all isdigit (to_string n)"
proof (induction n rule: to_string.induct)
  case (1 n)
  then show ?case by (subst to_string.simps) simp
qed

lemma digits_val_to_string [simp]: "digits_val (to_string n) = n"
proof (induction n rule: to_string.induct)
  case (1 n)
  then show ?case
    by (subst to_string.simps) (simp add: digits_val_def [of "[_]"])
qed

lemma to_string_inject: "to_string m = to_string n \<Longrightarrow> m = n"
  by (metis digits_val_to_string)

lemma find_last_of_append:
  assumes "c \<notin> set ys"
  shows "find_last_of c (xs @ c # ys) = Some (length xs)"
proof -
  have "takeWhile (\<lambda>x. x \<noteq> c) (rev ys @ c # rev xs) = rev ys"
    using assms by (auto simp: takeWhile_tail takeWhile_append)
  then show ?thesis by (simp add: find_last_of_def)
qed

end
