(* ===== verification/Storage_Utils.thy ===== *)
theory Storage_Utils
  imports Prelude
begin

text \<open>
  The disk selection and mirror path helpers of \<^verbatim>\<open>src/data/storage_utils.cpp\<close>.  The operating system is
  a parameter: \<^verbatim>\<open>getenv\<close>, the answers of successive \<^verbatim>\<open>statvfs\<close> calls on a path, \<^verbatim>\<open>access\<close> with
  read, write and search permission, and \<^verbatim>\<open>stat\<close> (whether the path is a regular file, and its size).
\<close>

section \<open>The view of the operating system\<close>

datatype statvfs_result = StatOk (f_bavail: u64) (f_frsize: u64) | StatErr (st_errno: int)

record os_view =
  getenv :: "string \<Rightarrow> string option"
  statvfs :: "string \<Rightarrow> nat \<Rightarrow> statvfs_result"
  access_rwx :: "string \<Rightarrow> bool"
  stat_file :: "string \<Rightarrow> (bool \<times> u64) option"

definition EINTR :: int where "EINTR = 4"

section \<open>The operations\<close>

definition kDefaultNvmeSsd0 :: string where "kDefaultNvmeSsd0 = ''/write_data_nvme_ssd0''"
definition kDefaultNvmeSsd1 :: string where "kDefaultNvmeSsd1 = ''/write_data_nvme_ssd1''"
definition kDefaultBackupSsd0 :: string where "kDefaultBackupSsd0 = ''/backup_data_sata_ssd0''"
definition kDefaultBackupSsd1 :: string where "kDefaultBackupSsd1 = ''/backup_data_sata_ssd1''"

definition kDiskRunStartMinFreeBytes :: u64 where
  "kDiskRunStartMinFreeBytes = 5 * 1024 * 1024 * 1024"
definition kDiskFileSwitchMinFreeBytes :: u64 where
  "kDiskFileSwitchMinFreeBytes = 3 * 1024 * 1024 * 1024"
definition kMirrorMinBackupFreeBytes :: u64 where
  "kMirrorMinBackupFreeBytes = 1 * 1024 * 1024 * 1024"

record PickResult =
  pick_path :: string
  free_bytes :: u64
  pick_ok :: bool

definition empty_pick :: PickResult where
  "empty_pick = \<lparr>pick_path = [], free_bytes = 0, pick_ok = False\<rparr>"

record FreeBytesResult =
  fb_bytes :: "u64 option"
  statvfs_errno :: int

definition BackupDirWritable :: "os_view \<Rightarrow> string \<Rightarrow> bool" where
  "BackupDirWritable os path = (if path = [] then False else access_rwx os path)"

definition Basename :: "string \<Rightarrow> string" where
  "Basename path = (case find_last_of CHR ''/'' path of None \<Rightarrow> path | Some pos \<Rightarrow> drop (pos + 1) path)"

definition EnvFlagTrue :: "string option \<Rightarrow> bool \<Rightarrow> bool" where
  "EnvFlagTrue v default_value = (case v of None \<Rightarrow> default_value
   | Some flag \<Rightarrow>
       if flag \<in> {''0'', ''false'', ''FALSE'', ''no'', ''NO''} then False
       else if flag \<in> {''1'', ''true'', ''TRUE'', ''yes'', ''YES''} then True
       else default_value)"

definition is_blank :: "char \<Rightarrow> bool" where
  "is_blank c = (c = CHR '' '' \<or> of_char c = (9::nat))"

definition TrimPath :: "string option \<Rightarrow> string" where
  "TrimPath v = (case v of None \<Rightarrow> []
   | Some path \<Rightarrow> rev (dropWhile is_blank (rev (dropWhile is_blank path))))"

definition GetBackupDirFromEnv :: "os_view \<Rightarrow> nat \<Rightarrow> string" where
  "GetBackupDirFromEnv os index =
     (let env_name = (if index = 0 then ''DATA_BACKUP0_DIR'' else ''DATA_BACKUP1_DIR'');
          default_path = (if index = 0 then kDefaultBackupSsd0 else kDefaultBackupSsd1);
          trimmed = TrimPath (getenv os env_name)
      in if trimmed = [] then default_path else trimmed)"

fun query_attempts :: "os_view \<Rightarrow> string \<Rightarrow> nat list \<Rightarrow> FreeBytesResult \<Rightarrow> FreeBytesResult" where
  "query_attempts os path [] result = result"
| "query_attempts os path (attempt # rest) result = (case statvfs os path attempt of
     StatOk bavail frsize \<Rightarrow> result\<lparr>fb_bytes := Some (bavail * frsize)\<rparr>
   | StatErr e \<Rightarrow> (let result = result\<lparr>statvfs_errno := e\<rparr> in
       if e \<noteq> EINTR then result else query_attempts os path rest result))"

definition QueryFreeBytes :: "os_view \<Rightarrow> string \<Rightarrow> FreeBytesResult" where
  "QueryFreeBytes os path = query_attempts os path [0, 1, 2] \<lparr>fb_bytes = None, statvfs_errno = 0\<rparr>"

definition GetFreeBytes :: "os_view \<Rightarrow> string \<Rightarrow> u64 option" where
  "GetFreeBytes os path = fb_bytes (QueryFreeBytes os path)"

definition PickMaxFreeEnabled :: "os_view \<Rightarrow> bool" where
  "PickMaxFreeEnabled os = EnvFlagTrue (getenv os ''DATA_PICK_MAX_FREE'') False"

definition GetNvmeCandidatesFromEnv :: "os_view \<Rightarrow> string list" where
  "GetNvmeCandidatesFromEnv os =
     (let ssd0 = TrimPath (getenv os ''DATA_SSD0_DIR''); ssd1 = TrimPath (getenv os ''DATA_SSD1_DIR'')
      in [if ssd0 = [] then kDefaultNvmeSsd0 else ssd0, if ssd1 = [] then kDefaultNvmeSsd1 else ssd1])"

definition pick_max_step :: "os_view \<Rightarrow> u64 \<Rightarrow> string \<Rightarrow> PickResult \<Rightarrow> PickResult" where
  "pick_max_step os min_free candidate best = (case GetFreeBytes os candidate of None \<Rightarrow> best
   | Some fb \<Rightarrow> if pick_path best = [] \<or> fb > free_bytes best
       then \<lparr>pick_path = candidate, free_bytes = fb, pick_ok = (fb \<ge> min_free)\<rparr> else best)"

definition PickMaxFree :: "os_view \<Rightarrow> string list \<Rightarrow> u64 \<Rightarrow> PickResult" where
  "PickMaxFree os candidates min_free = fold (pick_max_step os min_free) candidates empty_pick"

definition PickSsd0First :: "os_view \<Rightarrow> string \<Rightarrow> string \<Rightarrow> u64 \<Rightarrow> PickResult" where
  "PickSsd0First os ssd0 ssd1 min_free =
     (let free0 = GetFreeBytes os ssd0; free1 = GetFreeBytes os ssd1 in
      if free0 \<noteq> None \<and> the free0 \<ge> min_free
      then \<lparr>pick_path = ssd0, free_bytes = the free0, pick_ok = True\<rparr>
      else if free1 \<noteq> None \<and> the free1 \<ge> min_free
      then \<lparr>pick_path = ssd1, free_bytes = the free1, pick_ok = True\<rparr>
      else case (free0, free1) of
        (Some f0, Some f1) \<Rightarrow> if f1 > f0 then \<lparr>pick_path = ssd1, free_bytes = f1, pick_ok = False\<rparr>
                              else \<lparr>pick_path = ssd0, free_bytes = f0, pick_ok = False\<rparr>
      | (Some f0, None) \<Rightarrow> \<lparr>pick_path = ssd0, free_bytes = f0, pick_ok = False\<rparr>
      | (None, Some f1) \<Rightarrow> \<lparr>pick_path = ssd1, free_bytes = f1, pick_ok = False\<rparr>
      | (None, None) \<Rightarrow> empty_pick)"

definition SelectNvmeDataDir :: "os_view \<Rightarrow> bool \<Rightarrow> u64 \<Rightarrow> PickResult" where
  "SelectNvmeDataDir os pick_max_free min_free =
     (let candidates = GetNvmeCandidatesFromEnv os in
      if candidates = [] then empty_pick
      else if pick_max_free \<or> length candidates = 1 then PickMaxFree os candidates min_free
      else PickSsd0First os (candidates ! 0) (candidates ! 1) min_free)"

definition has_free :: "os_view \<Rightarrow> u64 \<Rightarrow> string \<Rightarrow> bool" where
  "has_free os min_free path = (case GetFreeBytes os path of None \<Rightarrow> False | Some fb \<Rightarrow> fb \<ge> min_free)"

definition AllNvmeDisksBelowMinFree :: "os_view \<Rightarrow> u64 \<Rightarrow> bool" where
  "AllNvmeDisksBelowMinFree os min_free =
     (let candidates = GetNvmeCandidatesFromEnv os in
      if candidates = [] then True else \<not> list_ex (has_free os min_free) candidates)"

definition MirrorMaxBytesPerSec :: "os_view \<Rightarrow> u64" where
  "MirrorMaxBytesPerSec os = (case getenv os ''DATA_MIRROR_MAX_MBYTES_PER_SEC'' of
     None \<Rightarrow> 150 * 1024 * 1024
   | Some v \<Rightarrow> (case strtoull v of None \<Rightarrow> 150 * 1024 * 1024 | Some parsed \<Rightarrow> parsed * 1024 * 1024))"

fun find_root :: "string list \<Rightarrow> string \<Rightarrow> string" where
  "find_root [] src_path = []"
| "find_root (nvme_root # rest) src_path =
     (if length src_path < length nvme_root then find_root rest src_path
      else if take (length nvme_root) src_path \<noteq> nvme_root then find_root rest src_path
      else if length src_path = length nvme_root \<or> src_path ! length nvme_root = CHR ''/''
      then nvme_root else find_root rest src_path)"

definition FindNvmeRootForPath :: "os_view \<Rightarrow> string \<Rightarrow> string" where
  "FindNvmeRootForPath os src_path = find_root (GetNvmeCandidatesFromEnv os) src_path"

fun index_of :: "nat \<Rightarrow> string list \<Rightarrow> string \<Rightarrow> nat" where
  "index_of i [] root = 0"
| "index_of i (c # cs) root = (if c = root then i else index_of (Suc i) cs root)"

definition NvmeIndexForPath :: "os_view \<Rightarrow> string \<Rightarrow> nat" where
  "NvmeIndexForPath os src_path = (let nvme_root = FindNvmeRootForPath os src_path in
     if nvme_root = [] then 0 else index_of 0 (GetNvmeCandidatesFromEnv os) nvme_root)"

definition GetBackupRootForNvmeIndex :: "os_view \<Rightarrow> nat \<Rightarrow> string option" where
  "GetBackupRootForNvmeIndex os nvme_index =
     (let backup0 = GetBackupDirFromEnv os 0; backup1 = GetBackupDirFromEnv os 1 in
      if nvme_index = 0 \<and> BackupDirWritable os backup0 then Some backup0
      else if nvme_index = 1 \<and> BackupDirWritable os backup1 then Some backup1
      else if BackupDirWritable os backup1 then Some backup1
      else if BackupDirWritable os backup0 then Some backup0
      else None)"

definition BackupHasSpaceFor :: "os_view \<Rightarrow> string \<Rightarrow> u64 \<Rightarrow> bool" where
  "BackupHasSpaceFor os backup_root file_size_bytes =
     (if \<not> BackupDirWritable os backup_root then False
      else case GetFreeBytes os backup_root of None \<Rightarrow> False
      | Some fb \<Rightarrow> fb \<ge> kMirrorMinBackupFreeBytes + file_size_bytes)"

definition SelectBackupRootForCopy :: "os_view \<Rightarrow> nat \<Rightarrow> u64 \<Rightarrow> string option" where
  "SelectBackupRootForCopy os nvme_index file_size_bytes =
     (let backup0 = GetBackupDirFromEnv os 0; backup1 = GetBackupDirFromEnv os 1;
          primary = (if nvme_index = 0 then backup0 else backup1);
          secondary = (if nvme_index = 0 then backup1 else backup0) in
      if BackupHasSpaceFor os primary file_size_bytes then Some primary
      else if primary \<noteq> secondary \<and> BackupHasSpaceFor os secondary file_size_bytes then Some secondary
      else None)"

definition MirrorDestinationPathToRoot :: "os_view \<Rightarrow> string \<Rightarrow> string \<Rightarrow> string" where
  "MirrorDestinationPathToRoot os src_path backup_root =
     (let nvme_root = FindNvmeRootForPath os src_path in
      if nvme_root = [] \<or> backup_root = [] then []
      else let rel_path = (if length src_path > length nvme_root
                           then drop (length nvme_root + 1) src_path else []);
               dst = backup_root @ ''/'' @ Basename nvme_root
           in if rel_path \<noteq> [] then dst @ ''/'' @ rel_path else dst)"

definition MirrorDestinationPath :: "os_view \<Rightarrow> string \<Rightarrow> string" where
  "MirrorDestinationPath os src_path =
     (let file_size = (case stat_file os src_path of Some (True, sz) \<Rightarrow> sz | _ \<Rightarrow> 0);
          nvme_index = NvmeIndexForPath os src_path
      in case SelectBackupRootForCopy os nvme_index file_size of None \<Rightarrow> []
         | Some backup_root \<Rightarrow> MirrorDestinationPathToRoot os src_path backup_root)"

definition MirrorDaemonStartRequested :: "os_view \<Rightarrow> bool" where
  "MirrorDaemonStartRequested os = EnvFlagTrue (getenv os ''DATA_MIRROR_ENABLE'') False"

section \<open>Environment strings\<close>

lemma dropWhile_no_hd: "dropWhile P xs = [] \<or> \<not> P (hd (dropWhile P xs))"
  by (meson hd_dropWhile)

lemma TrimPath_ends:
  "TrimPath v = [] \<or> \<not> is_blank (hd (TrimPath v)) \<and> \<not> is_blank (last (TrimPath v))"
proof (cases v)
  case (Some path)
  let ?front = "dropWhile is_blank path"
  let ?trail = "dropWhile is_blank (rev ?front)"
  have t: "TrimPath v = rev ?trail" by (simp add: TrimPath_def Some)
  show ?thesis
  proof (cases "?trail = []")
    case False
    have "\<not> is_blank (hd ?trail)" using False by (rule hd_dropWhile)
    moreover have "last ?trail = last (rev ?front)"
      using False by (metis last_appendR takeWhile_dropWhile_id)
    moreover have "?front \<noteq> []" using False by (metis dropWhile.simps(1) rev.simps(1))
    ultimately show ?thesis
      using hd_dropWhile [of is_blank path] False unfolding t by (simp only: hd_rev last_rev) simp
  qed (simp add: t)
qed (simp add: TrimPath_def)

lemma candidates_pair:
  obtains a b where "GetNvmeCandidatesFromEnv os = [a, b]" "a \<noteq> []" "b \<noteq> []"
  by (auto simp: GetNvmeCandidatesFromEnv_def Let_def kDefaultNvmeSsd0_def kDefaultNvmeSsd1_def)

lemma QueryFreeBytes_retry [storage_simps]:
  "statvfs os path 0 = StatErr EINTR \<Longrightarrow> statvfs os path 1 = StatErr EINTR \<Longrightarrow>
   statvfs os path 2 = StatOk b f \<Longrightarrow> fb_bytes (QueryFreeBytes os path) = Some (b * f)"
  by (simp add: QueryFreeBytes_def Let_def)

section \<open>Selection of the data disk\<close>

text \<open>What a loop over the candidates has established: nothing was readable, or the chosen candidate is
  readable and none has more free space.\<close>

definition best_of :: "os_view \<Rightarrow> u64 \<Rightarrow> string set \<Rightarrow> PickResult \<Rightarrow> bool" where
  "best_of os m cs b \<longleftrightarrow>
     (pick_path b = [] \<longrightarrow> b = empty_pick \<and> (\<forall>c \<in> cs. GetFreeBytes os c = None))
   \<and> (pick_path b \<noteq> [] \<longrightarrow> pick_path b \<in> cs \<and> GetFreeBytes os (pick_path b) = Some (free_bytes b)
       \<and> (pick_ok b \<longleftrightarrow> m \<le> free_bytes b) \<and> (\<forall>c \<in> cs. \<forall>f. GetFreeBytes os c = Some f \<longrightarrow> f \<le> free_bytes b))"

lemma best_of_step:
  assumes "c \<noteq> []" and "best_of os m cs b"
  shows "best_of os m (insert c cs) (pick_max_step os m c b)"
  using assms
  by (cases "GetFreeBytes os c"; cases "pick_path b = []")
     (auto simp: pick_max_step_def best_of_def empty_pick_def)

lemma best_of_fold:
  assumes "[] \<notin> set xs" and "best_of os m cs b"
  shows "best_of os m (set xs \<union> cs) (fold (pick_max_step os m) xs b)"
  using assms
proof (induction xs arbitrary: cs b)
  case (Cons c xs)
  then have "best_of os m (set xs \<union> insert c cs) (fold (pick_max_step os m) xs (pick_max_step os m c b))"
    using best_of_step [of c os m cs b] by (intro Cons.IH) auto
  then show ?case by simp
qed simp

lemma PickMaxFree_best:
  assumes "[] \<notin> set cs"
  shows "best_of os m (set cs) (PickMaxFree os cs m)"
  using best_of_fold [OF assms, of os m "{}" empty_pick]
  by (simp add: PickMaxFree_def best_of_def empty_pick_def)

lemma best_of_ok:
  assumes "best_of os m cs b"
  shows "pick_ok b \<longleftrightarrow> (\<exists>c \<in> cs. has_free os m c)"
proof (cases "pick_path b = []")
  case True
  then show ?thesis using assms by (auto simp: best_of_def empty_pick_def has_free_def)
next
  case False
  then show ?thesis
    using assms by (auto simp: best_of_def has_free_def split: option.splits dest: order_trans)
qed

text \<open>The contract of a disk selection strategy over a set of candidate mounts.\<close>

locale disk_picker =
  fixes pick :: "os_view \<Rightarrow> string list \<Rightarrow> u64 \<Rightarrow> PickResult"
  assumes pick_ok_iff: "cs = [a, b] \<Longrightarrow> [] \<notin> set cs \<Longrightarrow> pick_ok (pick os cs m) \<longleftrightarrow> list_ex (has_free os m) cs"
    and pick_ok_room: "cs = [a, b] \<Longrightarrow> [] \<notin> set cs \<Longrightarrow> pick_ok (pick os cs m) \<Longrightarrow>
      pick_path (pick os cs m) \<noteq> [] \<and> m \<le> free_bytes (pick os cs m)"
    and pick_reported: "cs = [a, b] \<Longrightarrow> [] \<notin> set cs \<Longrightarrow> pick_path (pick os cs m) \<noteq> [] \<Longrightarrow>
      pick_path (pick os cs m) \<in> set cs \<and> GetFreeBytes os (pick_path (pick os cs m)) = Some (free_bytes (pick os cs m))"
begin

lemma pick_has_room:
  assumes "cs = [a, b]" and "[] \<notin> set cs" and "pick_ok (pick os cs m)"
  shows "pick_path (pick os cs m) \<in> set cs \<and> has_free os m (pick_path (pick os cs m))"
  using pick_ok_room [OF assms] pick_reported [OF assms(1,2)] by (simp add: has_free_def)

lemma pick_spec:
  assumes "cs = [a, b]" and "[] \<notin> set cs"
  shows "if list_ex (has_free os m) cs
    then pick_ok (pick os cs m) \<and> pick_path (pick os cs m) \<in> set cs \<and> has_free os m (pick_path (pick os cs m))
    else \<not> pick_ok (pick os cs m)"
  using pick_ok_iff [OF assms] pick_has_room [OF assms] by simp

end

interpretation max_free: disk_picker PickMaxFree
proof
  fix cs :: "string list" and a b os m
  assume ab: "cs = [a, b]" and ne: "[] \<notin> set cs"
  note best = PickMaxFree_best [OF ne, of os m]
  show "pick_ok (PickMaxFree os cs m) = list_ex (has_free os m) cs"
    using best_of_ok [OF best] by (simp add: list_ex_iff)
  show "pick_path (PickMaxFree os cs m) \<noteq> [] \<and> m \<le> free_bytes (PickMaxFree os cs m)"
    if "pick_ok (PickMaxFree os cs m)"
    using best that by (auto simp: best_of_def empty_pick_def)
  show "pick_path (PickMaxFree os cs m) \<in> set cs
      \<and> GetFreeBytes os (pick_path (PickMaxFree os cs m)) = Some (free_bytes (PickMaxFree os cs m))"
    if "pick_path (PickMaxFree os cs m) \<noteq> []"
    using best that by (simp add: best_of_def)
qed

interpretation ssd0_first: disk_picker "\<lambda>os cs m. PickSsd0First os (cs ! 0) (cs ! 1) m"
proof
  fix cs :: "string list" and a b os m
  assume ab: "cs = [a, b]" and ne: "[] \<notin> set cs"
  show "pick_ok (PickSsd0First os (cs ! 0) (cs ! 1) m) = list_ex (has_free os m) cs"
    using ab by (auto simp: PickSsd0First_def has_free_def empty_pick_def Let_def split: option.splits)
  show "pick_path (PickSsd0First os (cs ! 0) (cs ! 1) m) \<noteq> []
      \<and> m \<le> free_bytes (PickSsd0First os (cs ! 0) (cs ! 1) m)"
    if "pick_ok (PickSsd0First os (cs ! 0) (cs ! 1) m)"
    using ab ne that
    by (auto simp: PickSsd0First_def empty_pick_def Let_def split: option.splits if_splits)
  show "pick_path (PickSsd0First os (cs ! 0) (cs ! 1) m) \<in> set cs
      \<and> GetFreeBytes os (pick_path (PickSsd0First os (cs ! 0) (cs ! 1) m))
        = Some (free_bytes (PickSsd0First os (cs ! 0) (cs ! 1) m))"
    if "pick_path (PickSsd0First os (cs ! 0) (cs ! 1) m) \<noteq> []"
    using ab that
    by (auto simp: PickSsd0First_def empty_pick_def Let_def split: option.splits if_splits)
qed


lemma SelectNvmeDataDir_cases:
  "SelectNvmeDataDir os pick_max m = (if pick_max then PickMaxFree os (GetNvmeCandidatesFromEnv os) m
     else PickSsd0First os (GetNvmeCandidatesFromEnv os ! 0) (GetNvmeCandidatesFromEnv os ! 1) m)"
  by (simp add: SelectNvmeDataDir_def GetNvmeCandidatesFromEnv_def Let_def)

text \<open>C28: Run-start disk selection, with either strategy: unless every NVMe disk is below the limit
  (\<^verbatim>\<open>AllNvmeDisksBelowMinFree\<close>), the selection is accepted and names a candidate mount that has the
  requested free space; otherwise it is refused.\<close>
theorem SelectNvmeDataDir_correct:
  "if AllNvmeDisksBelowMinFree os m then \<not> pick_ok (SelectNvmeDataDir os pick_max m)
   else pick_ok (SelectNvmeDataDir os pick_max m)
     \<and> pick_path (SelectNvmeDataDir os pick_max m) \<in> set (GetNvmeCandidatesFromEnv os)
     \<and> has_free os m (pick_path (SelectNvmeDataDir os pick_max m))"
proof -
  obtain a b where ab: "GetNvmeCandidatesFromEnv os = [a, b]" and ne: "a \<noteq> []" "b \<noteq> []"
    by (rule candidates_pair)
  show ?thesis
    using max_free.pick_spec [OF refl, of a b os m] ssd0_first.pick_spec [OF refl, of a b os m] ne
    by (simp add: SelectNvmeDataDir_cases AllNvmeDisksBelowMinFree_def ab split: if_splits)
qed

text \<open>With \<^verbatim>\<open>DATA_PICK_MAX_FREE\<close> the chosen disk has the most free space of the readable candidates;
  nothing is chosen only when no candidate could be read.\<close>
theorem PickMaxFree_maximal:
  "case pick_path (SelectNvmeDataDir os True m) of
     [] \<Rightarrow> list_all (\<lambda>c. GetFreeBytes os c = None) (GetNvmeCandidatesFromEnv os)
   | _ \<Rightarrow> list_all (\<lambda>c. case GetFreeBytes os c of None \<Rightarrow> True
         | Some f \<Rightarrow> f \<le> free_bytes (SelectNvmeDataDir os True m)) (GetNvmeCandidatesFromEnv os)"
proof -
  have "[] \<notin> set (GetNvmeCandidatesFromEnv os)"
    using candidates_pair [of os] by (metis empty_iff empty_set set_ConsD)
  then show ?thesis
    using PickMaxFree_best [of "GetNvmeCandidatesFromEnv os" os m]
    by (auto simp: SelectNvmeDataDir_cases best_of_def list_all_iff split: list.splits option.splits)
qed

section \<open>Mirror destinations\<close>

lemma find_root_sound:
  assumes "find_root cs src \<noteq> []"
  shows "find_root cs src \<in> set cs \<and>
    (src = find_root cs src \<or> (\<exists>rel. src = find_root cs src @ ''/'' @ rel))"
  using assms
proof (induction cs)
  case (Cons r cs)
  have "\<exists>rel. src = r @ ''/'' @ rel"
    if "take (length r) src = r" "length r < length src" "src ! length r = CHR ''/''"
    using that by (metis append_Cons append_Nil append_take_drop_id Cons_nth_drop_Suc)
  then show ?case using Cons by (auto simp: not_less le_less)
qed simp

lemma find_root_complete:
  assumes "r \<in> set cs" and "[] \<notin> set cs"
  shows "find_root cs (r @ ''/'' @ rel) \<noteq> []"
  using assms by (induction cs) (auto simp: nth_append)

text \<open>A path is mapped to an NVMe root exactly when the root is a candidate and the path is the root
  or lies below it at a directory boundary (a mount \<^verbatim>\<open>/data1\<close> does not claim \<^verbatim>\<open>/data10/f\<close>).\<close>
theorem FindNvmeRootForPath_boundary:
  "FindNvmeRootForPath os src \<noteq> [] \<longleftrightarrow>
     (\<exists>r \<in> set (GetNvmeCandidatesFromEnv os). src = r \<or> (\<exists>rel. src = r @ ''/'' @ rel))"
proof -
  have ne: "[] \<notin> set (GetNvmeCandidatesFromEnv os)"
    using candidates_pair [of os] by (metis empty_iff empty_set set_ConsD)
  have "find_root cs r \<noteq> []" if "r \<in> set cs" "[] \<notin> set cs" for r cs
    using that by (induction cs) auto
  then show ?thesis
    using find_root_sound [of "GetNvmeCandidatesFromEnv os" src] find_root_complete [OF _ ne] ne
    unfolding FindNvmeRootForPath_def by metis
qed


lemma Basename_no_slash: "CHR ''/'' \<notin> set (Basename path)"
proof (cases "CHR ''/'' \<in> set path")
  case True
  then obtain ys zs where "path = ys @ CHR ''/'' # zs" "CHR ''/'' \<notin> set zs"
    by (meson split_list_last)
  then show ?thesis by (simp add: Basename_def find_last_of_append)
qed (simp add: Basename_def find_last_of_def)

lemma append_sep_inject:
  assumes "xs @ c # ys = xs' @ c # ys'" and "c \<notin> set xs" and "c \<notin> set xs'"
  shows "xs = xs' \<and> ys = ys'"
proof -
  have "takeWhile (\<lambda>x. x \<noteq> c) (xs @ c # ys) = xs" "takeWhile (\<lambda>x. x \<noteq> c) (xs' @ c # ys') = xs'"
    using assms(2,3) by (auto simp: takeWhile_append)
  then show ?thesis using assms(1) by auto
qed

definition below_root :: "os_view \<Rightarrow> string \<Rightarrow> bool" where
  "below_root os src \<longleftrightarrow> FindNvmeRootForPath os src \<noteq> []
     \<and> length src > length (FindNvmeRootForPath os src) + 1"

lemma below_root_split:
  assumes "below_root os src"
  obtains rel where "rel \<noteq> []" "src = FindNvmeRootForPath os src @ ''/'' @ rel"
    "FindNvmeRootForPath os src \<in> set (GetNvmeCandidatesFromEnv os)"
  using assms find_root_sound [of "GetNvmeCandidatesFromEnv os" src]
  unfolding below_root_def FindNvmeRootForPath_def
  by (metis append.right_neutral length_append length_append_singleton less_irrefl less_SucI
      Suc_eq_plus1)

lemma MirrorDestinationPathToRoot_below:
  assumes "FindNvmeRootForPath os src = r" and "r \<noteq> []" and "src = r @ ''/'' @ rel" and "rel \<noteq> []"
    and "backup \<noteq> []"
  shows "MirrorDestinationPathToRoot os src backup = backup @ ''/'' @ Basename r @ ''/'' @ rel"
  using assms by (simp add: MirrorDestinationPathToRoot_def Let_def)

text \<open>Under one backup root, two different files below the NVMe mounts never share a mirror
  destination, as long as the mount directories have different names.\<close>
theorem MirrorDestination_injective:
  assumes "inj_on Basename (set (GetNvmeCandidatesFromEnv os))"
    and "below_root os src" and "below_root os src'" and "backup \<noteq> []"
    and "MirrorDestinationPathToRoot os src backup = MirrorDestinationPathToRoot os src' backup"
  shows "src = src'"
proof -
  let ?r = "FindNvmeRootForPath os src" and ?r' = "FindNvmeRootForPath os src'"
  obtain rel where rel: "rel \<noteq> []" "src = ?r @ ''/'' @ rel" "?r \<in> set (GetNvmeCandidatesFromEnv os)"
    using assms(2) by (rule below_root_split)
  obtain rel' where rel': "rel' \<noteq> []" "src' = ?r' @ ''/'' @ rel'" "?r' \<in> set (GetNvmeCandidatesFromEnv os)"
    using assms(3) by (rule below_root_split)
  have "MirrorDestinationPathToRoot os src backup = backup @ ''/'' @ Basename ?r @ ''/'' @ rel"
    "MirrorDestinationPathToRoot os src' backup = backup @ ''/'' @ Basename ?r' @ ''/'' @ rel'"
    using MirrorDestinationPathToRoot_below assms(2-4) rel(1,2) rel'(1,2) unfolding below_root_def by blast+
  then have "Basename ?r @ ''/'' @ rel = Basename ?r' @ ''/'' @ rel'" using assms(5) by simp
  then have "Basename ?r = Basename ?r'" "rel = rel'"
    using append_sep_inject [of "Basename ?r" "CHR ''/''" rel "Basename ?r'" rel'] Basename_no_slash
    by auto
  moreover from this(1) have "?r = ?r'" using assms(1) rel(3) rel'(3) by (meson inj_onD)
  ultimately show ?thesis using rel(2) rel'(2) by metis
qed

definition default_os :: os_view where
  "default_os = \<lparr>getenv = (\<lambda>_. None), statvfs = (\<lambda>_ _. StatOk 10000000 4096),
     access_rwx = (\<lambda>_. True), stat_file = (\<lambda>_. None)\<rparr>"

theorem MirrorDestination_injective_witness:
  "MirrorDestinationPathToRoot default_os ''/write_data_nvme_ssd0/a'' ''/b''
     \<noteq> MirrorDestinationPathToRoot default_os ''/write_data_nvme_ssd1/a'' ''/b''"
proof -
  have "inj_on Basename (set (GetNvmeCandidatesFromEnv default_os))" by code_simp
  moreover have "below_root default_os ''/write_data_nvme_ssd0/a''"
    "below_root default_os ''/write_data_nvme_ssd1/a''" by code_simp+
  ultimately show ?thesis using MirrorDestination_injective by blast
qed

text \<open>A backup root is chosen for a copy only if it is writable and keeps at least 1 GiB free after
  the copy, the mapped drive being preferred; no root is chosen only if neither drive qualifies.\<close>
theorem SelectBackupRootForCopy_room:
  assumes "unat fsize + 2 ^ 30 < 2 ^ 64"
  shows "case SelectBackupRootForCopy os i fsize of
     Some r \<Rightarrow> r \<in> {GetBackupDirFromEnv os 0, GetBackupDirFromEnv os 1} \<and> BackupDirWritable os r
       \<and> (\<exists>fb. GetFreeBytes os r = Some fb \<and> unat fsize + 2 ^ 30 \<le> unat fb)
       \<and> (BackupHasSpaceFor os (GetBackupDirFromEnv os i) fsize \<longrightarrow> r = GetBackupDirFromEnv os i)
   | None \<Rightarrow> \<not> BackupHasSpaceFor os (GetBackupDirFromEnv os 0) fsize
       \<and> \<not> BackupHasSpaceFor os (GetBackupDirFromEnv os 1) fsize"
proof -
  have "unat (kMirrorMinBackupFreeBytes + fsize) = unat fsize + 2 ^ 30"
    using assms by (simp add: kMirrorMinBackupFreeBytes_def unat_word_ariths)
  then have space: "BackupHasSpaceFor os r fsize \<longleftrightarrow> BackupDirWritable os r
      \<and> (\<exists>fb. GetFreeBytes os r = Some fb \<and> unat fsize + 2 ^ 30 \<le> unat fb)" for r
    by (simp add: BackupHasSpaceFor_def word_le_nat_alt split: option.splits)
  have dir: "GetBackupDirFromEnv os i = GetBackupDirFromEnv os (if i = 0 then 0 else 1)"
    by (simp add: GetBackupDirFromEnv_def)
  show ?thesis
    unfolding SelectBackupRootForCopy_def Let_def dir [of] space by (auto split: option.splits)
qed

theorem SelectBackupRootForCopy_room_witness:
  "\<exists>fb. GetFreeBytes default_os (the (SelectBackupRootForCopy default_os 1 1000)) = Some fb \<and> 1000 + 2 ^ 30 \<le> unat fb"
proof -
  have "SelectBackupRootForCopy default_os 1 1000 = Some kDefaultBackupSsd1" by code_simp
  then show ?thesis using SelectBackupRootForCopy_room [of 1000 default_os 1] by simp
qed

end
