(* ===== verification/Producer_Consumer_Queue.thy ===== *)
theory Producer_Consumer_Queue
  imports Prelude
begin

text \<open>
  The lock-free single-producer single-consumer ring buffer of
  \<^verbatim>\<open>lib/folly/ProducerConsumerQueue.h\<close>.  A slot is an optional value: \<^term>\<open>None\<close> is raw storage
  (never constructed, or destroyed), \<^term>\<open>Some x\<close> a live object.  The first part models the operations
  as the code has them and shows that they implement a bounded FIFO list; the second part splits
  \<^verbatim>\<open>write\<close> and \<^verbatim>\<open>read\<close> at their shared memory accesses and shows that every interleaving
  of one producer and one consumer keeps the FIFO order and never touches the same slot twice.
\<close>

section \<open>The operations\<close>

record 'a pcq =
  q_size :: u32
  records :: "'a option list"
  readIndex :: u32
  writeIndex :: u32

definition new_queue :: "u32 \<Rightarrow> 'a pcq option" where
  "new_queue sz = (if 2 \<le> sz
     then Some \<lparr>q_size = sz, records = replicate (unat sz) None, readIndex = 0, writeIndex = 0\<rparr>
     else None)"

definition next_index :: "'a pcq \<Rightarrow> u32 \<Rightarrow> u32" where
  "next_index q i = (let nextRecord = i + 1 in if nextRecord = q_size q then 0 else nextRecord)"

definition pcq_write :: "'a \<Rightarrow> 'a pcq \<Rightarrow> bool \<times> 'a pcq" where
  "pcq_write x q = (let currentWrite = writeIndex q; nextRecord = next_index q currentWrite in
     if nextRecord \<noteq> readIndex q
     then (True, q\<lparr>records := (records q)[unat currentWrite := Some x], writeIndex := nextRecord\<rparr>)
     else (False, q))"

definition pcq_read :: "'a pcq \<Rightarrow> bool \<times> 'a option \<times> 'a pcq" where
  "pcq_read q = (let currentRead = readIndex q in
     if currentRead = writeIndex q then (False, None, q)
     else let nextRecord = next_index q currentRead; record = records q ! unat currentRead in
       (True, record, q\<lparr>records := (records q)[unat currentRead := None], readIndex := nextRecord\<rparr>))"

definition frontPtr :: "'a pcq \<Rightarrow> 'a option" where
  "frontPtr q = (let currentRead = readIndex q in
     if currentRead = writeIndex q then None else records q ! unat currentRead)"

definition popFront :: "'a pcq \<Rightarrow> 'a pcq option" where
  "popFront q = (let currentRead = readIndex q in
     if currentRead = writeIndex q then None
     else Some (q\<lparr>records := (records q)[unat currentRead := None],
                  readIndex := next_index q currentRead\<rparr>))"

definition isEmpty :: "'a pcq \<Rightarrow> bool" where
  "isEmpty q = (readIndex q = writeIndex q)"

definition isFull :: "'a pcq \<Rightarrow> bool" where
  "isFull q = (next_index q (writeIndex q) = readIndex q)"

text \<open>\<^verbatim>\<open>int ret\<close> is the 32-bit difference read as a signed number; \<^verbatim>\<open>ret += size_\<close> is computed in
  32 bits and the result is sign-extended to \<^verbatim>\<open>size_t\<close>.\<close>

definition sizeGuess :: "'a pcq \<Rightarrow> u64" where
  "sizeGuess q = (let ret = writeIndex q - readIndex q;
                      ret = (if sint ret < 0 then ret + q_size q else ret)
                  in signed_take_bit 31 (ucast ret))"

definition capacity :: "'a pcq \<Rightarrow> u64" where
  "capacity q = ucast (q_size q - 1)"

text \<open>The destructor's loop, with the number of iterations as fuel; \<^term>\<open>None\<close> is a loop that has not
  ended.\<close>

fun destroy_loop :: "nat \<Rightarrow> u32 \<Rightarrow> u32 \<Rightarrow> u32 \<Rightarrow> 'a option list \<Rightarrow> 'a option list option" where
  "destroy_loop fuel sz i endIndex rs =
     (if i = endIndex then Some rs
      else case fuel of 0 \<Rightarrow> None
      | Suc n \<Rightarrow> destroy_loop n sz (let j = i + 1 in if j = sz then 0 else j) endIndex
                   (rs[unat i := None]))"

declare destroy_loop.simps [simp del]

definition destroy :: "'a pcq \<Rightarrow> 'a option list option" where
  "destroy q = destroy_loop (unat (q_size q)) (q_size q) (readIndex q) (writeIndex q) (records q)"

section \<open>Abstraction to lists\<close>

definition count :: "'a pcq \<Rightarrow> nat" where
  "count q = (unat (writeIndex q) + unat (q_size q) - unat (readIndex q)) mod unat (q_size q)"

definition contents :: "'a pcq \<Rightarrow> 'a list" where
  "contents q = map (\<lambda>i. the (records q ! ((unat (readIndex q) + i) mod unat (q_size q)))) [0..<count q]"

definition live :: "'a pcq \<Rightarrow> nat set" where
  "live q = (\<lambda>i. (unat (readIndex q) + i) mod unat (q_size q)) ` {0..<count q}"

definition wf_shape :: "'a pcq \<Rightarrow> bool" where
  "wf_shape q \<longleftrightarrow> 2 \<le> q_size q \<and> length (records q) = unat (q_size q)
     \<and> readIndex q < q_size q \<and> writeIndex q < q_size q"

definition queue_inv :: "'a pcq \<Rightarrow> bool" where
  "queue_inv q \<longleftrightarrow> wf_shape q \<and>
     (\<forall>k < unat (q_size q). (records q ! k \<noteq> None) = (k \<in> live q))"

lemma wf_shapeD:
  assumes "wf_shape q"
  shows "2 \<le> unat (q_size q)" and "length (records q) = unat (q_size q)"
    and "unat (readIndex q) < unat (q_size q)" and "unat (writeIndex q) < unat (q_size q)"
  using assms by (simp_all add: wf_shape_def word_less_nat_alt word_le_nat_alt)

lemma unat_next_index:
  assumes "i < q_size q"
  shows "unat (next_index q i) = (unat i + 1) mod unat (q_size q)"
proof -
  have eq: "unat (i + 1) = unat i + 1" using unat_add_one_less [OF assms] .
  have "unat i < unat (q_size q)" using assms by (simp add: word_less_nat_alt)
  then show ?thesis
    using eq by (auto simp: next_index_def Let_def word_unat_eq_iff)
qed

lemma next_index_less:
  assumes "i < q_size q"
  shows "next_index q i < q_size q"
proof -
  have "0 < unat (q_size q)" using assms by (simp add: word_less_nat_alt)
  then show ?thesis by (simp add: word_less_nat_alt unat_next_index [OF assms])
qed

lemma count_less: "wf_shape q \<Longrightarrow> count q < unat (q_size q)"
  using wf_shapeD(1) [of q] by (simp add: count_def)

lemma writeIndex_eq:
  assumes "wf_shape q"
  shows "unat (writeIndex q) = (unat (readIndex q) + count q) mod unat (q_size q)"
  using wf_shapeD [OF assms] by (simp add: count_def mod_add_right_eq)

lemma count_unique:
  assumes "wf_shape q" and "unat (writeIndex q) = (unat (readIndex q) + c) mod unat (q_size q)"
    and "c < unat (q_size q)"
  shows "count q = c"
proof -
  have eq: "(unat (readIndex q) + count q) mod unat (q_size q)
      = (unat (readIndex q) + c) mod unat (q_size q)"
    using writeIndex_eq [OF assms(1)] assms(2) by simp
  show ?thesis
    using eq mod_neq_offset [of "count q" c "unat (q_size q)" "unat (readIndex q)"]
      mod_neq_offset [of c "count q" "unat (q_size q)" "unat (readIndex q)"]
      count_less [OF assms(1)] assms(3) by (metis linorder_neqE_nat)
qed

lemma count_zero_iff:
  assumes "wf_shape q"
  shows "count q = 0 \<longleftrightarrow> readIndex q = writeIndex q"
proof
  assume "count q = 0"
  then show "readIndex q = writeIndex q"
    using writeIndex_eq [OF assms] wf_shapeD [OF assms] by (simp add: word_unat_eq_iff)
next
  assume "readIndex q = writeIndex q"
  then show "count q = 0" by (simp add: count_def)
qed

lemma full_iff:
  assumes "wf_shape q"
  shows "next_index q (writeIndex q) = readIndex q \<longleftrightarrow> Suc (count q) = unat (q_size q)"
proof -
  let ?n = "unat (q_size q)" and ?r = "unat (readIndex q)"
  have "unat (next_index q (writeIndex q)) = (?r + Suc (count q)) mod ?n"
    using unat_next_index [of "writeIndex q" q] writeIndex_eq [OF assms] assms
    by (simp add: wf_shape_def mod_Suc_eq)
  then have "next_index q (writeIndex q) = readIndex q \<longleftrightarrow> (?r + Suc (count q)) mod ?n = (?r + 0) mod ?n"
    using wf_shapeD [OF assms] by (simp add: word_unat_eq_iff)
  also have "\<dots> \<longleftrightarrow> Suc (count q) = ?n"
  proof
    assume "(?r + Suc (count q)) mod ?n = (?r + 0) mod ?n"
    then show "Suc (count q) = ?n"
      using mod_neq_offset [of 0 "Suc (count q)" ?n ?r] count_less [OF assms] by fastforce
  next
    assume "Suc (count q) = ?n"
    then show "(?r + Suc (count q)) mod ?n = (?r + 0) mod ?n" by (simp only: mod_add_self2) simp
  qed
  finally show ?thesis .
qed

section \<open>Effect of the two index movements\<close>

definition advance_write :: "'a option \<Rightarrow> 'a pcq \<Rightarrow> 'a pcq" where
  "advance_write v q = q\<lparr>records := (records q)[unat (writeIndex q) := v],
                        writeIndex := next_index q (writeIndex q)\<rparr>"

definition advance_read :: "'a pcq \<Rightarrow> 'a pcq" where
  "advance_read q = q\<lparr>records := (records q)[unat (readIndex q) := None],
                     readIndex := next_index q (readIndex q)\<rparr>"

lemma wf_advance_write: "wf_shape q \<Longrightarrow> wf_shape (advance_write v q)"
  by (auto simp: wf_shape_def advance_write_def next_index_less)

lemma wf_advance_read: "wf_shape q \<Longrightarrow> wf_shape (advance_read q)"
  by (auto simp: wf_shape_def advance_read_def next_index_less)

lemma count_advance_write:
  assumes "wf_shape q" and "Suc (count q) < unat (q_size q)"
  shows "count (advance_write v q) = Suc (count q)"
proof (rule count_unique)
  show "wf_shape (advance_write v q)" using assms(1) by (rule wf_advance_write)
  show "unat (writeIndex (advance_write v q))
      = (unat (readIndex (advance_write v q)) + Suc (count q)) mod unat (q_size (advance_write v q))"
    using assms(1) unat_next_index [of "writeIndex q" q] writeIndex_eq [OF assms(1)]
    by (simp add: advance_write_def wf_shape_def mod_Suc_eq)
qed (use assms(2) in \<open>simp add: advance_write_def\<close>)

lemma count_advance_read:
  assumes "wf_shape q" and "0 < count q"
  shows "count (advance_read q) = count q - 1"
proof (rule count_unique)
  show "wf_shape (advance_read q)" using assms(1) by (rule wf_advance_read)
  have "unat (next_index q (readIndex q)) = Suc (unat (readIndex q)) mod unat (q_size q)"
    using assms(1) unat_next_index [of "readIndex q" q] by (simp add: wf_shape_def)
  then show "unat (writeIndex (advance_read q))
      = (unat (readIndex (advance_read q)) + (count q - 1)) mod unat (q_size (advance_read q))"
    using writeIndex_eq [OF assms(1)] assms(2)
    by (cases "count q") (simp_all add: advance_read_def mod_add_left_eq)
  show "count q - 1 < unat (q_size (advance_read q))"
    using count_less [OF assms(1)] by (simp add: advance_read_def)
qed

lemma live_advance_write:
  assumes "wf_shape q" and "Suc (count q) < unat (q_size q)"
  shows "live (advance_write v q) = insert (unat (writeIndex q)) (live q)"
proof -
  have "live (advance_write v q)
      = (\<lambda>i. (unat (readIndex q) + i) mod unat (q_size q)) ` {0..<Suc (count q)}"
    using count_advance_write [OF assms] by (simp add: live_def advance_write_def)
  then show ?thesis
    by (simp add: live_def atLeast0_lessThan_Suc writeIndex_eq [OF assms(1)])
qed

lemma writeIndex_not_live:
  assumes "wf_shape q"
  shows "unat (writeIndex q) \<notin> live q"
  using mod_neq_offset [of _ "count q" "unat (q_size q)" "unat (readIndex q)"] count_less [OF assms]
  unfolding live_def writeIndex_eq [OF assms] by force

lemma readIndex_shift:
  assumes "wf_shape q"
  shows "(unat (readIndex (advance_read q)) + i) mod unat (q_size q)
    = (unat (readIndex q) + Suc i) mod unat (q_size q)"
  using assms unat_next_index [of "readIndex q" q]
  by (simp add: wf_shape_def advance_read_def mod_add_left_eq)

lemma live_advance_read:
  assumes "wf_shape q" and "0 < count q"
  shows "live q = insert (unat (readIndex q)) (live (advance_read q))"
    and "unat (readIndex q) \<notin> live (advance_read q)"
proof -
  let ?n = "unat (q_size q)" and ?r = "unat (readIndex q)"
  obtain c where c: "count q = Suc c" using assms(2) by (cases "count q") auto
  have lr: "live (advance_read q) = (\<lambda>i. (?r + Suc i) mod ?n) ` {0..<c}"
    using count_advance_read [OF assms] c readIndex_shift [OF assms(1)]
    by (simp add: live_def) (simp add: advance_read_def)
  have r0: "(?r + 0) mod ?n = ?r" using wf_shapeD [OF assms(1)] by simp
  have "live q = (\<lambda>i. (?r + i) mod ?n) ` insert 0 (Suc ` {0..<c})"
    using c by (simp add: live_def atLeast0_lessThan_Suc_eq_insert_0)
  then have "live q = insert ((?r + 0) mod ?n) ((\<lambda>i. (?r + Suc i) mod ?n) ` {0..<c})"
    by (simp only: image_insert image_image)
  then show "live q = insert ?r (live (advance_read q))"
    unfolding lr r0 .
  show "?r \<notin> live (advance_read q)"
    using mod_neq_offset [of 0 "Suc _" ?n ?r] count_less [OF assms(1)] c r0 unfolding lr by force
qed

lemma contents_advance_write:
  assumes "wf_shape q" and "Suc (count q) < unat (q_size q)"
  shows "contents (advance_write (Some x) q) = contents q @ [x]"
proof -
  let ?n = "unat (q_size q)" and ?r = "unat (readIndex q)"
  have "unat (writeIndex q) \<noteq> (?r + i) mod ?n" if "i < count q" for i
    using mod_neq_offset [OF that, of ?n ?r] assms(2) writeIndex_eq [OF assms(1)] by simp
  moreover have "unat (writeIndex q) < length (records q)" using wf_shapeD [OF assms(1)] by simp
  ultimately show ?thesis
    using count_advance_write [OF assms] writeIndex_eq [OF assms(1), symmetric]
    by (simp add: contents_def) (simp add: advance_write_def)
qed

lemma contents_advance_read:
  assumes "wf_shape q" and "0 < count q"
  shows "contents q = the (records q ! unat (readIndex q)) # contents (advance_read q)"
proof -
  let ?n = "unat (q_size q)" and ?r = "unat (readIndex q)"
  obtain c where c: "count q = Suc c" using assms(2) by (cases "count q") auto
  have r0: "(?r + 0) mod ?n = ?r" using wf_shapeD [OF assms(1)] by simp
  have ne: "?r \<noteq> (?r + Suc i) mod ?n" if "i < c" for i
    using mod_neq_offset [of 0 "Suc i" ?n ?r] that count_less [OF assms(1)] c r0 by fastforce
  have "contents (advance_read q) = map (\<lambda>i. the (records q ! ((?r + Suc i) mod ?n))) [0..<c]"
    using count_advance_read [OF assms] c readIndex_shift [OF assms(1)] ne
    by (simp add: contents_def) (simp add: advance_read_def)
  then show ?thesis
    using c r0 by (simp add: contents_def map_upt_Suc_conv del: upt_Suc)
qed

lemma pcq_write_eq [queue_simps]:
  "wf_shape q \<Longrightarrow> pcq_write x q =
     (if Suc (count q) < unat (q_size q) then (True, advance_write (Some x) q) else (False, q))"
  using full_iff [of q] count_less [of q]
  by (auto simp: pcq_write_def Let_def advance_write_def)

lemma pcq_read_eq [queue_simps]:
  "wf_shape q \<Longrightarrow> pcq_read q =
     (if count q = 0 then (False, None, q) else (True, records q ! unat (readIndex q), advance_read q))"
  using count_zero_iff [of q] by (auto simp: pcq_read_def Let_def advance_read_def)

lemma popFront_eq [queue_simps]:
  "wf_shape q \<Longrightarrow> popFront q = (if count q = 0 then None else Some (advance_read q))"
  using count_zero_iff [of q] by (auto simp: popFront_def Let_def advance_read_def)

lemma length_contents [simp]: "length (contents q) = count q"
  by (simp add: contents_def)

lemma contents_Nil_iff: "contents q = [] \<longleftrightarrow> count q = 0"
  by (metis length_contents length_0_conv)

lemma inv_shape: "queue_inv q \<Longrightarrow> wf_shape q"
  by (simp add: queue_inv_def)

lemma inv_advance_write:
  assumes "queue_inv q" and "Suc (count q) < unat (q_size q)"
  shows "queue_inv (advance_write (Some x) q)"
  using assms wf_advance_write [of q] live_advance_write [of q "Some x"] wf_shapeD [of q]
  by (auto simp: queue_inv_def) (auto simp: advance_write_def nth_list_update split: if_splits)

lemma inv_advance_read:
  assumes "queue_inv q" and "0 < count q"
  shows "queue_inv (advance_read q)"
  using assms wf_advance_read [of q] live_advance_read [of q] wf_shapeD [of q]
  by (auto simp: queue_inv_def) (auto simp: advance_read_def nth_list_update split: if_splits)

lemma inv_front:
  assumes "queue_inv q" and "0 < count q"
  shows "records q ! unat (readIndex q) = Some (hd (contents q))"
  using assms live_advance_read(1) [of q] contents_advance_read [of q] wf_shapeD [of q]
  by (fastforce simp: queue_inv_def)

section \<open>The contract of a bounded FIFO\<close>

datatype 'a qop = Enq 'a | Deq

text \<open>A client history: the values the queue accepted, the values it delivered, and the final queue.\<close>

fun run_ops :: "('a \<Rightarrow> 'q \<Rightarrow> bool \<times> 'q) \<Rightarrow> ('q \<Rightarrow> bool \<times> 'a option \<times> 'q) \<Rightarrow> 'a qop list \<Rightarrow> 'q
    \<Rightarrow> 'a list \<times> 'a option list \<times> 'q" where
  "run_ops enq deq [] q = ([], [], q)"
| "run_ops enq deq (Enq x # ops) q = (case enq x q of (ok, q') \<Rightarrow>
     (case run_ops enq deq ops q' of (acc, del, q'') \<Rightarrow> (if ok then x # acc else acc, del, q'')))"
| "run_ops enq deq (Deq # ops) q = (case deq q of (ok, v, q') \<Rightarrow>
     (case run_ops enq deq ops q' of (acc, del, q'') \<Rightarrow> (acc, if ok then v # del else del, q'')))"

locale bounded_fifo =
  fixes inv :: "'q \<Rightarrow> bool"
    and abs :: "'q \<Rightarrow> 'a list"
    and cap :: "'q \<Rightarrow> nat"
    and enq :: "'a \<Rightarrow> 'q \<Rightarrow> bool \<times> 'q"
    and deq :: "'q \<Rightarrow> bool \<times> 'a option \<times> 'q"
  assumes bounded: "inv q \<Longrightarrow> length (abs q) \<le> cap q"
    and enq_full: "inv q \<Longrightarrow> length (abs q) = cap q \<Longrightarrow> enq x q = (False, q)"
    and enq_room: "inv q \<Longrightarrow> length (abs q) < cap q \<Longrightarrow>
      fst (enq x q) \<and> inv (snd (enq x q)) \<and> abs (snd (enq x q)) = abs q @ [x]
      \<and> cap (snd (enq x q)) = cap q"
    and deq_empty: "inv q \<Longrightarrow> abs q = [] \<Longrightarrow> deq q = (False, None, q)"
    and deq_cons: "inv q \<Longrightarrow> abs q = y # ys \<Longrightarrow>
      \<exists>q'. deq q = (True, Some y, q') \<and> inv q' \<and> abs q' = ys \<and> cap q' = cap q"
begin

lemma enq_cases:
  assumes "inv q"
  obtains (full) "length (abs q) = cap q" "enq x q = (False, q)"
  | (room) q' where "length (abs q) < cap q" "enq x q = (True, q')" "inv q'" "abs q' = abs q @ [x]"
      "cap q' = cap q"
  using bounded [OF assms] enq_full [OF assms] enq_room [OF assms, of x]
  by (metis le_neq_implies_less prod.collapse)

lemma deq_cases:
  assumes "inv q"
  obtains (empty) "abs q = []" "deq q = (False, None, q)"
  | (elem) y q' where "deq q = (True, Some y, q')" "inv q'" "abs q = y # abs q'" "cap q' = cap q"
proof (cases "abs q")
  case Nil
  then show ?thesis using deq_empty [OF assms] that(1) by blast
next
  case (Cons y ys)
  then show ?thesis using deq_cons [OF assms Cons] that(2) by metis
qed

lemma fifo_history:
  assumes "inv q" and "run_ops enq deq ops q = (acc, del, q')"
  shows "inv q' \<and> cap q' = cap q \<and> map Some (abs q @ acc) = del @ map Some (abs q')"
  using assms
proof (induction ops arbitrary: q acc del)
  case Nil
  then show ?case by simp
next
  case (Cons op ops)
  show ?case
  proof (cases op)
    case (Enq x)
    show ?thesis
      using Cons.prems(1)
    proof (cases rule: enq_cases [where x = x])
      case full
      then show ?thesis using Cons Enq by (auto split: prod.splits)
    next
      case (room p)
      then show ?thesis using Cons.prems Enq Cons.IH [of p] by (fastforce split: prod.splits)
    qed
  next
    case Deq
    show ?thesis
      using Cons.prems(1)
    proof (cases rule: deq_cases)
      case empty
      then show ?thesis using Cons.prems Deq Cons.IH [of q acc del] by (auto split: prod.splits)
    next
      case (elem y p)
      then show ?thesis using Cons.prems Deq Cons.IH [of p] by (fastforce split: prod.splits)
    qed
  qed
qed

lemma history_bounded:
  assumes "inv q" and "run_ops enq deq ops q = (acc, del, q')"
  shows "length (abs q) + length acc \<le> length del + cap q"
proof -
  have "length (map Some (abs q @ acc)) = length (del @ map Some (abs q'))"
    using fifo_history [OF assms] by (simp only:)
  then show ?thesis using bounded [of q'] fifo_history [OF assms] by simp
qed

end

definition slots :: "'a pcq \<Rightarrow> nat" where
  "slots q = unat (q_size q) - 1"

lemma q_size_advance [simp]:
  "q_size (advance_write v q) = q_size q" "q_size (advance_read q) = q_size q"
  by (simp_all add: advance_write_def advance_read_def)

lemma slots_advance [simp]:
  "slots (advance_write v q) = slots q" "slots (advance_read q) = slots q"
  by (simp_all add: slots_def)

interpretation ring: bounded_fifo queue_inv contents slots pcq_write pcq_read
proof
  fix q :: "'a pcq" and x y ys
  assume inv: "queue_inv q"
  note shape = inv_shape [OF inv]
  show "length (contents q) \<le> slots q"
    using count_less [OF shape] by (simp add: slots_def)
  show "pcq_write x q = (False, q)" if "length (contents q) = slots q"
    using that by (simp add: queue_simps shape slots_def)
  show "fst (pcq_write x q) \<and> queue_inv (snd (pcq_write x q))
      \<and> contents (snd (pcq_write x q)) = contents q @ [x] \<and> slots (snd (pcq_write x q)) = slots q"
    if "length (contents q) < slots q"
    using that inv_advance_write [OF inv] contents_advance_write [OF shape]
    by (simp add: queue_simps shape slots_def less_diff_conv)
  show "pcq_read q = (False, None, q)" if "contents q = []"
    using that by (simp add: queue_simps shape contents_Nil_iff)
  show "\<exists>q'. pcq_read q = (True, Some y, q') \<and> queue_inv q' \<and> contents q' = ys \<and> slots q' = slots q"
    if "contents q = y # ys"
  proof -
    have "0 < count q" using that by (metis length_contents length_Cons zero_less_Suc)
    note facts = inv_front [OF inv this] inv_advance_read [OF inv this]
      contents_advance_read [OF shape this, symmetric]
    have "pcq_read q = (True, Some y, advance_read q)"
      using \<open>0 < count q\<close> facts(1) that by (simp add: pcq_read_eq [OF shape])
    then show ?thesis using facts that by simp
  qed
qed

lemma new_queue_inv:
  assumes "new_queue n = Some q"
  shows "queue_inv q" and "contents q = []" and "q_size q = n" and "2 \<le> n"
proof -
  have q: "q = \<lparr>q_size = n, records = replicate (unat n) None, readIndex = 0, writeIndex = 0\<rparr>"
    and n: "2 \<le> n"
    using assms by (auto simp: new_queue_def split: if_splits)
  have "0 < n" using n by (auto simp: word_le_nat_alt word_less_nat_alt)
  moreover have "count q = 0" by (simp add: q count_def)
  ultimately show "queue_inv q" "contents q = []"
    using n by (auto simp: queue_inv_def wf_shape_def contents_def live_def) (simp_all add: q)
  show "q_size q = n" "2 \<le> n" by (simp_all add: q n)
qed

text \<open>C23: Every sequence of \<^verbatim>\<open>write\<close> and \<^verbatim>\<open>read\<close> calls on a newly constructed queue is FIFO: the values
  delivered, followed by the values still stored, are exactly the accepted values in order; every
  delivered slot held a live object, and at most \<^verbatim>\<open>capacity() = size - 1\<close> accepted values are
  undelivered.\<close>
theorem pcq_history_fifo:
  assumes "new_queue n = Some q" and "run_ops pcq_write pcq_read ops q = (acc, del, q')"
  shows "map Some acc = del @ map Some (contents q') \<and> queue_inv q'
    \<and> length acc \<le> length del + unat (capacity q)"
proof -
  note new = new_queue_inv [OF assms(1)]
  have "1 \<le> n" using new(4) by (auto simp: word_le_nat_alt)
  then have "unat (capacity q) = slots q"
    using unat_sub [of 1 n] by (simp add: capacity_def slots_def new(3) unat_ucast_widen)
  then show ?thesis
    using ring.fifo_history [OF new(1) assms(2)] ring.history_bounded [OF new(1) assms(2)] new(2)
    by simp
qed

theorem pcq_history_fifo_witness:
  "map Some [7, 8] = [Some 7] @ map Some (contents
     (snd (snd (run_ops pcq_write pcq_read [Enq 7, Enq 8, Enq (9::nat), Deq] (the (new_queue 3))))))"
proof -
  have "run_ops pcq_write pcq_read [Enq 7, Enq 8, Enq 9, Deq] (the (new_queue 3))
     = ([7, 8], [Some 7], \<lparr>q_size = 3, records = [None, Some (8::nat), None], readIndex = 1, writeIndex = 2\<rparr>)"
    by code_simp
  moreover have "new_queue 3 = Some (the (new_queue 3 :: nat pcq option))" by (simp add: new_queue_def)
  ultimately show ?thesis using pcq_history_fifo [of 3 "the (new_queue 3)"] by (metis snd_conv)
qed

section \<open>Destruction and the size estimate\<close>

lemma empty_records:
  assumes "queue_inv q" and "count q = 0"
  shows "records q = replicate (unat (q_size q)) None"
  using assms wf_shapeD(2) [OF inv_shape [OF assms(1)]]
  by (auto simp: queue_inv_def live_def intro!: nth_equalityI)

lemma destroy_loop_all:
  assumes "queue_inv q" and "count q \<le> fuel"
  shows "destroy_loop fuel (q_size q) (readIndex q) (writeIndex q) (records q)
    = Some (replicate (unat (q_size q)) None)"
  using assms
proof (induction fuel arbitrary: q)
  case 0
  then show ?case
    using empty_records [of q] count_zero_iff [OF inv_shape [of q]] by (simp add: destroy_loop.simps)
next
  case (Suc fuel)
  show ?case
  proof (cases "count q = 0")
    case True
    then show ?thesis
      using Suc.prems empty_records [of q] count_zero_iff [OF inv_shape [of q]]
      by (simp add: destroy_loop.simps)
  next
    case False
    then have "readIndex q \<noteq> writeIndex q" "count (advance_read q) \<le> fuel"
      "queue_inv (advance_read q)"
      using Suc.prems count_zero_iff [OF inv_shape [of q]] count_advance_read [OF inv_shape [of q]]
        inv_advance_read [of q]
      by auto
    then show ?thesis
      using Suc.IH [of "advance_read q"]
      by (subst destroy_loop.simps) (simp add: advance_read_def next_index_def)
  qed
qed

text \<open>The destructor returns and leaves no live object behind, for every reachable queue.\<close>

lemma destroy_returns:
  assumes "queue_inv q"
  shows "destroy q = Some (replicate (unat (q_size q)) None)"
  using destroy_loop_all [OF assms] count_less [OF inv_shape [OF assms]] by (simp add: destroy_def)

lemma sizeGuess_positive:
  assumes "unat (ret :: u32) < 2 ^ 31"
  shows "unat (signed_take_bit 31 (ucast ret) :: u64) = unat ret"
proof -
  have "\<not> bit ret 31" using assms by (simp add: not_bit_31_iff_unat)
  then have "signed_take_bit 31 (ucast ret) = (take_bit 31 (ucast ret) :: u64)"
    by (simp add: signed_take_bit_eq_if_positive bit_simps)
  also have "unat \<dots> = unat ret"
    using assms by (simp add: unsigned_take_bit_eq unat_ucast_widen take_bit_nat_eq_self)
  finally show ?thesis .
qed

text \<open>\<^verbatim>\<open>sizeGuess()\<close> is the number of stored values when no other thread moves an index, for every
  queue whose size fits a positive \<^verbatim>\<open>int\<close>.\<close>

lemma sizeGuess_exact:
  assumes "queue_inv q" and "unat (q_size q) \<le> 2 ^ 31"
  shows "unat (sizeGuess q) = length (contents q)"
proof -
  let ?n = "unat (q_size q)" and ?r = "unat (readIndex q)" and ?w = "unat (writeIndex q)"
  note shape = wf_shapeD [OF inv_shape [OF assms(1)]]
  show ?thesis
  proof (cases "?r \<le> ?w")
    case True
    then have diff: "unat (writeIndex q - readIndex q) = ?w - ?r"
      by (simp add: unat_sub word_le_nat_alt)
    have "(?w + ?n - ?r) mod ?n = ((?w - ?r) + ?n) mod ?n" using True by simp
    also have "\<dots> = ?w - ?r" using shape by simp
    finally have "count q = ?w - ?r" by (simp add: count_def)
    moreover have "?w - ?r < 2 ^ 31" using shape assms(2) by linarith
    ultimately show ?thesis
      using diff by (simp add: sizeGuess_def Let_def sint_neg_iff_unat sizeGuess_positive)
  next
    case False
    then have diff: "unat (writeIndex q - readIndex q) = ?w + 2 ^ 32 - ?r"
      by (simp add: unat_sub_if_size word_size)
    then have neg: "2 ^ 31 \<le> unat (writeIndex q - readIndex q)" using shape assms(2) by simp
    have "unat (writeIndex q - readIndex q + q_size q) = ?w + ?n - ?r"
      using diff False shape assms(2) by (simp add: unat_word_ariths mod_if)
    moreover have "count q = ?w + ?n - ?r" using False shape by (simp add: count_def)
    ultimately show ?thesis
      using neg False shape assms(2)
      by (simp add: sizeGuess_def Let_def sint_neg_iff_unat sizeGuess_positive)
  qed
qed

section \<open>Interleavings of one producer and one consumer\<close>

text \<open>The program points of \<^verbatim>\<open>write\<close> (load \<^verbatim>\<open>writeIndex_\<close>, check \<^verbatim>\<open>readIndex_\<close>, construct the object,
  store \<^verbatim>\<open>writeIndex_\<close>) and of \<^verbatim>\<open>read\<close> (load \<^verbatim>\<open>readIndex_\<close>, check \<^verbatim>\<open>writeIndex_\<close>, move the
  value out, destroy the object, store \<^verbatim>\<open>readIndex_\<close>).  Each step is one access to shared memory; the
  release store and acquire load of the two indices order the accesses to the slots, so the
  interleavings of these steps are the executions of the two threads.  The fields \<^verbatim>\<open>sent\<close> and
  \<^verbatim>\<open>got\<close> record the values whose \<^verbatim>\<open>write\<close> and \<^verbatim>\<open>read\<close> took effect.\<close>

datatype 'a ppc = PIdle | PLoaded 'a u32 | PRoom 'a u32 u32 | PBuilt 'a u32
datatype cpc = CIdle | CLoaded u32 | CAvail u32 u32 | CMoved u32 u32 | CDone u32

record 'a spsc =
  queue :: "'a pcq"
  ppc :: "'a ppc"
  cpc :: cpc
  sent :: "'a list"
  got :: "'a option list"

fun producer_step :: "'a \<Rightarrow> 'a spsc \<Rightarrow> 'a spsc" where
  "producer_step arg s = (case ppc s of
     PIdle \<Rightarrow> s\<lparr>ppc := PLoaded arg (writeIndex (queue s))\<rparr>
   | PLoaded x cw \<Rightarrow> (let nextRecord = next_index (queue s) cw in
       if nextRecord \<noteq> readIndex (queue s) then s\<lparr>ppc := PRoom x cw nextRecord\<rparr>
       else s\<lparr>ppc := PIdle\<rparr>)
   | PRoom x cw nextRecord \<Rightarrow>
       s\<lparr>queue := (queue s)\<lparr>records := (records (queue s))[unat cw := Some x]\<rparr>, ppc := PBuilt x nextRecord\<rparr>
   | PBuilt x nextRecord \<Rightarrow>
       s\<lparr>queue := (queue s)\<lparr>writeIndex := nextRecord\<rparr>, ppc := PIdle, sent := sent s @ [x]\<rparr>)"

fun consumer_step :: "'a spsc \<Rightarrow> 'a spsc" where
  "consumer_step s = (case cpc s of
     CIdle \<Rightarrow> s\<lparr>cpc := CLoaded (readIndex (queue s))\<rparr>
   | CLoaded cr \<Rightarrow> if cr = writeIndex (queue s) then s\<lparr>cpc := CIdle\<rparr>
       else s\<lparr>cpc := CAvail cr (next_index (queue s) cr)\<rparr>
   | CAvail cr nextRecord \<Rightarrow>
       s\<lparr>cpc := CMoved cr nextRecord, got := got s @ [records (queue s) ! unat cr]\<rparr>
   | CMoved cr nextRecord \<Rightarrow>
       s\<lparr>queue := (queue s)\<lparr>records := (records (queue s))[unat cr := None]\<rparr>, cpc := CDone nextRecord\<rparr>
   | CDone nextRecord \<Rightarrow> s\<lparr>queue := (queue s)\<lparr>readIndex := nextRecord\<rparr>, cpc := CIdle\<rparr>)"

inductive spsc_reach :: "u32 \<Rightarrow> 'a spsc \<Rightarrow> bool" for n where
  start: "new_queue n = Some q \<Longrightarrow>
    spsc_reach n \<lparr>queue = q, ppc = PIdle, cpc = CIdle, sent = [], got = []\<rparr>"
| produce: "spsc_reach n s \<Longrightarrow> spsc_reach n (producer_step x s)"
| consume: "spsc_reach n s \<Longrightarrow> spsc_reach n (consumer_step s)"

fun taken :: "cpc \<Rightarrow> nat" where
  "taken (CMoved _ _) = 1" | "taken (CDone _) = 1" | "taken _ = 0"

definition built_slot :: "'a spsc \<Rightarrow> nat set" where
  "built_slot s = (case ppc s of PBuilt x _ \<Rightarrow> {unat (writeIndex (queue s))} | _ \<Rightarrow> {})"

definition freed_slot :: "'a spsc \<Rightarrow> nat set" where
  "freed_slot s = (case cpc s of CDone _ \<Rightarrow> {unat (readIndex (queue s))} | _ \<Rightarrow> {})"

definition producer_ok :: "'a spsc \<Rightarrow> bool" where
  "producer_ok s = (let q = queue s; room = Suc (count q) < unat (q_size q); w = writeIndex q in
     case ppc s of PIdle \<Rightarrow> True
     | PLoaded x cw \<Rightarrow> cw = w
     | PRoom x cw nx \<Rightarrow> cw = w \<and> nx = next_index q w \<and> room
     | PBuilt x nx \<Rightarrow> nx = next_index q w \<and> room \<and> records q ! unat w = Some x)"

definition consumer_ok :: "'a spsc \<Rightarrow> bool" where
  "consumer_ok s = (let q = queue s; avail = 0 < count q; r = readIndex q in
     case cpc s of CIdle \<Rightarrow> True
     | CLoaded cr \<Rightarrow> cr = r
     | CAvail cr nx \<Rightarrow> cr = r \<and> nx = next_index q r \<and> avail
     | CMoved cr nx \<Rightarrow> cr = r \<and> nx = next_index q r \<and> avail
     | CDone nx \<Rightarrow> nx = next_index q r \<and> avail)"

definition slots_ok :: "'a spsc \<Rightarrow> bool" where
  "slots_ok s \<longleftrightarrow> (\<forall>k < unat (q_size (queue s)). (records (queue s) ! k \<noteq> None)
     = (k \<in> live (queue s) - freed_slot s \<union> built_slot s))"

definition history_ok :: "'a spsc \<Rightarrow> bool" where
  "history_ok s \<longleftrightarrow> map Some (sent s) = got s @ map Some (drop (taken (cpc s)) (contents (queue s)))"

definition spsc_inv :: "'a spsc \<Rightarrow> bool" where
  "spsc_inv s \<longleftrightarrow> wf_shape (queue s) \<and> producer_ok s \<and> consumer_ok s \<and> slots_ok s \<and> history_ok s"

lemmas spsc_defs = spsc_inv_def producer_ok_def consumer_ok_def slots_ok_def history_ok_def
  built_slot_def freed_slot_def Let_def

text \<open>Construction and destruction of an object leave the indices alone.\<close>

lemma records_update_simps [simp]:
  "count (q\<lparr>records := rs\<rparr>) = count q" "live (q\<lparr>records := rs\<rparr>) = live q"
  "next_index (q\<lparr>records := rs\<rparr>) i = next_index q i"
  by (simp_all add: count_def live_def next_index_def)

lemma next_index_advance [simp]:
  "next_index (advance_write v q) i = next_index q i" "next_index (advance_read q) i = next_index q i"
  by (simp_all add: advance_write_def advance_read_def next_index_def)

lemma contents_build:
  assumes "wf_shape q"
  shows "contents (q\<lparr>records := (records q)[unat (writeIndex q) := v]\<rparr>) = contents q"
  using writeIndex_not_live [OF assms]
  by (auto simp: contents_def live_def intro!: arg_cong [where f = the] nth_list_update_neq)

lemma contents_free:
  assumes "wf_shape q" and "0 < count q"
  shows "drop 1 (contents (q\<lparr>records := (records q)[unat (readIndex q) := None]\<rparr>)) = drop 1 (contents q)"
proof -
  let ?p = "q\<lparr>records := (records q)[unat (readIndex q) := None]\<rparr>"
  have "wf_shape ?p" using assms(1) by (simp add: wf_shape_def)
  moreover have "advance_read ?p = advance_read q" by (simp add: advance_read_def)
  ultimately show ?thesis
    using contents_advance_read [of ?p] contents_advance_read [OF assms] assms(2) by simp
qed

lemma publish_eq_advance:
  assumes "records q ! unat (writeIndex q) = Some x"
  shows "q\<lparr>writeIndex := next_index q (writeIndex q)\<rparr> = advance_write (Some x) q"
  using assms list_update_id [of "records q" "unat (writeIndex q)"] by (simp add: advance_write_def)

lemma release_eq_advance:
  assumes "records q ! unat (readIndex q) = None"
  shows "q\<lparr>readIndex := next_index q (readIndex q)\<rparr> = advance_read q"
  using assms list_update_id [of "records q" "unat (readIndex q)"] by (simp add: advance_read_def)

lemma readIndex_live:
  assumes "wf_shape q" and "0 < count q"
  shows "unat (readIndex q) \<in> live q" and "readIndex q \<noteq> writeIndex q"
  using live_advance_read(1) [OF assms] count_zero_iff [OF assms(1)] assms(2) by auto

lemma avail_taken:
  assumes "consumer_ok s" and "wf_shape (queue s)"
  shows "taken (cpc s) \<le> count (queue s)" and "unat (writeIndex (queue s)) \<notin> freed_slot s"
  using assms readIndex_live(2) [of "queue s"]
  by (auto simp: consumer_ok_def freed_slot_def Let_def word_unat_eq_iff split: cpc.splits)

lemma producer_build_inv:
  assumes inv: "spsc_inv s" and pc: "ppc s = PRoom y cw nx"
  shows "spsc_inv (producer_step x s)"
proof -
  let ?q = "queue s"
  let ?p = "?q\<lparr>records := (records ?q)[unat (writeIndex ?q) := Some y]\<rparr>"
  have shape: "wf_shape ?q" and ok: "consumer_ok s" and cw: "cw = writeIndex ?q"
    "nx = next_index ?q (writeIndex ?q)" "Suc (count ?q) < unat (q_size ?q)"
    using inv pc by (auto simp: spsc_defs)
  have step: "producer_step x s = s\<lparr>queue := ?p, ppc := PBuilt y nx\<rparr>" using pc cw by simp
  have "wf_shape ?p" using shape by (simp add: wf_shape_def)
  moreover have "producer_ok (s\<lparr>queue := ?p, ppc := PBuilt y nx\<rparr>)"
    using cw wf_shapeD [OF shape] by (simp add: producer_ok_def)
  moreover have "consumer_ok (s\<lparr>queue := ?p, ppc := PBuilt y nx\<rparr>)"
    using ok by (simp add: consumer_ok_def Let_def cong: cpc.case_cong)
  moreover have "slots_ok (s\<lparr>queue := ?p, ppc := PBuilt y nx\<rparr>)"
    using inv pc wf_shapeD [OF shape]
    by (auto simp: spsc_inv_def slots_ok_def built_slot_def freed_slot_def nth_list_update
        split: cpc.splits)
  moreover have "history_ok (s\<lparr>queue := ?p, ppc := PBuilt y nx\<rparr>)"
    using inv contents_build [OF shape] by (simp add: spsc_inv_def history_ok_def)
  ultimately show ?thesis unfolding step by (simp add: spsc_inv_def)
qed

lemma producer_publish_inv:
  assumes inv: "spsc_inv s" and pc: "ppc s = PBuilt y nx"
  shows "spsc_inv (producer_step x s)"
proof -
  let ?q = "queue s"
  let ?p = "advance_write (Some y) ?q"
  let ?s = "s\<lparr>queue := ?p, ppc := PIdle, sent := sent s @ [y]\<rparr>"
  have shape: "wf_shape ?q" and ok: "consumer_ok s" and nx: "nx = next_index ?q (writeIndex ?q)"
    and room: "Suc (count ?q) < unat (q_size ?q)" and slot: "records ?q ! unat (writeIndex ?q) = Some y"
    using inv pc by (auto simp: spsc_defs)
  have recs: "records ?p = records ?q" and r: "readIndex ?p = readIndex ?q"
    by (simp_all flip: publish_eq_advance [OF slot])
  have step: "producer_step x s = ?s" using pc nx by (simp add: publish_eq_advance [OF slot])
  have "consumer_ok ?s"
    using ok count_advance_write [OF shape room] r by (auto simp: consumer_ok_def Let_def split: cpc.splits)
  moreover have "slots_ok ?s"
    using inv pc live_advance_write [OF shape room] avail_taken(2) [OF ok shape] recs r
    by (auto simp: spsc_inv_def slots_ok_def built_slot_def freed_slot_def split: cpc.splits)
  moreover have "history_ok ?s"
    using inv contents_advance_write [OF shape room] avail_taken(1) [OF ok shape]
    by (simp add: spsc_inv_def history_ok_def)
  ultimately show ?thesis
    unfolding step using wf_advance_write [OF shape] by (simp add: spsc_inv_def producer_ok_def)
qed

lemma producer_step_inv:
  assumes "spsc_inv s"
  shows "spsc_inv (producer_step x s)"
proof (cases "ppc s")
  case (PLoaded y cw)
  then show ?thesis
    using assms full_iff [of "queue s"] count_less [of "queue s"]
    by (auto simp: spsc_defs split: cpc.splits)
next
  case PIdle
  then show ?thesis using assms by (auto simp: spsc_defs split: cpc.splits)
qed (rule producer_build_inv [OF assms] producer_publish_inv [OF assms], assumption)+

lemma consumer_move_inv:
  assumes inv: "spsc_inv s" and pc: "cpc s = CAvail cr nx"
  shows "spsc_inv (consumer_step s)"
proof -
  let ?q = "queue s"
  have shape: "wf_shape ?q" and avail: "0 < count ?q" and cr: "cr = readIndex ?q"
    using inv pc by (auto simp: spsc_defs)
  have "records ?q ! unat cr \<noteq> None"
    using inv pc readIndex_live(1) [OF shape avail] wf_shapeD [OF shape] cr by (auto simp: spsc_defs)
  then show ?thesis
    using inv pc contents_advance_read [OF shape avail] cr
    by (auto simp: spsc_defs split: ppc.splits)
qed

lemma consumer_free_inv:
  assumes inv: "spsc_inv s" and pc: "cpc s = CMoved cr nx"
  shows "spsc_inv (consumer_step s)"
proof -
  let ?q = "queue s"
  let ?p = "?q\<lparr>records := (records ?q)[unat (readIndex ?q) := None]\<rparr>"
  let ?s = "s\<lparr>queue := ?p, cpc := CDone nx\<rparr>"
  have shape: "wf_shape ?q" and avail: "0 < count ?q" and cr: "cr = readIndex ?q"
    "nx = next_index ?q (readIndex ?q)"
    using inv pc by (auto simp: spsc_defs)
  note ne = readIndex_live(2) [OF shape avail]
  have step: "consumer_step s = ?s" using pc cr by simp
  have "wf_shape ?p" using shape by (simp add: wf_shape_def)
  moreover have "producer_ok ?s"
    using inv ne by (auto simp: spsc_inv_def producer_ok_def Let_def word_unat_eq_iff split: ppc.splits)
  moreover have "consumer_ok ?s" using cr avail by (simp add: consumer_ok_def)
  moreover have "slots_ok ?s"
    using inv pc ne wf_shapeD [OF shape]
    by (auto simp: spsc_inv_def slots_ok_def built_slot_def freed_slot_def nth_list_update
        word_unat_eq_iff split: ppc.splits)
  moreover have "history_ok ?s"
    using inv pc contents_free [OF shape avail] by (simp add: spsc_inv_def history_ok_def)
  ultimately show ?thesis unfolding step by (simp add: spsc_inv_def)
qed

lemma consumer_release_inv:
  assumes inv: "spsc_inv s" and pc: "cpc s = CDone nx"
  shows "spsc_inv (consumer_step s)"
proof -
  let ?q = "queue s"
  let ?p = "advance_read ?q"
  let ?s = "s\<lparr>queue := ?p, cpc := CIdle\<rparr>"
  have shape: "wf_shape ?q" and avail: "0 < count ?q" and nx: "nx = next_index ?q (readIndex ?q)"
    using inv pc by (auto simp: spsc_defs)
  note ne = readIndex_live(2) [OF shape avail]
  have "unat (readIndex ?q) \<notin> built_slot s"
    using ne by (auto simp: built_slot_def word_unat_eq_iff split: ppc.splits)
  then have slot: "records ?q ! unat (readIndex ?q) = None"
    using inv pc wf_shapeD [OF shape] by (auto simp: spsc_inv_def slots_ok_def freed_slot_def)
  have recs: "records ?p = records ?q" and w: "writeIndex ?p = writeIndex ?q"
    by (simp_all flip: release_eq_advance [OF slot])
  have step: "consumer_step s = ?s" using pc nx by (simp add: release_eq_advance [OF slot])
  have "producer_ok ?s"
    using inv count_advance_read [OF shape avail] recs w
    by (auto simp: spsc_inv_def producer_ok_def Let_def split: ppc.splits)
  moreover have "slots_ok ?s"
    using inv pc live_advance_read [OF shape avail] recs w
    by (auto simp: spsc_inv_def slots_ok_def built_slot_def freed_slot_def split: ppc.splits)
  moreover have "history_ok ?s"
    using inv pc contents_advance_read [OF shape avail] by (simp add: spsc_inv_def history_ok_def)
  ultimately show ?thesis
    unfolding step using wf_advance_read [OF shape] by (simp add: spsc_inv_def consumer_ok_def)
qed

lemma consumer_step_inv:
  assumes "spsc_inv s"
  shows "spsc_inv (consumer_step s)"
proof (cases "cpc s")
  case (CLoaded cr)
  then show ?thesis
    using assms count_zero_iff [of "queue s"] by (auto simp: spsc_defs split: ppc.splits)
next
  case CIdle
  then show ?thesis using assms by (auto simp: spsc_defs split: ppc.splits)
qed (rule consumer_move_inv [OF assms] consumer_free_inv [OF assms] consumer_release_inv [OF assms],
    assumption)+

lemma spsc_reach_inv: "spsc_reach n s \<Longrightarrow> spsc_inv s"
proof (induction rule: spsc_reach.induct)
  case (start q)
  then show ?case
    using new_queue_inv [of n q] by (simp add: spsc_defs queue_inv_def)
qed (auto intro: producer_step_inv consumer_step_inv simp del: producer_step.simps consumer_step.simps)

text \<open>C7: In every interleaving of one producer and one consumer the values received are a prefix of
  the values whose \<^verbatim>\<open>write\<close> succeeded, in order; an object is constructed only in raw storage, moved
  out only from a live object, and the two threads never work on the same slot.\<close>
theorem spsc_interleaving_safe:
  assumes "spsc_reach n s"
  shows "prefix (got s) (map Some (sent s))
    \<and> (\<forall>x cw nx. ppc s = PRoom x cw nx \<longrightarrow> records (queue s) ! unat cw = None)
    \<and> (\<forall>cr nx. cpc s = CAvail cr nx \<longrightarrow> records (queue s) ! unat cr \<noteq> None)
    \<and> (\<forall>x cw nx cr nx'. ppc s = PRoom x cw nx \<longrightarrow> cpc s = CAvail cr nx' \<or> cpc s = CMoved cr nx'
         \<longrightarrow> cw \<noteq> cr)"
proof -
  have inv: "spsc_inv s" using assms by (rule spsc_reach_inv)
  note shape = wf_shapeD [of "queue s"] writeIndex_not_live [of "queue s"] readIndex_live [of "queue s"]
  have "prefix (got s) (map Some (sent s))" using inv by (simp add: spsc_inv_def history_ok_def)
  moreover have "records (queue s) ! unat cw = None" if "ppc s = PRoom x cw nx" for x cw nx
    using inv that shape by (auto simp: spsc_defs)
  moreover have "records (queue s) ! unat cr \<noteq> None" if "cpc s = CAvail cr nx" for cr nx
    using inv that shape by (auto simp: spsc_defs)
  moreover have "cw \<noteq> cr" if "ppc s = PRoom x cw nx" "cpc s = CAvail cr nx' \<or> cpc s = CMoved cr nx'"
    for x cw nx cr nx'
    using inv that shape by (auto simp: spsc_defs)
  ultimately show ?thesis by blast
qed

theorem spsc_interleaving_safe_witness:
  "prefix [Some 4] (map Some (sent (consumer_step (consumer_step (consumer_step (producer_step 4
     (producer_step 4 (producer_step 4 (producer_step (4::nat)
       \<lparr>queue = the (new_queue 2), ppc = PIdle, cpc = CIdle, sent = [], got = []\<rparr>)))))))))"
proof -
  let ?s = "consumer_step (consumer_step (consumer_step (producer_step 4 (producer_step 4
    (producer_step 4 (producer_step (4::nat)
      \<lparr>queue = the (new_queue 2), ppc = PIdle, cpc = CIdle, sent = [], got = []\<rparr>))))))"
  have "new_queue 2 = Some (the (new_queue 2 :: nat pcq option))" by (simp add: new_queue_def)
  then have "spsc_reach 2 ?s" by (intro spsc_reach.intros)
  moreover have "got ?s = [Some 4]" by code_simp
  ultimately show ?thesis using spsc_interleaving_safe [of 2 ?s] by argo
qed

end
