(* ===== verification/Data_Handler.thy ===== *)
theory Data_Handler
  imports Storage_Utils Producer_Consumer_Queue
begin

text \<open>
  State and storage operations of \<^verbatim>\<open>src/data/data_handler.cpp\<close>: the members of \<^verbatim>\<open>DataHandler\<close>, the file
  names of a run, the switch to the next readout file and the failover between the two NVMe disks.
  The operating system answers through a parameter indexed by a clock that advances with every call,
  so that two calls may see different answers; every call is recorded in \<^verbatim>\<open>io_log\<close>.
\<close>

section \<open>The environment and the trace of system calls\<close>

text \<open>\<^term>\<open>Inl e\<close> is a failed call with \<^verbatim>\<open>errno\<close> e.\<close>

record io_env =
  env_os :: "nat \<Rightarrow> os_view"
  env_exists :: "nat \<Rightarrow> string \<Rightarrow> bool"
  env_open :: "nat \<Rightarrow> string \<Rightarrow> int + nat"
  env_append :: "nat \<Rightarrow> string \<Rightarrow> bool"
  env_write :: "nat \<Rightarrow> int \<Rightarrow> u32 list \<Rightarrow> int + nat"
  env_close :: "nat \<Rightarrow> int \<Rightarrow> bool"
  env_time :: "nat \<Rightarrow> string"

definition ENOSPC :: int where "ENOSPC = 28"

datatype io_event =
    EvOpen string int
  | EvWrite int "u32 list"
  | EvFsync int
  | EvClose int
  | EvMkdir string
  | EvAppend string string

section \<open>The members of DataHandler\<close>

definition EVENTCHUNK :: nat where "EVENTCHUNK = 10"
definition EVENTSIZE :: nat where "EVENTSIZE = 600300"
definition DATABUFFSIZE :: nat where "DATABUFFSIZE = EVENTSIZE div 4"
definition EVENTBUFFSIZE :: nat where "EVENTBUFFSIZE = DATABUFFSIZE * EVENTCHUNK"
definition kNoResync :: nat where "kNoResync = 2 ^ 64 - 1"

definition isEventStart :: "u32 \<Rightarrow> bool" where
  "isEventStart word = ((word AND 0xFFFFFFFF) = 0xFFFFFFFF)"
definition isEventEnd :: "u32 \<Rightarrow> bool" where
  "isEventEnd word = ((word AND 0xFFFFFFFF) = 0xE0000000)"

record dh =
  DMABUFFSIZE :: nat
  dma_abort_wait_ms :: nat
  data_queue :: "u32 list pcq"
  ext_trig :: int
  software_trig :: int
  software_trigger_rate :: int
  trigger_module :: int
  num_events :: nat
  num_dma_loops :: nat
  m_num_recv_bytes :: nat
  pps_sample_period :: int
  run_number :: nat
  trig_data_ctr :: u64
  read_core_id :: nat
  write_core_id :: nat
  event_count :: nat
  dma_loop_count :: nat
  num_recv_mB :: nat
  num_event_chunk_words :: nat
  prev_event_count :: nat
  prev_dma_loop_count :: nat
  num_rw_buffer_overflow :: u32
  event_start_markers :: nat
  event_end_markers :: nat
  run_error_bit :: u32
  dma_timeout :: bool
  free_dma_buffer_error :: bool
  switch_file_close_error :: bool
  switch_file_open_error :: bool
  send_pulse_train_error :: bool
  failed_write :: bool
  failed_locking_dma_buffers :: bool
  trigger_file_open_error :: bool
  pps_file_open_error :: bool
  disk_full :: bool
  disk_failover :: bool
  disk_stop_requested :: bool
  disk_switch_requested :: bool
  trigger_segment_file_num :: nat
  read_write_buff_overflow :: bool
  resync_at_block :: nat
  data_basedir :: string
  write_file_name :: string
  data_nvme_paths :: "string list"
  active_nvme_index :: nat
  file_count :: nat
  is_running :: bool
  stop_write :: bool
  fd :: int
  drift_size :: nat
  pps_count :: nat
  clock :: nat
  io_log :: "io_event list"

definition log_io :: "io_event \<Rightarrow> dh \<Rightarrow> dh" where
  "log_io e d = d\<lparr>clock := Suc (clock d), io_log := io_log d @ [e]\<rparr>"

definition tick :: "dh \<Rightarrow> dh" where
  "tick d = d\<lparr>clock := Suc (clock d)\<rparr>"

section \<open>File names\<close>

definition readout_prefix :: "string \<Rightarrow> nat \<Rightarrow> string" where
  "readout_prefix basedir run = basedir @ ''/readout_data/pGRAMS_bin_'' @ to_string run @ ''_''"

definition readout_file :: "dh \<Rightarrow> string" where
  "readout_file d = write_file_name d @ to_string (file_count d) @ ''.dat''"

definition segment_suffix :: "nat \<Rightarrow> string" where
  "segment_suffix n = (if n > 0 then ''_'' @ to_string n else [])"

definition BuildTriggerRawFileName :: "dh \<Rightarrow> string \<Rightarrow> nat \<Rightarrow> string" where
  "BuildTriggerRawFileName d basedir segment_file_num =
     (let name = basedir @ ''/trigger_data/trigger_raw_'' @ to_string (run_number d);
          name = name @ segment_suffix segment_file_num in name @ ''.bin'')"

definition BuildPpsFileName :: "dh \<Rightarrow> string \<Rightarrow> nat \<Rightarrow> string" where
  "BuildPpsFileName d basedir segment_file_num =
     (let name = basedir @ ''/pps_data/pps_data_'' @ to_string (run_number d);
          name = name @ segment_suffix segment_file_num in name @ ''.bin'')"

section \<open>Operations\<close>

fun nvme_index_of :: "nat \<Rightarrow> string list \<Rightarrow> string \<Rightarrow> nat" where
  "nvme_index_of i [] base = 0"
| "nvme_index_of i (p # ps) base = (if p = base then i else nvme_index_of (Suc i) ps base)"

definition InitNvmePathsFromEnv :: "io_env \<Rightarrow> dh \<Rightarrow> dh" where
  "InitNvmePathsFromEnv env d = (let paths = GetNvmeCandidatesFromEnv (env_os env (clock d)) in
     d\<lparr>data_nvme_paths := paths, active_nvme_index := nvme_index_of 0 paths (data_basedir d)\<rparr>)"

definition AppendStorageSegmentLog :: "io_env \<Rightarrow> string \<Rightarrow> dh \<Rightarrow> dh" where
  "AppendStorageSegmentLog env reason d =
     (let log_dir = data_basedir d @ ''/config_logs'';
          d = log_io (EvMkdir log_dir) d;
          log_path = log_dir @ ''/run_'' @ to_string (run_number d) @ ''_storage.log'' in
      if \<not> env_append env (clock d) log_path then tick d
      else log_io (EvAppend log_path
        (env_time env (clock d) @ '' reason='' @ reason @ '' basedir='' @ data_basedir d
         @ '' file_count='' @ to_string (file_count d) @ '' event_count='' @ to_string (event_count d)
         @ '' trigger_file='' @ BuildTriggerRawFileName d (data_basedir d) (trigger_segment_file_num d)
         @ ''
'')) d)"

definition RequestDiskStop :: "dh \<Rightarrow> dh" where
  "RequestDiskStop d = d\<lparr>disk_full := True, disk_stop_requested := True, is_running := False,
                         stop_write := True\<rparr>"

definition switch_to_disk :: "io_env \<Rightarrow> nat \<Rightarrow> string \<Rightarrow> dh \<Rightarrow> dh" where
  "switch_to_disk env alt_index alt_path d =
     (let d = d\<lparr>active_nvme_index := alt_index, data_basedir := alt_path,
                write_file_name := readout_prefix alt_path (run_number d)\<rparr>;
          d = d\<lparr>trigger_segment_file_num := file_count d + 1, disk_failover := True,
                disk_switch_requested := True\<rparr>
      in AppendStorageSegmentLog env ''failover'' d)"

definition MaybeSwitchDataDisk :: "io_env \<Rightarrow> dh \<Rightarrow> bool \<times> dh" where
  "MaybeSwitchDataDisk env d =
     (if length (data_nvme_paths d) < 2 then (False, d)
      else let current_free = GetFreeBytes (env_os env (clock d)) (data_basedir d); d = tick d in
      if (case current_free of Some fb \<Rightarrow> fb \<ge> kDiskFileSwitchMinFreeBytes | None \<Rightarrow> False) then (False, d)
      else let alt_index = (if active_nvme_index d = 0 then 1 else 0);
               alt_path = data_nvme_paths d ! alt_index;
               alt_query = QueryFreeBytes (env_os env (clock d)) alt_path; d = tick d in
      case fb_bytes alt_query of
        Some fb \<Rightarrow> if fb < kDiskFileSwitchMinFreeBytes then (False, RequestDiskStop d)
                   else (True, switch_to_disk env alt_index alt_path d)
      | None \<Rightarrow> let present = env_exists env (clock d) alt_path; d = tick d in
                if \<not> present then (False, RequestDiskStop d)
                else (True, switch_to_disk env alt_index alt_path d))"

definition close_in_background :: "io_env \<Rightarrow> dh \<Rightarrow> dh" where
  "close_in_background env d =
     (let ok = env_close env (clock d) (fd d); d = log_io (EvClose (fd d)) d in
      if ok then d else d\<lparr>switch_file_close_error := True\<rparr>)"

definition open_readout_file :: "io_env \<Rightarrow> dh \<Rightarrow> bool \<times> dh" where
  "open_readout_file env d = (let name = readout_file d in
     case env_open env (clock d) name of
       Inr f \<Rightarrow> (True, log_io (EvOpen name (int f)) (d\<lparr>fd := int f\<rparr>))
     | Inl errno \<Rightarrow> (let d = log_io (EvOpen name (-1)) (d\<lparr>fd := -1, switch_file_open_error := True\<rparr>) in
         (False, if errno = ENOSPC then RequestDiskStop d else d)))"

definition SwitchWriteFile :: "io_env \<Rightarrow> dh \<Rightarrow> bool \<times> dh" where
  "SwitchWriteFile env d =
     (let d = close_in_background env d in
      if disk_stop_requested d then (False, d)
      else let d = snd (MaybeSwitchDataDisk env d) in
      if disk_stop_requested d then (False, d)
      else open_readout_file env (d\<lparr>file_count := file_count d + 1\<rparr>))"

fun drain_queue :: "nat \<Rightarrow> 'a pcq \<Rightarrow> 'a pcq" where
  "drain_queue fuel q = (if isEmpty q then q
     else case fuel of 0 \<Rightarrow> q
     | Suc n \<Rightarrow> (case popFront q of None \<Rightarrow> q | Some q' \<Rightarrow> drain_queue n q'))"

declare drain_queue.simps [simp del]

definition Reset :: "io_env \<Rightarrow> nat \<Rightarrow> dh \<Rightarrow> bool \<times> dh" where
  "Reset env run d =
     (let d = d\<lparr>file_count := 0, event_count := 0, num_dma_loops := 0, m_num_recv_bytes := 0,
                run_error_bit := 0, pps_count := 0, disk_full := False, disk_failover := False,
                disk_stop_requested := False, disk_switch_requested := False,
                trigger_segment_file_num := 0\<rparr>;
          d = d\<lparr>stop_write := False\<rparr>;
          d = d\<lparr>data_queue := drain_queue (unat (q_size (data_queue d))) (data_queue d)\<rparr>;
          d = d\<lparr>run_number := run, write_file_name := readout_prefix (data_basedir d) run\<rparr>
      in (True, InitNvmePathsFromEnv env d))"

definition SetRun :: "bool \<Rightarrow> dh \<Rightarrow> dh" where
  "SetRun set_running d = d\<lparr>is_running := set_running\<rparr>"


text \<open>The state after construction, with zero in the members that the constructor leaves unset.\<close>

definition sample_dh :: dh where
  "sample_dh = \<lparr>DMABUFFSIZE = 0, dma_abort_wait_ms = 2000, data_queue = the (new_queue 400), ext_trig = 0,
     software_trig = 0, software_trigger_rate = 0, trigger_module = 0, num_events = 0, num_dma_loops = 1,
     m_num_recv_bytes = 0, pps_sample_period = 0, run_number = 0, trig_data_ctr = 0, read_core_id = 0,
     write_core_id = 0, event_count = 0, dma_loop_count = 0, num_recv_mB = 0, num_event_chunk_words = 0,
     prev_event_count = 0, prev_dma_loop_count = 0, num_rw_buffer_overflow = 0, event_start_markers = 0,
     event_end_markers = 0, run_error_bit = 0, dma_timeout = False, free_dma_buffer_error = False,
     switch_file_close_error = False, switch_file_open_error = False, send_pulse_train_error = False,
     failed_write = False, failed_locking_dma_buffers = False, trigger_file_open_error = False,
     pps_file_open_error = False, disk_full = False, disk_failover = False, disk_stop_requested = False,
     disk_switch_requested = False, trigger_segment_file_num = 0, read_write_buff_overflow = False,
     resync_at_block = kNoResync, data_basedir = [], write_file_name = [], data_nvme_paths = [],
     active_nvme_index = 0, file_count = 0, is_running = False, stop_write = False, fd = 0, drift_size = 0,
     pps_count = 0, clock = 0, io_log = []\<rparr>"

end
