(* ===== verification/Json.thy ===== *)
theory Json
  imports Complex_Main Prelude "HOL-Library.Monad_Syntax"
begin

text \<open>
  JSON values and the part of the nlohmann interface that the readout uses: \<^verbatim>\<open>operator[]\<close> on objects,
  \<^verbatim>\<open>contains\<close>, \<^verbatim>\<open>update\<close> and the typed \<^verbatim>\<open>get\<close>.  A thrown exception is \<^term>\<open>None\<close>; every use in the
  readout either catches all exceptions or none, so the kind of exception does not matter.  A floating point
  number is a rational.
\<close>

datatype json =
    JNull
  | JBool bool
  | JInt int
  | JFloat rat
  | JString string
  | JArray "json list"
  | JObject "(string \<times> json) list"

section \<open>Access\<close>

text \<open>\<^verbatim>\<open>j[key]\<close> for reading: an absent key (and a null value) gives null; any other value throws.\<close>

fun field :: "string \<Rightarrow> json \<Rightarrow> json option" where
  "field k JNull = Some JNull"
| "field k (JObject kvs) = Some (case map_of kvs k of None \<Rightarrow> JNull | Some v \<Rightarrow> v)"
| "field k _ = None"

definition path2 :: "string \<Rightarrow> string \<Rightarrow> json \<Rightarrow> json option" where
  "path2 a b j = do { x \<leftarrow> field a j; field b x }"

fun contains_key :: "string \<Rightarrow> json \<Rightarrow> bool" where
  "contains_key k (JObject kvs) = (map_of kvs k \<noteq> None)"
| "contains_key k _ = False"

fun is_null :: "json \<Rightarrow> bool" where
  "is_null JNull = True"
| "is_null _ = False"

fun alist_set :: "string \<Rightarrow> json \<Rightarrow> (string \<times> json) list \<Rightarrow> (string \<times> json) list" where
  "alist_set k v [] = [(k, v)]"
| "alist_set k v ((k', v') # kvs) = (if k = k' then (k, v) # kvs else (k', v') # alist_set k v kvs)"

text \<open>\<^verbatim>\<open>j[key] = v\<close>: null becomes an object.\<close>

fun set_field :: "string \<Rightarrow> json \<Rightarrow> json \<Rightarrow> json option" where
  "set_field k v JNull = Some (JObject [(k, v)])"
| "set_field k v (JObject kvs) = Some (JObject (alist_set k v kvs))"
| "set_field k v _ = None"

definition set_path2 :: "string \<Rightarrow> string \<Rightarrow> json \<Rightarrow> json \<Rightarrow> json option" where
  "set_path2 a b v j = do { x \<leftarrow> field a j; y \<leftarrow> set_field b v x; set_field a y j }"

text \<open>\<^verbatim>\<open>j.update(other)\<close>: the top-level keys of \<^verbatim>\<open>other\<close> replace those of \<^verbatim>\<open>j\<close>.\<close>

fun update_json :: "json \<Rightarrow> json \<Rightarrow> json option" where
  "update_json (JObject kvs) (JObject ups) = Some (JObject (fold (\<lambda>(k, v). alist_set k v) ups kvs))"
| "update_json JNull (JObject ups) = Some (JObject (fold (\<lambda>(k, v). alist_set k v) ups []))"
| "update_json _ _ = None"

section \<open>Typed values\<close>

definition trunc :: "rat \<Rightarrow> int" where
  "trunc r = (if r \<ge> 0 then \<lfloor>r\<rfloor> else \<lceil>r\<rceil>)"

definition int32 :: "int \<Rightarrow> int" where
  "int32 i = sint (word_of_int i :: u32)"

fun get_int :: "json \<Rightarrow> int option" where
  "get_int (JInt i) = Some (int32 i)"
| "get_int (JFloat r) = Some (int32 (trunc r))"
| "get_int (JBool b) = Some (if b then 1 else 0)"
| "get_int _ = None"

fun get_u32 :: "json \<Rightarrow> u32 option" where
  "get_u32 (JInt i) = Some (word_of_int i)"
| "get_u32 (JFloat r) = Some (word_of_int (trunc r))"
| "get_u32 (JBool b) = Some (if b then 1 else 0)"
| "get_u32 _ = None"

fun get_size :: "json \<Rightarrow> nat option" where
  "get_size (JInt i) = Some (unat (word_of_int i :: u64))"
| "get_size (JFloat r) = Some (unat (word_of_int (trunc r) :: u64))"
| "get_size _ = None"

fun get_double :: "json \<Rightarrow> rat option" where
  "get_double (JInt i) = Some (of_int i)"
| "get_double (JFloat r) = Some r"
| "get_double _ = None"

fun get_bool :: "json \<Rightarrow> bool option" where
  "get_bool (JBool b) = Some b"
| "get_bool _ = None"

fun get_string :: "json \<Rightarrow> string option" where
  "get_string (JString s) = Some s"
| "get_string _ = None"

fun map_option_list :: "('a \<Rightarrow> 'b option) \<Rightarrow> 'a list \<Rightarrow> 'b list option" where
  "map_option_list f [] = Some []"
| "map_option_list f (x # xs) = do { y \<leftarrow> f x; ys \<leftarrow> map_option_list f xs; Some (y # ys) }"

fun get_int_vec :: "json \<Rightarrow> int list option" where
  "get_int_vec (JArray xs) = map_option_list get_int xs"
| "get_int_vec _ = None"

fun get_u32_vec :: "json \<Rightarrow> u32 list option" where
  "get_u32_vec (JArray xs) = map_option_list get_u32 xs"
| "get_u32_vec _ = None"

text \<open>\<^verbatim>\<open>config[a][b].get<T>()\<close>.\<close>

definition cfg_int :: "string \<Rightarrow> string \<Rightarrow> json \<Rightarrow> int option" where
  "cfg_int a b j = path2 a b j \<bind> get_int"
definition cfg_u32 :: "string \<Rightarrow> string \<Rightarrow> json \<Rightarrow> u32 option" where
  "cfg_u32 a b j = path2 a b j \<bind> get_u32"
definition cfg_size :: "string \<Rightarrow> string \<Rightarrow> json \<Rightarrow> nat option" where
  "cfg_size a b j = path2 a b j \<bind> get_size"
definition cfg_double :: "string \<Rightarrow> string \<Rightarrow> json \<Rightarrow> rat option" where
  "cfg_double a b j = path2 a b j \<bind> get_double"
definition cfg_bool :: "string \<Rightarrow> string \<Rightarrow> json \<Rightarrow> bool option" where
  "cfg_bool a b j = path2 a b j \<bind> get_bool"
definition cfg_string :: "string \<Rightarrow> string \<Rightarrow> json \<Rightarrow> string option" where
  "cfg_string a b j = path2 a b j \<bind> get_string"
definition cfg_int_vec :: "string \<Rightarrow> string \<Rightarrow> json \<Rightarrow> int list option" where
  "cfg_int_vec a b j = path2 a b j \<bind> get_int_vec"
definition cfg_u32_vec :: "string \<Rightarrow> string \<Rightarrow> json \<Rightarrow> u32 list option" where
  "cfg_u32_vec a b j = path2 a b j \<bind> get_u32_vec"

lemmas cfg_defs = cfg_int_def cfg_u32_def cfg_size_def cfg_double_def cfg_bool_def cfg_string_def
  cfg_int_vec_def cfg_u32_vec_def path2_def

section \<open>Setting and reading\<close>

lemma map_of_alist_set [simp]: "map_of (alist_set k v kvs) = (map_of kvs)(k \<mapsto> v)"
  by (induction kvs) auto

lemma field_set_field:
  assumes "set_field k v j = Some j'"
  shows "field k' j' = (if k' = k then Some v else field k' j)"
  using assms by (cases j) auto

lemma path2_set_path2:
  assumes "set_path2 a b v j = Some j'"
  shows "path2 a' b' j' = (if a' = a \<and> b' = b then Some v else path2 a' b' j)"
proof -
  obtain x y where x: "field a j = Some x" and y: "set_field b v x = Some y" and j': "set_field a y j = Some j'"
    using assms by (auto simp: set_path2_def split: Option.bind_splits)
  show ?thesis
    using field_set_field [OF j', of a'] field_set_field [OF y, of b'] x
    by (auto simp: path2_def split: if_splits)
qed

lemma int32_small: "- (2 ^ 31) \<le> i \<Longrightarrow> i < 2 ^ 31 \<Longrightarrow> int32 i = i"
  by (simp add: int32_def signed_of_int signed_take_bit_int_eq_self)

end
