(* ===== verification/Data_Handler_Config.thy ===== *)
theory Data_Handler_Config
  imports Data_Handler Json
begin

text \<open>
  \<^verbatim>\<open>DataHandler::Configure\<close> and \<^verbatim>\<open>DataHandler::GetMetrics\<close> of \<^verbatim>\<open>src/data/data_handler.cpp\<close>: the settings of a run
  with the clamp that keeps a DMA block within the queue element, and the metrics with the error word.
\<close>

section \<open>Parameters of the monitoring library\<close>

text \<open>The bit numbers of the error word, in the order of the flags in \<^verbatim>\<open>GetMetrics\<close>, and two error numbers.\<close>

record dh_params =
  error_bits :: "nat list"
  datahandler_get_config :: u32
  acquire_pcie_dma_buff :: u32

section \<open>Configure\<close>

text \<open>The \<^verbatim>\<open>try\<close> block assigns members as it reads; the first failure keeps what was assigned.  Three stages
  follow the text of the method.\<close>

definition cfg_run :: "json \<Rightarrow> dh \<Rightarrow> bool \<times> dh" where
  "cfg_run c d =
     (case cfg_size ''data_handler'' ''dma_buffer_size_kb'' c of None \<Rightarrow> (False, d) | Some kb \<Rightarrow>
      let d = d\<lparr>DMABUFFSIZE := kb\<rparr> in
      case cfg_int ''crate'' ''trig_slot'' c of None \<Rightarrow> (False, d) | Some slot \<Rightarrow>
      let d = d\<lparr>trigger_module := slot\<rparr> in
      case cfg_int ''trigger'' ''software_trigger_rate_hz'' c of None \<Rightarrow> (False, d) | Some rate \<Rightarrow>
      let d = d\<lparr>software_trigger_rate := rate\<rparr> in
      case cfg_size ''data_handler'' ''num_events'' c of None \<Rightarrow> (False, d) | Some n \<Rightarrow>
      let d = d\<lparr>num_events := n\<rparr> in
      case cfg_size ''data_handler'' ''subrun'' c of None \<Rightarrow> (False, d) | Some run \<Rightarrow>
      (True, d\<lparr>run_number := run\<rparr>))"

definition cfg_source :: "json \<Rightarrow> dh \<Rightarrow> bool \<times> dh" where
  "cfg_source c d =
     (case cfg_string ''trigger'' ''trigger_source'' c of None \<Rightarrow> (False, d) | Some trig_src \<Rightarrow>
      let d = d\<lparr>software_trig := if trig_src = ''software'' then 1 else 0\<rparr>;
          external_trig = (if trig_src = ''external'' then 1 else 0 :: int);
          light_trig = (if trig_src = ''light'' then 1 else 0 :: int);
          d = d\<lparr>ext_trig := if external_trig \<noteq> 0 \<or> light_trig \<noteq> 0 then 1 else 0\<rparr> in
      case cfg_string ''data_handler'' ''data_basedir'' c of None \<Rightarrow> (False, d) | Some basedir \<Rightarrow>
      let d = d\<lparr>data_basedir := basedir\<rparr>;
          d = d\<lparr>file_count := 0\<rparr> in
      (True, d\<lparr>write_file_name := readout_prefix (data_basedir d) (run_number d)\<rparr>))"

definition abort_wait :: "json \<Rightarrow> rat option" where
  "abort_wait c = do { h \<leftarrow> field ''data_handler'' c;
     if contains_key ''dma_abort_wait_time'' h then cfg_double ''data_handler'' ''dma_abort_wait_time'' c else Some 2 }"

definition cfg_limits :: "json \<Rightarrow> dh \<Rightarrow> bool \<times> dh" where
  "cfg_limits c d =
     (case cfg_int ''data_handler'' ''pps_sample_period'' c of None \<Rightarrow> (False, d) | Some period \<Rightarrow>
      let d = d\<lparr>pps_sample_period := period\<rparr> in
      case cfg_size ''data_handler'' ''read_core_id'' c of None \<Rightarrow> (False, d) | Some rc \<Rightarrow>
      let d = d\<lparr>read_core_id := rc\<rparr> in
      case cfg_size ''data_handler'' ''write_core_id'' c of None \<Rightarrow> (False, d) | Some wc \<Rightarrow>
      let d = d\<lparr>write_core_id := wc\<rparr> in
      case cfg_size ''readout_windows'' ''drift_size'' c of None \<Rightarrow> (False, d) | Some drift \<Rightarrow>
      let d = d\<lparr>drift_size := drift\<rparr> in
      case abort_wait c of None \<Rightarrow> (False, d) | Some s \<Rightarrow>
      (True, d\<lparr>dma_abort_wait_ms := nat (trunc (s * 1000))\<rparr>))"

definition clamp_dma :: "dh \<Rightarrow> dh" where
  "clamp_dma d = (let d = (if DMABUFFSIZE d > 600 then d\<lparr>DMABUFFSIZE := 600\<rparr> else d) in d\<lparr>DMABUFFSIZE := DMABUFFSIZE d * 1000\<rparr>)"

definition DataHandler_Configure :: "dh_params \<Rightarrow> io_env \<Rightarrow> json \<Rightarrow> dh \<Rightarrow> u32 \<times> dh" where
  "DataHandler_Configure P env c d = (case cfg_run c d of
     (False, d) \<Rightarrow> (datahandler_get_config P, d)
   | (True, d) \<Rightarrow> (case cfg_source c d of
       (False, d) \<Rightarrow> (datahandler_get_config P, d)
     | (True, d) \<Rightarrow> (case cfg_limits c d of
         (False, d) \<Rightarrow> (datahandler_get_config P, d)
       | (True, d) \<Rightarrow> (0, clamp_dma (AppendStorageSegmentLog env ''run_start'' (InitNvmePathsFromEnv env d))))))"

section \<open>GetMetrics\<close>

definition error_flags :: "dh \<Rightarrow> bool list" where
  "error_flags d = [dma_timeout d, free_dma_buffer_error d, switch_file_close_error d, switch_file_open_error d,
     send_pulse_train_error d, failed_write d, failed_locking_dma_buffers d, trigger_file_open_error d,
     pps_file_open_error d, disk_full d, disk_failover d]"

text \<open>\<^verbatim>\<open>flag << bit\<close> is computed on a signed 32-bit integer and then widened to \<^verbatim>\<open>size_t\<close>.\<close>

definition shift_flag :: "bool \<Rightarrow> nat \<Rightarrow> u64" where
  "shift_flag b k = scast (push_bit k (of_bool b) :: u32)"

definition error_bitword :: "dh_params \<Rightarrow> dh \<Rightarrow> u64" where
  "error_bitword P d = fold (\<lambda>(b, k) w. w OR shift_flag b k) (zip (error_flags d) (error_bits P)) 0"

definition GetMetrics :: "dh_params \<Rightarrow> dh \<Rightarrow> (string \<times> nat) list \<times> dh" where
  "GetMetrics P d =
     ([(''run_number'', run_number d), (''num_events'', event_count d), (''num_files'', file_count d),
       (''num_dma_loops'', dma_loop_count d), (''mega_bytes_received'', num_recv_mB d),
       (''event_size_words'', num_event_chunk_words d), (''num_rw_buffer_overflow'', unat (num_rw_buffer_overflow d)),
       (''event_start_markers'', event_start_markers d), (''event_end_markers'', event_end_markers d),
       (''pps_count'', pps_count d), (''datahandler_error_bitword'', unat (error_bitword P d))],
      d\<lparr>prev_event_count := event_count d, prev_dma_loop_count := dma_loop_count d\<rparr>)"

section \<open>Properties\<close>

lemma AppendStorageSegmentLog_fields [simp]:
  "DMABUFFSIZE (AppendStorageSegmentLog env r d) = DMABUFFSIZE d" "write_file_name (AppendStorageSegmentLog env r d) = write_file_name d"
  "data_basedir (AppendStorageSegmentLog env r d) = data_basedir d" "run_number (AppendStorageSegmentLog env r d) = run_number d"
  "file_count (AppendStorageSegmentLog env r d) = file_count d" "ext_trig (AppendStorageSegmentLog env r d) = ext_trig d"
  "software_trig (AppendStorageSegmentLog env r d) = software_trig d"
  by (simp_all add: AppendStorageSegmentLog_def Let_def log_io_def tick_def)


lemma bit_shift_flag:
  assumes "k < 31"
  shows "bit (shift_flag b k) n \<longleftrightarrow> b \<and> n = k"
proof -
  have "\<not> bit (push_bit k (of_bool b) :: u32) 31" using assms by (auto simp: bit_push_bit_iff bit_1_iff)
  then show ?thesis using assms
    by (auto simp: shift_flag_def bit_simps split: if_splits)
qed

lemma fold_or_bits:
  "bit (fold (\<lambda>(b, k) w. w OR shift_flag b k) xs w0) n \<longleftrightarrow> bit w0 n \<or> (\<exists>(b, k) \<in> set xs. bit (shift_flag b k) n)"
  by (induction xs arbitrary: w0) (auto simp: bit_or_iff)

text \<open>With distinct bit numbers below 31 the error word holds every error flag in its own bit and nothing else,
  so the ground side can recover each flag.\<close>
theorem GetMetrics_error_bits:
  assumes "length (error_bits P) = length (error_flags d)" and "distinct (error_bits P)" and "\<forall>k \<in> set (error_bits P). k < 31"
  shows "(\<forall>i < length (error_flags d). bit (error_bitword P d) (error_bits P ! i) \<longleftrightarrow> error_flags d ! i)
    \<and> (\<forall>n. n \<notin> set (error_bits P) \<longrightarrow> \<not> bit (error_bitword P d) n)
    \<and> map_of (fst (GetMetrics P d)) ''datahandler_error_bitword'' = Some (unat (error_bitword P d))"
proof -
  let ?xs = "zip (error_flags d) (error_bits P)"
  have bits: "bit (error_bitword P d) n \<longleftrightarrow> (\<exists>i < length (error_flags d). error_flags d ! i \<and> n = error_bits P ! i)" for n
  proof -
    have "bit (error_bitword P d) n \<longleftrightarrow> (\<exists>(b, k) \<in> set ?xs. bit (shift_flag b k) n)"
      using fold_or_bits [of ?xs 0 n] by (simp add: error_bitword_def)
    also have "\<dots> \<longleftrightarrow> (\<exists>(b, k) \<in> set ?xs. b \<and> n = k)"
    proof (intro bex_cong refl)
      fix x assume "x \<in> set ?xs"
      then have "snd x < 31" using assms(3) by (metis prod.collapse set_zip_rightD)
      then show "(case x of (b, k) \<Rightarrow> bit (shift_flag b k) n) = (case x of (b, k) \<Rightarrow> b \<and> n = k)"
        by (cases x) (simp add: bit_shift_flag)
    qed
    also have "\<dots> \<longleftrightarrow> (\<exists>i < length (error_flags d). error_flags d ! i \<and> n = error_bits P ! i)"
      using assms(1) by (force simp: set_zip)
    finally show ?thesis .
  qed
  have "error_bits P ! i = error_bits P ! j \<longleftrightarrow> i = j" if "i < length (error_flags d)" "j < length (error_flags d)" for i j
    using that assms(1,2) by (simp add: nth_eq_iff_index_eq)
  then have "bit (error_bitword P d) (error_bits P ! i) \<longleftrightarrow> error_flags d ! i" if "i < length (error_flags d)" for i
    using bits that by blast
  moreover have "\<not> bit (error_bitword P d) n" if "n \<notin> set (error_bits P)" for n
    using that bits assms(1) by auto
  ultimately show ?thesis by (simp add: GetMetrics_def)
qed

definition dh_json :: json where
  "dh_json = JObject [(''crate'', JObject [(''trig_slot'', JInt 10)]),
     (''trigger'', JObject [(''software_trigger_rate_hz'', JInt 10), (''trigger_source'', JString ''light'')]),
     (''readout_windows'', JObject [(''drift_size'', JInt 255)]),
     (''data_handler'', JObject [(''dma_buffer_size_kb'', JInt 900), (''num_events'', JInt 5), (''subrun'', JInt 7),
        (''data_basedir'', JString ''/nvme0''), (''pps_sample_period'', JInt 1), (''read_core_id'', JInt 2),
        (''write_core_id'', JInt 3)])]"

definition quiet_env :: io_env where
  "quiet_env = \<lparr>env_os = (\<lambda>_. default_os), env_exists = (\<lambda>_ _. True), env_open = (\<lambda>_ _. Inr 3),
     env_append = (\<lambda>_ _. True), env_write = (\<lambda>_ _ ws. Inr (4 * length ws)), env_close = (\<lambda>_ _. True),
     env_time = (\<lambda>_. [])\<rparr>"

definition sample_dh_params :: dh_params where
  "sample_dh_params = \<lparr>error_bits = [0..<11], datahandler_get_config = 5, acquire_pcie_dma_buff = 6\<rparr>"

lemma dh_json_accepted: "fst (DataHandler_Configure sample_dh_params quiet_env dh_json sample_dh) = 0"
  by (simp add: DataHandler_Configure_def cfg_run_def cfg_source_def cfg_limits_def abort_wait_def dh_json_def cfg_defs Let_def)


theorem GetMetrics_error_bits_witness:
  "bit (error_bitword sample_dh_params (sample_dh\<lparr>disk_full := True\<rparr>)) 9"
  using GetMetrics_error_bits [of sample_dh_params "sample_dh\<lparr>disk_full := True\<rparr>"]
  by (simp add: sample_dh_params_def error_flags_def)

end
