(* ===== verification/Pcie_Interface.thy ===== *)
theory Pcie_Interface
  imports Prelude
begin

text \<open>
  The register level interface of \<^verbatim>\<open>lib/pcie_driver/pcie_interface.cpp\<close>.  The WinDriver library is a
  parameter (\<^verbatim>\<open>driver\<close>): what an open, a buffer lock, a register read or an unlock answers at a given time.
  Every access is recorded in \<^verbatim>\<open>bus_log\<close>; the handle mutex makes each operation of the class one atomic
  step.
\<close>

section \<open>Constants\<close>

definition t1_tr_bar :: u32 where "t1_tr_bar = 0"
definition t2_tr_bar :: u32 where "t2_tr_bar = 4"
definition cs_bar :: u32 where "cs_bar = 2"
definition t1_cs_reg :: u32 where "t1_cs_reg = 0x18"
definition r1_cs_reg :: u32 where "r1_cs_reg = 0x1c"
definition t2_cs_reg :: u32 where "t2_cs_reg = 0x20"
definition r2_cs_reg :: u32 where "r2_cs_reg = 0x24"
definition tx_md_reg :: u32 where "tx_md_reg = 0x28"
definition cs_dma_add_low_reg :: u32 where "cs_dma_add_low_reg = 0"
definition cs_dma_add_high_reg :: u32 where "cs_dma_add_high_reg = 4"
definition cs_dma_by_cnt :: u32 where "cs_dma_by_cnt = 8"
definition cs_dma_cntrl :: u32 where "cs_dma_cntrl = 0xc"
definition cs_dma_msi_abort :: u32 where "cs_dma_msi_abort = 0x10"
definition cs_init :: u32 where "cs_init = 0x20000000"
definition cs_start :: u32 where "cs_start = 0x40000000"
definition dma_tr1 :: u32 where "dma_tr1 = 0x100000"
definition dma_tr12 :: u32 where "dma_tr12 = 0x300000"
definition dma_3dw_rec :: u32 where "dma_3dw_rec = 0x40"
definition dma_4dw_rec :: u32 where "dma_4dw_rec = 0x60"
definition dma_in_progress :: u32 where "dma_in_progress = 0x80000000"
definition dma_abort :: u32 where "dma_abort = 2"
definition kDev1 :: u32 where "kDev1 = 1"
definition kDev2 :: u32 where "kDev2 = 2"
definition CONFIGDMABUFFSIZE :: nat where "CONFIGDMABUFFSIZE = 100000"

section \<open>State\<close>

datatype buf_id = SendBuf | RecvBuf | Buf1 | Buf2 | TrigBuf

datatype bus_event =
    LibInit | LibUninit
  | DevOpen u32 int | DevClose nat
  | LockBuf buf_id nat | UnlockBuf buf_id
  | SyncCpu buf_id | SyncIo buf_id
  | Wr32 "nat option" u32 u32 u32
  | Wr64 "nat option" u32 u32 u64
  | Rd32 "nat option" u32 u32
  | Rd64 "nat option" u32 u32

text \<open>The driver: \<^verbatim>\<open>drv_lock\<close> answers the physical address of a locked buffer.\<close>

record driver =
  drv_init :: "nat \<Rightarrow> bool"
  drv_open :: "nat \<Rightarrow> u32 \<Rightarrow> int \<Rightarrow> nat option"
  drv_lock :: "nat \<Rightarrow> buf_id \<Rightarrow> nat \<Rightarrow> u64 option"
  drv_unlock :: "nat \<Rightarrow> buf_id \<Rightarrow> bool"
  drv_write :: "nat \<Rightarrow> bool"
  drv_sync :: "nat \<Rightarrow> bool"
  drv_read32 :: "nat \<Rightarrow> nat option \<Rightarrow> u32 \<Rightarrow> u32 \<Rightarrow> u32"
  drv_read64 :: "nat \<Rightarrow> nat option \<Rightarrow> u32 \<Rightarrow> u32 \<Rightarrow> u64"

record pcie =
  is_initialized :: bool
  dev_handle_1 :: "nat option"
  dev_handle_2 :: "nat option"
  buff_addr :: "buf_id \<Rightarrow> u64 option"
  buffer_send :: "u32 list"
  buffer_recv :: "u32 list"
  bus_clock :: nat
  bus_log :: "bus_event list"

definition bus :: "bus_event \<Rightarrow> pcie \<Rightarrow> pcie" where
  "bus e p = p\<lparr>bus_clock := Suc (bus_clock p), bus_log := bus_log p @ [e]\<rparr>"

definition GetDeviceHandle :: "u32 \<Rightarrow> pcie \<Rightarrow> nat option" where
  "GetDeviceHandle dev p = (if dev = 1 then dev_handle_1 p else if dev = 2 then dev_handle_2 p else None)"

section \<open>Initialization\<close>

definition close_handle :: "nat option \<Rightarrow> pcie \<Rightarrow> pcie" where
  "close_handle h p = (case h of None \<Rightarrow> p | Some n \<Rightarrow> bus (DevClose n) p)"

definition lock_config_buffers :: "driver \<Rightarrow> pcie \<Rightarrow> u32 \<times> pcie" where
  "lock_config_buffers drv p =
     (let a = drv_lock drv (bus_clock p) SendBuf CONFIGDMABUFFSIZE; p = bus (LockBuf SendBuf CONFIGDMABUFFSIZE) p in
      case a of None \<Rightarrow> (6, p) | Some addr \<Rightarrow>
      let p = p\<lparr>buff_addr := (buff_addr p)(SendBuf := Some addr)\<rparr>;
          a = drv_lock drv (bus_clock p) RecvBuf CONFIGDMABUFFSIZE; p = bus (LockBuf RecvBuf CONFIGDMABUFFSIZE) p in
      case a of None \<Rightarrow> (6, p) | Some addr \<Rightarrow>
      let p = p\<lparr>buff_addr := (buff_addr p)(RecvBuf := Some addr),
                buffer_send := replicate (CONFIGDMABUFFSIZE div 4) 0,
                buffer_recv := replicate (CONFIGDMABUFFSIZE div 4) 0\<rparr>
      in (0, p\<lparr>is_initialized := True\<rparr>))"

definition InitPCIeDevices :: "driver \<Rightarrow> u32 \<Rightarrow> u32 \<Rightarrow> int \<Rightarrow> int \<Rightarrow> pcie \<Rightarrow> u32 \<times> pcie" where
  "InitPCIeDevices drv dev1 dev2 slot_id_0 slot_id_1 p =
     (if is_initialized p then (1, p)
      else let ok = drv_init drv (bus_clock p); p = bus LibInit p in
      if \<not> ok then (4, p)
      else let h1 = drv_open drv (bus_clock p) dev1 slot_id_0; p = bus (DevOpen dev1 slot_id_0) p;
               h2 = drv_open drv (bus_clock p) dev2 slot_id_1; p = bus (DevOpen dev2 slot_id_1) p;
               p = p\<lparr>dev_handle_1 := h1, dev_handle_2 := h2\<rparr> in
      if h1 = None \<or> h2 = None
      then let p = (close_handle h1 p)\<lparr>dev_handle_1 := None\<rparr>; p = (close_handle h2 p)\<lparr>dev_handle_2 := None\<rparr>
           in (5, bus LibUninit p)
      else lock_config_buffers drv p)"

section \<open>Registers\<close>

definition ReadReg32 :: "driver \<Rightarrow> u32 \<Rightarrow> u32 \<Rightarrow> u32 \<Rightarrow> pcie \<Rightarrow> u32 \<times> pcie" where
  "ReadReg32 drv dev bar off p = (let h = GetDeviceHandle dev p in
     (drv_read32 drv (bus_clock p) h bar off, bus (Rd32 h bar off) p))"

definition ReadReg64 :: "driver \<Rightarrow> u32 \<Rightarrow> u32 \<Rightarrow> u32 \<Rightarrow> pcie \<Rightarrow> u64 \<times> pcie" where
  "ReadReg64 drv dev bar off p = (let h = GetDeviceHandle dev p in
     (drv_read64 drv (bus_clock p) h bar off, bus (Rd64 h bar off) p))"

definition WriteReg32 :: "driver \<Rightarrow> u32 \<Rightarrow> u32 \<Rightarrow> u32 \<Rightarrow> u32 \<Rightarrow> pcie \<Rightarrow> bool \<times> pcie" where
  "WriteReg32 drv dev bar off data p = (let h = GetDeviceHandle dev p in
     (drv_write drv (bus_clock p), bus (Wr32 h bar off data) p))"

definition WriteReg64 :: "driver \<Rightarrow> u32 \<Rightarrow> u32 \<Rightarrow> u32 \<Rightarrow> u64 \<Rightarrow> pcie \<Rightarrow> bool \<times> pcie" where
  "WriteReg64 drv dev bar off data p = (let h = GetDeviceHandle dev p in
     (drv_write drv (bus_clock p), bus (Wr64 h bar off data) p))"

definition PCIeDeviceConfigure :: "driver \<Rightarrow> pcie \<Rightarrow> bool \<times> pcie" where
  "PCIeDeviceConfigure drv p =
     fold (\<lambda>(off, v) (ok, p). (ok \<and> drv_write drv (bus_clock p), bus (Wr32 (dev_handle_2 p) 2 off v) p))
       [(t1_cs_reg, cs_init), (t2_cs_reg, cs_init), (r1_cs_reg, cs_init), (r2_cs_reg, cs_init), (tx_md_reg, 0xfff)]
       (True, p)"

section \<open>Sending and receiving\<close>

text \<open>The poll of the DMA status, at most \<^verbatim>\<open>fuel\<close> reads; the result is the loop counter.\<close>

fun poll_dma :: "driver \<Rightarrow> nat option \<Rightarrow> nat \<Rightarrow> u32 \<Rightarrow> pcie \<Rightarrow> u32 \<times> pcie" where
  "poll_dma drv h 0 i p = (i, p)"
| "poll_dma drv h (Suc n) i p =
     (let v = drv_read32 drv (bus_clock p) h 2 cs_dma_cntrl; p = bus (Rd32 h 2 cs_dma_cntrl) p in
      if v AND dma_in_progress = 0 then (i, p) else poll_dma drv h n (i + 1) p)"

definition lower32 :: "u64 option \<Rightarrow> u32" where
  "lower32 a = (case a of None \<Rightarrow> 0 | Some x \<Rightarrow> ucast (x AND 0xffffffff))"
definition upper32 :: "u64 option \<Rightarrow> u32" where
  "upper32 a = (case a of None \<Rightarrow> 0 | Some x \<Rightarrow> ucast ((drop_bit 32 x) AND 0xffffffff))"

definition PCIeSendBuffer :: "driver \<Rightarrow> u32 \<Rightarrow> u32 \<Rightarrow> u32 \<Rightarrow> u32 list \<Rightarrow> pcie \<Rightarrow> u32 \<times> pcie" where
  "PCIeSendBuffer drv dev mode nword buff_send p =
     (let h = GetDeviceHandle dev p; ws = take (unat nword) buff_send; nwrite = nword * 4 in
      if mode = 0
      then let p = bus (Wr32 h 2 t1_cs_reg cs_init) p;
               p = bus (Wr32 h 2 t1_cs_reg (cs_start + nwrite)) p;
               p = fold (\<lambda>w. bus (Wr32 h 0 cs_dma_add_low_reg w)) ws p
           in poll_dma drv h 20000 0 p
      else if mode = 1
      then let p = p\<lparr>buffer_send := ws @ drop (unat nword) (buffer_send p)\<rparr>;
               p = bus (SyncCpu SendBuf) p;
               p = bus (Wr32 h 2 t1_cs_reg cs_init) p;
               p = bus (Wr32 h 2 t1_cs_reg (cs_start + nwrite)) p;
               p = bus (Wr32 h 2 cs_dma_add_low_reg (lower32 (buff_addr p SendBuf))) p;
               p = bus (Wr32 h 2 cs_dma_add_high_reg (upper32 (buff_addr p SendBuf))) p;
               p = bus (Wr32 h 2 cs_dma_by_cnt nwrite) p;
               p = bus (Wr32 h 2 cs_dma_cntrl dma_tr1) p;
               (i, p) = poll_dma drv h 20000 0 p
           in (i, bus (SyncIo SendBuf) p)
      else (0, p))"

fun recv_words :: "driver \<Rightarrow> nat option \<Rightarrow> nat list \<Rightarrow> u32 list \<Rightarrow> pcie \<Rightarrow> u32 list \<times> pcie" where
  "recv_words drv h [] buff p = (buff, p)"
| "recv_words drv h (j # js) buff p =
     (let v = drv_read64 drv (bus_clock p) h 0 cs_dma_add_low_reg; p = bus (Rd64 h 0 cs_dma_add_low_reg) p
      in recv_words drv h js (buff[j := ucast (v AND 0xffffffff), Suc j := ucast (drop_bit 32 v)]) p)"

definition print_status :: "u32 \<Rightarrow> nat option \<Rightarrow> pcie \<Rightarrow> pcie" where
  "print_status ipr_status h p = (if ipr_status = 1 then bus (Rd64 h 2 t1_cs_reg) p else p)"

definition PCIeRecvBuffer ::
  "driver \<Rightarrow> u32 \<Rightarrow> u32 \<Rightarrow> u32 \<Rightarrow> u32 \<Rightarrow> u32 \<Rightarrow> u32 list \<Rightarrow> pcie \<Rightarrow> u32 \<times> u32 list \<times> pcie" where
  "PCIeRecvBuffer drv dev mode istart nword ipr_status buff_rec p = (let h = GetDeviceHandle dev p in
     if istart = 1 \<or> istart = 3
     then let p = bus (Wr32 h 2 tx_md_reg 0xf0000008) p;
              p = bus (Wr32 h 2 r1_cs_reg cs_init) p;
              p = bus (Wr32 h 2 r1_cs_reg (cs_start + nword * 4)) p
          in (0, buff_rec, print_status ipr_status h p)
     else if istart = 2 \<and> mode = 0
     then let nread = (if nword mod 2 = 0 then nword div 2 else nword div 2 + 1);
              (buff, p) = recv_words drv h [0..<unat nread] buff_rec p
          in (0, buff, print_status ipr_status h p)
     else if istart = 2 \<and> mode = 1
     then let p = bus (SyncCpu RecvBuf) p;
              p = bus (Wr32 h 2 cs_dma_add_low_reg (lower32 (buff_addr p RecvBuf))) p;
              p = bus (Wr32 h 2 cs_dma_add_high_reg (upper32 (buff_addr p RecvBuf))) p;
              p = bus (Wr32 h 2 cs_dma_by_cnt (nword * 4)) p;
              p = bus (Wr32 h 2 cs_dma_cntrl (dma_tr1 + dma_3dw_rec)) p;
              (i, p) = poll_dma drv h 20000 0 p
          in if i = 20000 then (1, buff_rec, p)
             else (0, take (unat nword) (buffer_recv p) @ drop (unat nword) buff_rec, bus (SyncIo RecvBuf) p)
     else (0, buff_rec, p))"

section \<open>DMA buffers\<close>

definition DmaContigBufferLock :: "driver \<Rightarrow> u32 \<Rightarrow> nat \<Rightarrow> bool \<Rightarrow> pcie \<Rightarrow> bool \<times> pcie" where
  "DmaContigBufferLock drv handle size_bytes operator_continues p =
     (if handle \<noteq> 1 \<and> handle \<noteq> 2 \<and> handle \<noteq> 3 then (False, p)
      else let b = (if handle = 1 then Buf1 else if handle = 2 then Buf2 else TrigBuf);
               a = drv_lock drv (bus_clock p) b size_bytes; p = bus (LockBuf b size_bytes) p in
      case a of Some addr \<Rightarrow> (True, p\<lparr>buff_addr := (buff_addr p)(b := Some addr)\<rparr>)
      | None \<Rightarrow> (operator_continues, p))"

definition free_buffer :: "driver \<Rightarrow> buf_id \<Rightarrow> bool \<times> pcie \<Rightarrow> bool \<times> pcie" where
  "free_buffer drv b s = (case s of (ok, p) \<Rightarrow>
     if buff_addr p b \<noteq> None
     then let unlocked = drv_unlock drv (bus_clock p) b; p = bus (UnlockBuf b) p
          in (ok \<and> unlocked, p\<lparr>buff_addr := (buff_addr p)(b := None)\<rparr>)
     else (ok, p))"

definition FreeDmaContigBuffers :: "driver \<Rightarrow> pcie \<Rightarrow> bool \<times> pcie" where
  "FreeDmaContigBuffers drv p = fold (free_buffer drv) [Buf1, Buf2, TrigBuf] (True, p)"

definition buf_of_handle :: "u32 \<Rightarrow> buf_id option" where
  "buf_of_handle n = (if n = 1 then Some Buf1 else if n = 2 then Some Buf2 else if n = 3 then Some TrigBuf else None)"

definition GetBufferPageAddrUpper :: "u32 \<Rightarrow> pcie \<Rightarrow> u32" where
  "GetBufferPageAddrUpper n p = (case buf_of_handle n of None \<Rightarrow> 0 | Some b \<Rightarrow> upper32 (buff_addr p b))"

definition GetBufferPageAddrLower :: "u32 \<Rightarrow> pcie \<Rightarrow> u32" where
  "GetBufferPageAddrLower n p = (case buf_of_handle n of None \<Rightarrow> 0 | Some b \<Rightarrow> lower32 (buff_addr p b))"

definition DmaSyncCpu :: "driver \<Rightarrow> u32 \<Rightarrow> pcie \<Rightarrow> bool \<times> pcie" where
  "DmaSyncCpu drv n p = (case buf_of_handle n of None \<Rightarrow> (False, p)
     | Some b \<Rightarrow> (drv_sync drv (bus_clock p), bus (SyncCpu b) p))"

definition DmaSyncIo :: "driver \<Rightarrow> u32 \<Rightarrow> pcie \<Rightarrow> bool \<times> pcie" where
  "DmaSyncIo drv n p = (case buf_of_handle n of None \<Rightarrow> (False, p)
     | Some b \<Rightarrow> (drv_sync drv (bus_clock p), bus (SyncIo b) p))"


section \<open>Initialization outcomes\<close>

lemma bus_fields [simp]:
  "is_initialized (bus e p) = is_initialized p" "dev_handle_1 (bus e p) = dev_handle_1 p"
  "dev_handle_2 (bus e p) = dev_handle_2 p" "buff_addr (bus e p) = buff_addr p"
  "buffer_send (bus e p) = buffer_send p" "buffer_recv (bus e p) = buffer_recv p"
  "bus_clock (bus e p) = Suc (bus_clock p)" "bus_log (bus e p) = bus_log p @ [e]"
  by (simp_all add: bus_def)

lemma close_handle_fields [simp]:
  "is_initialized (close_handle h p) = is_initialized p" "dev_handle_1 (close_handle h p) = dev_handle_1 p"
  "dev_handle_2 (close_handle h p) = dev_handle_2 p"
  "bus_log (close_handle h p) = bus_log p @ (case h of None \<Rightarrow> [] | Some n \<Rightarrow> [DevClose n])"
  by (simp_all add: close_handle_def split: option.splits)

lemma lock_config_outcome:
  assumes "lock_config_buffers drv p = (code, p')" and "\<not> is_initialized p"
  shows "code = 0 \<and> is_initialized p' \<and> buff_addr p' SendBuf \<noteq> None \<and> buff_addr p' RecvBuf \<noteq> None
      \<or> code = 6 \<and> \<not> is_initialized p'"
    and "dev_handle_1 p' = dev_handle_1 p" and "dev_handle_2 p' = dev_handle_2 p"
  using assms by (auto simp: lock_config_buffers_def Let_def split: option.splits)

text \<open>The outcomes of opening the two PCIe cards: 0 leaves an initialized interface with both handles and
  both configuration buffers; 4 and 5 leave no open handle (what was opened is closed and the library is
  released); 6, a failed buffer lock, leaves both handles open; an interface that is already initialized
  answers 1 and is untouched.\<close>
theorem InitPCIeDevices_outcomes:
  assumes "dev_handle_1 p = None" and "dev_handle_2 p = None"
  shows "case InitPCIeDevices drv dev1 dev2 s0 s1 p of (code, p') \<Rightarrow>
    if is_initialized p then code = 1 \<and> p' = p
    else if code = 0 then is_initialized p' \<and> dev_handle_1 p' \<noteq> None \<and> dev_handle_2 p' \<noteq> None
      \<and> buff_addr p' SendBuf \<noteq> None \<and> buff_addr p' RecvBuf \<noteq> None
    else \<not> is_initialized p' \<and> (code = 4 \<or> code = 5 \<or> code = 6)
      \<and> (code = 6 \<longleftrightarrow> dev_handle_1 p' \<noteq> None \<or> dev_handle_2 p' \<noteq> None)
      \<and> (code = 5 \<longrightarrow> last (bus_log p') = LibUninit)"
proof (cases "is_initialized p")
  case False
  define q where "q = bus LibInit p"
  define h1 where "h1 = drv_open drv (bus_clock q) dev1 s0"
  define r where "r = bus (DevOpen dev1 s0) q"
  define h2 where "h2 = drv_open drv (bus_clock r) dev2 s1"
  define t where "t = (bus (DevOpen dev2 s1) r)\<lparr>dev_handle_1 := h1, dev_handle_2 := h2\<rparr>"
  have t: "\<not> is_initialized t" "dev_handle_1 t = h1" "dev_handle_2 t = h2"
    using False by (simp_all add: t_def r_def q_def)
  obtain code p' where lock: "lock_config_buffers drv t = (code, p')" by fastforce
  have "InitPCIeDevices drv dev1 dev2 s0 s1 p =
      (if \<not> drv_init drv (bus_clock p) then (4, q)
       else if h1 = None \<or> h2 = None
       then (5, bus LibUninit ((close_handle h2 ((close_handle h1 t)\<lparr>dev_handle_1 := None\<rparr>))\<lparr>dev_handle_2 := None\<rparr>))
       else (code, p'))"
    using False lock by (simp add: InitPCIeDevices_def Let_def q_def h1_def r_def h2_def t_def)
  then show ?thesis
    using False t assms lock_config_outcome [OF lock t(1)] by (auto simp: q_def)
qed (simp add: InitPCIeDevices_def)

section \<open>Transfers\<close>

lemma poll_dma_bound:
  assumes "poll_dma drv h n i p = (i', p')" and "unat i + n < 2 ^ 32"
  shows "unat i \<le> unat i' \<and> unat i' \<le> unat i + n \<and> bus_clock p' \<le> bus_clock p + n"
  using assms
proof (induction n arbitrary: i p)
  case (Suc n)
  have "unat (i + 1) = Suc (unat i)"
    using Suc.prems(2) by (simp add: unat_word_ariths)
  then show ?case
    using Suc.IH [of "i + 1" "bus (Rd32 h 2 cs_dma_cntrl) p"] Suc.prems
    by (auto simp: Let_def split: if_splits)
qed simp

lemma recv_words_spec:
  assumes "k + n < length buff"
  shows "fst (recv_words drv h [k..<k + n] buff p) =
    take k buff
    @ (if n = 0 then drop k buff
       else map (\<lambda>j. ucast (drv_read64 drv (bus_clock p + j) h 0 cs_dma_add_low_reg AND 0xffffffff)) [0..<n]
         @ [ucast (drop_bit 32 (drv_read64 drv (bus_clock p + (n - 1)) h 0 cs_dma_add_low_reg))]
         @ drop (Suc (k + n)) buff)"
  using assms
proof (induction n arbitrary: k buff p)
  case (Suc n)
  let ?v = "drv_read64 drv (bus_clock p) h 0 cs_dma_add_low_reg"
  let ?lo = "ucast (?v AND 0xffffffff) :: u32" and ?hi = "ucast (drop_bit 32 ?v) :: u32"
  let ?b = "buff[k := ?lo, Suc k := ?hi]" and ?p = "bus (Rd64 h 0 cs_dma_add_low_reg) p"
  have tk: "take (Suc k) ?b = take k buff @ [?lo]"
    using Suc.prems by (simp add: take_Suc_conv_app_nth)
  have "[k..<k + Suc n] = k # [Suc k..<Suc k + n]" by (simp add: upt_conv_Cons del: upt_Suc)
  then have step: "fst (recv_words drv h [k..<k + Suc n] buff p) = fst (recv_words drv h [Suc k..<Suc k + n] ?b ?p)"
    by (simp add: Let_def del: upt_Suc)
  show ?case
  proof (cases n)
    case 0
    have "drop (Suc k) ?b = ?hi # drop (Suc (Suc k)) buff"
      using Suc.prems 0 by (simp add: drop_update_swap Cons_nth_drop_Suc [symmetric])
    then have "?b = take k buff @ ?lo # ?hi # drop (Suc (Suc k)) buff"
      using tk append_take_drop_id [of "Suc k" ?b] by simp
    moreover have "recv_words drv h [Suc k..<Suc k + n] ?b ?p = (?b, ?p)" using 0 by simp
    ultimately show ?thesis unfolding step using 0 by simp
  next
    case (Suc m)
    have "drop (Suc (Suc k + n)) ?b = drop (Suc (Suc k + n)) buff" using Suc by simp
    moreover have "Suc k + n < length ?b" using Suc.prems by simp
    ultimately show ?thesis
      unfolding step Suc.IH [OF \<open>Suc k + n < length ?b\<close>, of ?p] tk
      using Suc by (simp add: map_upt_Suc_conv del: upt_Suc)
  qed
qed simp


text \<open>A single-word receive of \<^verbatim>\<open>nword\<close> words performs half as many 64-bit reads and stores read \<^verbatim>\<open>j\<close> at
  the positions \<^verbatim>\<open>j\<close> and \<^verbatim>\<open>j + 1\<close>: for one or two words both halves arrive, and for more the upper half of
  every read but the last is overwritten by the next one.\<close>
theorem PCIeRecvBuffer_words:
  fixes drv dev nword p ipr_status
  assumes "0 < unat nword" and "unat nword < length buff"
  shows "let n = (unat nword + 1) div 2;
      rd = (\<lambda>j. drv_read64 drv (bus_clock p + j) (GetDeviceHandle dev p) 0 cs_dma_add_low_reg) in
    fst (snd (PCIeRecvBuffer drv dev 0 2 nword ipr_status buff p)) =
      map (\<lambda>j. ucast (rd j AND 0xffffffff)) [0..<n] @ [ucast (drop_bit 32 (rd (n - 1)))] @ drop (Suc n) buff"
proof -
  let ?n = "(unat nword + 1) div 2"
  let ?nread = "if nword mod 2 = 0 then nword div 2 else nword div 2 + 1"
  have "nword mod 2 = 0 \<longleftrightarrow> unat nword mod 2 = 0" by (simp add: word_unat_eq_iff unat_mod)
  moreover have "unat (nword div 2 + 1) = unat nword div 2 + 1"
  proof -
    have "unat nword < 2 ^ 32" using unsigned_less [of nword, where ?'a = nat] by simp
    then have "unat nword div 2 + 1 < 2 ^ 32" by simp
    then show ?thesis by (simp add: unat_word_ariths unat_div)
  qed
  ultimately have n: "unat ?nread = ?n" by (auto simp: unat_div) presburger+
  have "0 < ?n" "0 + ?n < length buff" using assms by linarith+
  then show ?thesis
    using recv_words_spec [of 0 ?n buff drv "GetDeviceHandle dev p" p] n
    by (auto simp: PCIeRecvBuffer_def Let_def split: prod.splits)
qed

definition test_driver :: driver where
  "test_driver = \<lparr>drv_init = (\<lambda>_. True), drv_open = (\<lambda>_ dev _. Some (unat dev)), drv_lock = (\<lambda>_ _ _. Some 0x123456789),
     drv_unlock = (\<lambda>_ _. True), drv_write = (\<lambda>_. True), drv_sync = (\<lambda>_. True), drv_read32 = (\<lambda>_ _ _ _. 0),
     drv_read64 = (\<lambda>t _ _ _. push_bit 32 (of_nat t + 100) + of_nat t)\<rparr>"

definition closed_pcie :: pcie where
  "closed_pcie = \<lparr>is_initialized = False, dev_handle_1 = None, dev_handle_2 = None, buff_addr = (\<lambda>_. None),
     buffer_send = [], buffer_recv = [], bus_clock = 0, bus_log = []\<rparr>"

theorem InitPCIeDevices_outcomes_witness:
  "is_initialized (snd (InitPCIeDevices test_driver 0x5000 0x5001 1 1 closed_pcie))"
proof -
  have "fst (InitPCIeDevices test_driver 0x5000 0x5001 1 1 closed_pcie) = 0"
    by (simp add: InitPCIeDevices_def lock_config_buffers_def Let_def test_driver_def closed_pcie_def)
  moreover have "\<not> is_initialized closed_pcie" "dev_handle_1 closed_pcie = None" "dev_handle_2 closed_pcie = None"
    by (simp_all add: closed_pcie_def)
  ultimately show ?thesis
    using InitPCIeDevices_outcomes [of closed_pcie test_driver "0x5000" "0x5001" 1 1] by (simp split: prod.splits)
qed

theorem PCIeRecvBuffer_words_witness:
  "fst (snd (PCIeRecvBuffer test_driver 1 0 2 5 1 [0, 0, 0, 0, 0, 0] closed_pcie)) = [0, 1, 2, 102, 0, 0]"
proof -
  have "[0..<3] = [0, 1, 2 :: nat]" by (simp add: upt_rec)
  then show ?thesis
    using PCIeRecvBuffer_words [of 5 "[0, 0, 0, 0, 0, 0]" test_driver closed_pcie 1 1]
    by (simp add: test_driver_def closed_pcie_def)
qed

lemma poll_dma_trace:
  "\<exists>k \<le> n. bus_log (snd (poll_dma drv h n i p)) = bus_log p @ replicate k (Rd32 h 2 cs_dma_cntrl)"
proof (induction n arbitrary: i p)
  case (Suc n)
  let ?e = "Rd32 h 2 cs_dma_cntrl" and ?p = "bus (Rd32 h 2 cs_dma_cntrl) p"
  obtain k where "k \<le> n" "bus_log (snd (poll_dma drv h n (i + 1) ?p)) = bus_log ?p @ replicate k ?e"
    using Suc.IH by blast
  then have "\<exists>k' \<le> Suc n. bus_log (snd (poll_dma drv h n (i + 1) ?p)) = bus_log p @ replicate k' ?e"
    by (intro exI [of _ "Suc k"]) simp
  moreover have "\<exists>k' \<le> Suc n. bus_log ?p = bus_log p @ replicate k' ?e" by (intro exI [of _ 1]) simp
  ultimately show ?case by (simp add: Let_def)
qed simp

lemma poll_dma_buffer: "buffer_send (snd (poll_dma drv h n i p)) = buffer_send p"
  by (induction n arbitrary: i p) (simp_all add: Let_def)

text \<open>A DMA send places the words at the start of the send buffer and programs the card in a fixed order:
  transmitter reset, transmitter start with the byte count, buffer address low and high, byte count, start;
  then it polls at most 20000 times.\<close>
theorem PCIeSendBuffer_dma:
  fixes p :: pcie
  assumes "unat nword \<le> length ws"
  shows "let h = GetDeviceHandle dev p; (i, p') = PCIeSendBuffer drv dev 1 nword ws p in
    take (unat nword) (buffer_send p') = take (unat nword) ws \<and> unat i \<le> 20000 \<and>
    (\<exists>k \<le> 20000. bus_log p' = bus_log p @
      [SyncCpu SendBuf, Wr32 h 2 t1_cs_reg cs_init, Wr32 h 2 t1_cs_reg (cs_start + nword * 4),
       Wr32 h 2 cs_dma_add_low_reg (lower32 (buff_addr p SendBuf)),
       Wr32 h 2 cs_dma_add_high_reg (upper32 (buff_addr p SendBuf)),
       Wr32 h 2 cs_dma_by_cnt (nword * 4), Wr32 h 2 cs_dma_cntrl dma_tr1]
      @ replicate k (Rd32 h 2 cs_dma_cntrl) @ [SyncIo SendBuf])"
proof -
  let ?h = "GetDeviceHandle dev p"
  define q where "q = fold bus [SyncCpu SendBuf, Wr32 ?h 2 t1_cs_reg cs_init, Wr32 ?h 2 t1_cs_reg (cs_start + nword * 4),
       Wr32 ?h 2 cs_dma_add_low_reg (lower32 (buff_addr p SendBuf)),
       Wr32 ?h 2 cs_dma_add_high_reg (upper32 (buff_addr p SendBuf)),
       Wr32 ?h 2 cs_dma_by_cnt (nword * 4), Wr32 ?h 2 cs_dma_cntrl dma_tr1]
     (p\<lparr>buffer_send := take (unat nword) ws @ drop (unat nword) (buffer_send p)\<rparr>)"
  obtain i r where poll: "poll_dma drv ?h 20000 0 q = (i, r)" by fastforce
  have send: "PCIeSendBuffer drv dev 1 nword ws p = (i, bus (SyncIo SendBuf) r)"
    using poll by (simp add: PCIeSendBuffer_def Let_def q_def)
  have "unat i \<le> 20000" using poll_dma_bound [OF poll] by simp
  moreover have "take (unat nword) (buffer_send r) = take (unat nword) ws"
    using poll_dma_buffer [of drv ?h 20000 0 q] poll assms by (simp add: q_def)
  moreover obtain k where "k \<le> 20000" "bus_log r = bus_log q @ replicate k (Rd32 ?h 2 cs_dma_cntrl)"
    using poll_dma_trace [of 20000 drv ?h 0 q] poll by auto
  ultimately show ?thesis unfolding send Let_def by (auto simp: q_def intro!: exI [of _ k])
qed

theorem PCIeSendBuffer_dma_witness:
  "take 2 (buffer_send (snd (PCIeSendBuffer test_driver 1 1 2 [7, 8, 9] closed_pcie))) = [7, 8]"
  using PCIeSendBuffer_dma [of 2 "[7, 8, 9]" 1 closed_pcie test_driver] by (simp add: Let_def split: prod.splits)

lemma free_buffer_frees:
  "buff_addr (snd (free_buffer drv b (ok, p))) b = None"
  "b' \<noteq> b \<Longrightarrow> buff_addr (snd (free_buffer drv b (ok, p))) b' = buff_addr p b'"
  by (simp_all add: free_buffer_def Let_def)

text \<open>After \<^verbatim>\<open>FreeDmaContigBuffers\<close> no acquisition buffer is held, whatever the driver answers, so a second
  call is a no-op that succeeds.\<close>

lemma FreeDmaContigBuffers_frees:
  assumes "b \<in> {Buf1, Buf2, TrigBuf}"
  shows "buff_addr (snd (FreeDmaContigBuffers drv p)) b = None"
  using assms by (auto simp: FreeDmaContigBuffers_def free_buffer_def Let_def split: prod.splits)

lemma FreeDmaContigBuffers_idempotent:
  "FreeDmaContigBuffers drv (snd (FreeDmaContigBuffers drv p)) = (True, snd (FreeDmaContigBuffers drv p))"
  using FreeDmaContigBuffers_frees [of _ drv p]
  by (simp add: FreeDmaContigBuffers_def [of _ "snd (FreeDmaContigBuffers drv p)"] free_buffer_def)

end
