(* ===== verification/Hardware_Device.thy ===== *)
theory Hardware_Device
  imports Pcie_Interface
begin

text \<open>
  What the hardware components share: the layout of a command word, the operations they issue on the
  PCIe interface (a trace, since none of them branches on what the hardware answers), and
  \<^verbatim>\<open>HardwareDevice::LoadFirmware\<close> of \<^verbatim>\<open>src/hardware/hardware_device.cpp\<close>.
\<close>

section \<open>Command words\<close>

text \<open>\<^verbatim>\<open>(module << 11) + (chip << 8) + command + (data << 16)\<close>, computed modulo 2 to the 32.\<close>

definition ConstructSendWord :: "u32 \<Rightarrow> u32 \<Rightarrow> u32 \<Rightarrow> u32 \<Rightarrow> u32" where
  "ConstructSendWord module chip command data = push_bit 11 module + push_bit 8 chip + command + data"

definition cmd_word :: "int \<Rightarrow> u32 \<Rightarrow> u32 \<Rightarrow> int \<Rightarrow> u32" where
  "cmd_word module chip command data =
     ConstructSendWord (word_of_int module) chip command (push_bit 16 (word_of_int data))"

definition word_module :: "u32 \<Rightarrow> nat" where "word_module w = unat (drop_bit 11 w AND 0x1F)"
definition word_chip :: "u32 \<Rightarrow> nat" where "word_chip w = unat (drop_bit 8 w AND 7)"
definition word_command :: "u32 \<Rightarrow> nat" where "word_command w = unat (w AND 0xFF)"
definition word_data :: "u32 \<Rightarrow> nat" where "word_data w = unat (drop_bit 16 w)"

section \<open>Operations\<close>

datatype hw_op =
    Send u32 u32 "u32 list"
  | Recv u32 u32 u32 u32 u32
  | WrReg u32 u32 u32 u32
  | Usleep nat

definition send1 :: "u32 \<Rightarrow> hw_op" where "send1 w = Send 1 1 [w]"
definition send2 :: "u32 \<Rightarrow> u32 \<Rightarrow> hw_op" where "send2 w0 w1 = Send 1 1 [w0, w1]"

text \<open>The command words of a trace: the first word of every send.\<close>

fun op_words :: "hw_op \<Rightarrow> u32 list" where
  "op_words (Send _ _ (w # _)) = [w]"
| "op_words _ = []"

definition trace_words :: "hw_op list \<Rightarrow> u32 list" where
  "trace_words ops = concat (map op_words ops)"

text \<open>Execution of a trace on the interface.\<close>

fun run_op :: "driver \<Rightarrow> hw_op \<Rightarrow> pcie \<Rightarrow> pcie" where
  "run_op drv (Send dev mode ws) p = snd (PCIeSendBuffer drv dev mode (of_nat (length ws)) ws p)"
| "run_op drv (Recv dev mode istart nword ipr) p = snd (snd (PCIeRecvBuffer drv dev mode istart nword ipr [] p))"
| "run_op drv (WrReg dev bar off v) p = snd (WriteReg32 drv dev bar off v p)"
| "run_op drv (Usleep _) p = p"

definition run_trace :: "driver \<Rightarrow> hw_op list \<Rightarrow> pcie \<Rightarrow> pcie" where
  "run_trace drv ops p = fold (run_op drv) ops p"

section \<open>Firmware download\<close>

definition SEND_SIZE :: nat where "SEND_SIZE = 40000"
definition nsend :: nat where "nsend = 500"

record buffers =
  buf_send :: "u32 list"
  carray :: "u8 list"

definition byte :: "u8 list \<Rightarrow> nat \<Rightarrow> u32" where "byte ca i = ucast (ca ! i)"

definition fw_first :: "int \<Rightarrow> u8 list \<Rightarrow> u32" where
  "fw_first module ca = push_bit 11 (word_of_int module) + push_bit 8 7 + push_bit 16 (byte ca 0)"

definition fw_block :: "int \<Rightarrow> u8 list \<Rightarrow> u32 list" where
  "fw_block module ca = fw_first module ca #
     map (\<lambda>ij. if ij = nsend - 1 then byte ca (2 * ij + 1) + push_bit 16 0
               else byte ca (2 * ij + 1) + push_bit 16 (byte ca (2 * ij + 2))) [0..<nsend]"

definition put_words :: "u32 list \<Rightarrow> u32 list \<Rightarrow> u32 list" where
  "put_words ws buf = ws @ drop (length ws) buf"

fun load_bytes :: "int \<Rightarrow> u8 list \<Rightarrow> nat \<Rightarrow> buffers \<Rightarrow> hw_op list \<Rightarrow> nat \<times> buffers \<times> hw_op list" where
  "load_bytes module [] count b ops = (count, b, ops)"
| "load_bytes module (c # cs) count b ops =
     (let b = b\<lparr>carray := (carray b)[count := c]\<rparr>; count = count + 1 in
      if count mod (nsend * 2) = 0
      then let ws = fw_block module (carray b) in
        load_bytes module cs 0 (b\<lparr>buf_send := put_words ws (buf_send b)\<rparr>) (ops @ [Send 1 1 ws])
      else load_bytes module cs count b ops)"

definition fw_tail :: "int \<Rightarrow> u32 \<Rightarrow> nat \<Rightarrow> buffers \<Rightarrow> u32 list" where
  "fw_tail module chip count b =
     (let ca = carray b; w0 = fw_first module ca in
      if count > 1
      then let ik = (if (count - 1) mod 2 = 0 then (count - 1) div 2 else (count - 1) div 2 + 1) + 2 in
        w0 # map (\<lambda>ij. if ij = ik - 1
              then byte ca (2 * ij + 1) + push_bit 16 (push_bit 11 (word_of_int module) + push_bit 8 chip)
              else byte ca (2 * ij + 1) + push_bit 16 (byte ca (2 * ij + 2))) [0..<ik]
      else [w0, buf_send b ! 1])"

definition LoadFirmware :: "int \<Rightarrow> u32 \<Rightarrow> u8 list \<Rightarrow> buffers \<Rightarrow> hw_op list \<times> buffers" where
  "LoadFirmware module chip bits b =
     (let (count, b, ops) = load_bytes module bits 0 b [];
          ws = fw_tail module chip count b
      in (Usleep 2000 # ops @ [Send 1 1 ws, Usleep 3000], b\<lparr>buf_send := put_words ws (buf_send b)\<rparr>))"

section \<open>Fields of a command word\<close>

lemma cmd_word_unat:
  assumes "0 \<le> m" "m < 32" "unat c < 8" "unat cmd < 256" "0 \<le> d" "d < 65536"
  shows "unat (cmd_word m c cmd d) = nat d * 65536 + nat m * 2048 + unat c * 256 + unat cmd"
proof -
  have um: "unat (word_of_int m :: u32) = nat m" and ud: "unat (word_of_int d :: u32) = nat d"
    using assms by (simp_all add: unat_word_of_int_small)
  have "unat (push_bit 11 (word_of_int m) :: u32) = nat m * 2048"
    using um assms by (simp add: push_bit_eq_mult unat_word_ariths)
  moreover have "unat (push_bit 8 c) = unat c * 256" using assms by (simp add: push_bit_eq_mult unat_word_ariths)
  moreover have "unat (push_bit 16 (word_of_int d) :: u32) = nat d * 65536"
    using ud assms by (simp add: push_bit_eq_mult unat_word_ariths)
  ultimately show ?thesis
    using assms by (simp add: cmd_word_def ConstructSendWord_def unat_word_ariths)
qed


lemma word_fields:
  "word_module w = unat w div 2048 mod 32" "word_chip w = unat w div 256 mod 8"
  "word_command w = unat w mod 256" "word_data w = unat w div 65536"
  using unat_and_mask [of "drop_bit 11 w" 5] unat_and_mask [of "drop_bit 8 w" 3] unat_and_mask [of w 8]
  by (simp_all add: word_module_def word_chip_def word_command_def word_data_def unat_drop_bit mask_eq_exp_minus_1)

lemma div_mod_pack:
  fixes a b c d :: nat
  assumes "b < 32" "c < 8" "d < 256"
  shows "(a * 65536 + b * 2048 + c * 256 + d) div 2048 mod 32 = b"
    and "(a * 65536 + b * 2048 + c * 256 + d) div 256 mod 8 = c"
    and "(a * 65536 + b * 2048 + c * 256 + d) mod 256 = d"
    and "(a * 65536 + b * 2048 + c * 256 + d) div 65536 = a"
proof -
  let ?n = "a * 65536 + b * 2048 + c * 256 + d"
  have "?n = 2048 * (a * 32 + b) + (c * 256 + d)" "c * 256 + d < 2048" using assms by simp_all
  then have "?n div 2048 = a * 32 + b" by (metis div_less div_mult_self4 add.right_neutral zero_neq_numeral)
  then show "?n div 2048 mod 32 = b" using assms by simp
  have eq: "?n = 256 * (a * 256 + b * 8 + c) + d" by simp
  have "(256 * q + d) div 256 = q" "(256 * q + d) mod 256 = d" for q using assms by simp_all
  then have d256: "?n div 256 = a * 256 + b * 8 + c" "?n mod 256 = d" unfolding eq by blast+
  have "(8 * q + c) mod 8 = c" for q using assms by simp
  moreover have "a * 256 + b * 8 + c = 8 * (a * 32 + b) + c" by simp
  ultimately have "(a * 256 + b * 8 + c) mod 8 = c" by metis
  then show "?n div 256 mod 8 = c" "?n mod 256 = d" using d256 by simp_all
  have "?n = 65536 * a + (b * 2048 + c * 256 + d)" "b * 2048 + c * 256 + d < 65536" using assms by simp_all
  then show "?n div 65536 = a" by (metis div_less div_mult_self4 add.right_neutral zero_neq_numeral)
qed

text \<open>A command word carries its slot, chip, command and data in separate fields.\<close>

lemma cmd_word_fields:
  assumes "0 \<le> m" "m < 32" "unat c < 8" "unat cmd < 256" "0 \<le> d" "d < 65536"
  shows "word_module (cmd_word m c cmd d) = nat m" "word_chip (cmd_word m c cmd d) = unat c"
    "word_command (cmd_word m c cmd d) = unat cmd" "word_data (cmd_word m c cmd d) = nat d"
  using cmd_word_unat [OF assms] div_mod_pack [of "nat m" "unat c" "unat cmd" "nat d"] assms
  by (simp_all add: word_fields)

text \<open>The shift by 16 keeps only the low 16 bits of the data, so no data disturbs the other fields.\<close>

lemma cmd_word_data_mod: "cmd_word m c cmd (d mod 65536) = cmd_word m c cmd d"
proof -
  have "push_bit 16 (word_of_int (d mod 65536)) = (push_bit 16 (word_of_int d) :: u32)"
    by (rule bit_word_eqI) (simp add: bit_push_bit_iff bit_word_of_int_iff
        flip: take_bit_eq_mod [of 16 d, simplified], auto simp: bit_take_bit_iff)
  then show ?thesis by (simp add: cmd_word_def)
qed

lemma cmd_word_decode:
  assumes "0 \<le> m" "m < 32" "unat c < 8" "unat cmd < 256"
  shows "word_module (cmd_word m c cmd d) = nat m" "word_chip (cmd_word m c cmd d) = unat c"
    "word_command (cmd_word m c cmd d) = unat cmd" "word_data (cmd_word m c cmd d) = nat (d mod 65536)"
  using cmd_word_fields [OF assms, of "d mod 65536"] by (simp_all add: cmd_word_data_mod)

text \<open>A command word decodes to the slot, chip and command it was built from, within the widths of the
  fields (5, 3 and 8 bits), whatever the data; of the data exactly the low 16 bits arrive.\<close>
theorem cmd_word_roundtrip:
  assumes "0 \<le> m" "m < 32" "unat c < 8" "unat cmd < 256"
  shows "(word_module (cmd_word m c cmd d), word_chip (cmd_word m c cmd d), word_command (cmd_word m c cmd d),
    word_data (cmd_word m c cmd d)) = (nat m, unat c, unat cmd, nat (d mod 65536))"
  using cmd_word_decode [OF assms] by simp

theorem cmd_word_roundtrip_witness: "word_data (cmd_word 15 3 20 (- 1)) = 65535"
  using cmd_word_roundtrip [of 15 3 20 "- 1"] by simp

section \<open>The firmware stream\<close>

text \<open>The 16-bit data of a download: the upper half of the first word, then both halves of every further
  word.\<close>

definition fw_decode :: "u32 list \<Rightarrow> nat list" where
  "fw_decode ws = (case ws of [] \<Rightarrow> []
   | w0 # rest \<Rightarrow> unat (drop_bit 16 w0) # concat (map (\<lambda>w. [unat (w AND 0xFFFF), unat (drop_bit 16 w)]) rest))"

lemma byte_small: "unat (byte ca i) < 256"
  using unsigned_less [of "ca ! i", where ?'a = nat] by (simp add: byte_def unat_ucast_widen)

lemma halves:
  fixes x y :: u32
  assumes "unat x < 256" and "unat y < 65536"
  shows "unat ((x + push_bit 16 y) AND 0xFFFF) = unat x" and "unat (drop_bit 16 (x + push_bit 16 y)) = unat y"
proof -
  have "unat (x + push_bit 16 y) = unat x + unat y * 65536"
    using assms by (simp add: push_bit_eq_mult unat_word_ariths)
  then show "unat ((x + push_bit 16 y) AND 0xFFFF) = unat x" "unat (drop_bit 16 (x + push_bit 16 y)) = unat y"
    using assms unat_and_mask [of "x + push_bit 16 y" 16]
    by (simp_all add: unat_drop_bit mask_eq_exp_minus_1)
qed

lemma fw_first_data:
  assumes "0 \<le> m" "m < 32"
  shows "unat (drop_bit 16 (fw_first m ca)) = unat (byte ca 0)"
proof -
  have "fw_first m ca = cmd_word m 7 0 (int (unat (byte ca 0)))"
    by (simp add: fw_first_def cmd_word_def ConstructSendWord_def)
  moreover have "int (unat (byte ca 0)) < 65536" using byte_small [of ca 0] by linarith
  ultimately show ?thesis
    using cmd_word_fields(4) [of m 7 0 "int (unat (byte ca 0))"] assms
    by (simp add: word_data_def)
qed


lemma decode_pairs:
  "concat (map (\<lambda>ij. [f (2 * ij + 1), f (2 * ij + 2)]) [0..<n]) = map f [1..<2 * n + 1]"
proof (induction n)
  case (Suc n)
  have "[1..<2 * Suc n + 1] = [1..<2 * n + 1] @ [2 * n + 1, 2 * n + 2]" by simp
  then show ?case using Suc by simp
qed simp

definition data_at :: "u8 list \<Rightarrow> nat \<Rightarrow> nat" where "data_at ca i = unat (ca ! i)"

lemma unat_byte: "unat (byte ca i) = data_at ca i"
  by (simp add: byte_def data_at_def unat_ucast_widen)

text \<open>A word list built from pairs of bytes, with some last word, decodes to the bytes before it.\<close>

lemma decode_block:
  assumes "0 \<le> m" "m < 32" and "w = byte ca (2 * k + 1) + push_bit 16 z"
    and "unat (w AND 0xFFFF) = data_at ca (2 * k + 1)"
  shows "take (2 * k + 2) (fw_decode (fw_first m ca #
      map (\<lambda>ij. if ij = k then w else byte ca (2 * ij + 1) + push_bit 16 (byte ca (2 * ij + 2))) [0..<Suc k]))
    = map (data_at ca) [0..<2 * k + 2]"
proof -
  let ?pair = "\<lambda>w. [unat (w AND 0xFFFF), unat (drop_bit 16 w)]"
  have pair: "?pair (byte ca i + push_bit 16 (byte ca j)) = [data_at ca i, data_at ca j]" for i j
    using halves [of "byte ca i" "byte ca j"] byte_small [of ca i] byte_small [of ca j] by (simp add: unat_byte)
  have "concat (map ?pair (map (\<lambda>ij. if ij = k then w
        else byte ca (2 * ij + 1) + push_bit 16 (byte ca (2 * ij + 2))) [0..<k]))
      = concat (map (\<lambda>ij. [data_at ca (2 * ij + 1), data_at ca (2 * ij + 2)]) [0..<k])"
    unfolding map_map by (intro arg_cong [where f = concat] map_cong refl) (simp add: pair del: One_nat_def)
  also have "\<dots> = map (data_at ca) [1..<2 * k + 1]" by (rule decode_pairs)
  finally have "fw_decode (fw_first m ca #
      map (\<lambda>ij. if ij = k then w else byte ca (2 * ij + 1) + push_bit 16 (byte ca (2 * ij + 2))) [0..<Suc k])
      = data_at ca 0 # map (data_at ca) [1..<2 * k + 1] @ [data_at ca (2 * k + 1), unat (drop_bit 16 w)]"
    using fw_first_data [OF assms(1,2), of ca] assms(4) by (simp add: fw_decode_def unat_byte)
  moreover have "data_at ca 0 # map (data_at ca) [1..<2 * k + 1] @ [data_at ca (2 * k + 1)] = map (data_at ca) [0..<2 * k + 2]"
  proof -
    have "[0..<2 * k + 2] = 0 # [1..<2 * k + 2]" by (simp add: upt_conv_Cons del: upt_Suc)
    moreover have "[1..<2 * k + 2] = [1..<2 * k + 1] @ [2 * k + 1]" by simp
    ultimately show ?thesis by (simp only: list.map map_append)
  qed
  ultimately have "fw_decode (fw_first m ca #
      map (\<lambda>ij. if ij = k then w else byte ca (2 * ij + 1) + push_bit 16 (byte ca (2 * ij + 2))) [0..<Suc k])
      = map (data_at ca) [0..<2 * k + 2] @ [unat (drop_bit 16 w)]"
    by (simp only: append_Cons append_assoc [symmetric] flip: append.simps(2)) simp
  then show ?thesis by (simp del: upt_Suc)
qed


lemma fw_block_decode:
  assumes "0 \<le> m" "m < 32"
  shows "take 1000 (fw_decode (fw_block m ca)) = map (data_at ca) [0..<1000]"
proof -
  let ?w = "byte ca (2 * 499 + 1) + push_bit 16 0"
  have "unat (?w AND 0xFFFF) = data_at ca (2 * 499 + 1)"
    using halves(1) [of "byte ca (2 * 499 + 1)" 0] byte_small by (simp add: unat_byte)
  moreover have "fw_block m ca = fw_first m ca #
      map (\<lambda>ij. if ij = 499 then ?w else byte ca (2 * ij + 1) + push_bit 16 (byte ca (2 * ij + 2))) [0..<Suc 499]"
    unfolding fw_block_def nsend_def by (simp del: upt_Suc upt_rec_numeral)
  ultimately show ?thesis using decode_block [OF assms refl, of ca 499 0] by (simp del: upt_Suc upt_rec_numeral)
qed

lemma fw_tail_decode:
  assumes "0 \<le> m" "m < 32" and "1 < count" and "unat chip < 8"
  shows "take count (fw_decode (fw_tail m chip count b)) = map (data_at (carray b)) [0..<count]"
proof -
  let ?ca = "carray b"
  define k where "k = (if (count - 1) mod 2 = 0 then (count - 1) div 2 else (count - 1) div 2 + 1) + 1"
  let ?z = "push_bit 11 (word_of_int m) + push_bit 8 chip :: u32"
  let ?w = "byte ?ca (2 * k + 1) + push_bit 16 ?z"
  have z: "unat ?z = nat m * 2048 + unat chip * 256"
    using assms by (simp add: push_bit_eq_mult unat_word_ariths unat_word_of_int_small)
  then have "unat ?z < 65536" using assms by simp
  then have low: "unat (?w AND 0xFFFF) = data_at ?ca (2 * k + 1)"
    using halves(1) [of "byte ?ca (2 * k + 1)" ?z] byte_small by (simp only: unat_byte)
  have tail: "fw_tail m chip count b = fw_first m ?ca #
      map (\<lambda>ij. if ij = k then ?w else byte ?ca (2 * ij + 1) + push_bit 16 (byte ?ca (2 * ij + 2))) [0..<Suc k]"
    using assms(3) by (simp add: fw_tail_def Let_def k_def del: upt_Suc)
  have "count \<le> 2 * k + 2" using assms(3) by (simp add: k_def) presburger
  then have "take count xs = take count (take (2 * k + 2) xs)" for xs :: "nat list" by (simp add: min.absorb1)
  then have "take count (fw_decode (fw_tail m chip count b)) = take count (map (data_at ?ca) [0..<2 * k + 2])"
    unfolding tail decode_block [OF assms(1,2) refl low, symmetric] .
  then show ?thesis using \<open>count \<le> 2 * k + 2\<close> by (simp add: take_map take_upt del: upt_Suc)
qed

text \<open>The download loop: every full thousand bytes is sent as one block, the rest stays in \<^verbatim>\<open>carray\<close>.\<close>

definition sends :: "hw_op list \<Rightarrow> u32 list list" where
  "sends ops = concat (map (\<lambda>x. case x of Send _ _ ws \<Rightarrow> [ws] | _ \<Rightarrow> []) ops)"

lemma load_bytes_spec:
  assumes "load_bytes m bits n b ops = (n', b', ops')" and "0 \<le> m" "m < 32" and "n < 1000"
    and "length (carray b) = SEND_SIZE"
  shows "concat (map (\<lambda>ws. take 1000 (fw_decode ws)) (sends ops')) @ map (data_at (carray b')) [0..<n']
      = concat (map (\<lambda>ws. take 1000 (fw_decode ws)) (sends ops)) @ map (data_at (carray b)) [0..<n] @ map unat bits
    \<and> n' < 1000 \<and> n' mod 1000 = (n + length bits) mod 1000"
  using assms
proof (induction m bits n b ops rule: load_bytes.induct)
  case (2 m c cs n b ops)
  let ?b = "b\<lparr>carray := (carray b)[n := c]\<rparr>"
  have upd: "map (data_at (carray ?b)) [0..<Suc n] = map (data_at (carray b)) [0..<n] @ [unat c]"
    using 2(6,7) by (simp add: data_at_def SEND_SIZE_def nth_list_update)
  show ?case
  proof (cases "Suc n = 1000")
    case True
    let ?ws = "fw_block m (carray ?b)"
    let ?b2 = "?b\<lparr>buf_send := put_words ?ws (buf_send ?b)\<rparr>"
    have rec: "load_bytes m cs 0 ?b2 (ops @ [Send 1 1 ?ws]) = (n', b', ops')"
      using 2(3) True by (simp add: Let_def nsend_def)
    have "take 1000 (fw_decode ?ws) = map (data_at (carray b)) [0..<n] @ [unat c]"
      using fw_block_decode [OF 2(4,5), of "carray ?b"] upd True by (simp del: upt_rec_numeral)
    moreover have "sends (ops @ [Send 1 1 ?ws]) = sends ops @ [?ws]" by (simp add: sends_def)
    moreover have "Suc n mod (nsend * 2) = 0" using True by (simp add: nsend_def)
    ultimately show ?thesis
      using 2(1) [OF refl refl _ refl rec] 2(4,5,7) True by (simp add: mod_simps)
  next
    case False
    then have rec: "load_bytes m cs (Suc n) ?b ops = (n', b', ops')"
      using 2(3,6) by (simp add: Let_def nsend_def)
    have "Suc n mod (nsend * 2) \<noteq> 0" using False 2(6) by (simp add: nsend_def)
    then show ?thesis
      using 2(2) [OF refl refl] rec 2(4-7) False upd by simp
  qed
qed simp

text \<open>C34: The firmware download is lossless: decoding the words sent to the card gives back the bit file, byte
  by byte (1000 bytes per block and the rest in the last block), provided the rest has at least two bytes.\<close>
theorem LoadFirmware_roundtrip:
  assumes "0 \<le> m" "m < 32" "unat chip < 8" and "length (carray b) = SEND_SIZE" and "2 \<le> length bits mod 1000"
  shows "\<exists>blocks tail. sends (fst (LoadFirmware m chip bits b)) = blocks @ [tail] \<and>
    concat (map (\<lambda>ws. take 1000 (fw_decode ws)) blocks) @ take (length bits mod 1000) (fw_decode tail)
      = map unat bits"
proof -
  obtain n' b' ops' where load: "load_bytes m bits 0 b [] = (n', b', ops')" by (metis prod.collapse)
  note spec = load_bytes_spec [OF load assms(1,2) _ assms(4)]
  have "n' < 1000" "n' mod 1000 = length bits mod 1000" using spec by simp_all
  then have n': "n' = length bits mod 1000" by simp
  then have "take n' (fw_decode (fw_tail m chip n' b')) = map (data_at (carray b')) [0..<n']"
    using assms by (intro fw_tail_decode) simp_all
  moreover have "sends (fst (LoadFirmware m chip bits b)) = sends ops' @ [fw_tail m chip n' b']"
    by (simp add: LoadFirmware_def load Let_def sends_def)
  ultimately show ?thesis
    using spec n' by (intro exI [of _ "sends ops'"] exI [of _ "fw_tail m chip n' b'"]) (simp add: sends_def)
qed


theorem LoadFirmware_roundtrip_witness:
  "\<exists>blocks tail. sends (fst (LoadFirmware 12 2 [1, 2, 3] \<lparr>buf_send = replicate SEND_SIZE 0, carray = replicate SEND_SIZE 0\<rparr>))
     = blocks @ [tail] \<and> concat (map (\<lambda>ws. take 1000 (fw_decode ws)) blocks) @ take 3 (fw_decode tail) = [1, 2, 3]"
  using LoadFirmware_roundtrip [of 12 2 "\<lparr>buf_send = replicate SEND_SIZE 0, carray = replicate SEND_SIZE 0\<rparr>" "[1, 2, 3]"]
  by (simp add: SEND_SIZE_def)

text \<open>A bit file whose rest is empty or a single byte ends with a send of two words whose second word is
  left over from the previous transfer, and carries no terminating command.\<close>

lemma fw_tail_stale:
  "count \<le> 1 \<Longrightarrow> fw_tail m chip count b = [fw_first m (carray b), buf_send b ! 1]"
  by (simp add: fw_tail_def Let_def)

end
