(* ===== verification/Hardware_Program.thy ===== *)
theory Hardware_Program
  imports Hardware_Device Json
begin

text \<open>
  The form in which the \<^verbatim>\<open>Configure\<close> methods of \<^verbatim>\<open>src/hardware\<close> are modelled: a method reads its settings from
  the JSON configuration and then issues a fixed program of instructions on the shared send buffer and the
  PCIe interface.  No method branches on what the hardware answers, so the program is a list; running it
  threads the buffers (which the firmware download reuses) and yields the trace of PCIe operations.
  The contract that the controller relies on is the locale \<^verbatim>\<open>configurable\<close>.
\<close>

section \<open>Command constants\<close>

definition mb_cntrl_test_on :: u32 where "mb_cntrl_test_on = 1"
definition mb_cntrl_test_off :: u32 where "mb_cntrl_test_off = 0"
definition mb_cntrl_set_trig1 :: u32 where "mb_cntrl_set_trig1 = 4"
definition mb_cntrl_load_trig_pos :: u32 where "mb_cntrl_load_trig_pos = 7"
definition mb_feb_power_add :: u32 where "mb_feb_power_add = 1"
definition mb_feb_conf_add :: u32 where "mb_feb_conf_add = 2"
definition mb_feb_pass_add :: u32 where "mb_feb_pass_add = 3"
definition mb_feb_lst_on :: u32 where "mb_feb_lst_on = 1"
definition mb_feb_lst_off :: u32 where "mb_feb_lst_off = 0"
definition mb_feb_rxreset :: u32 where "mb_feb_rxreset = 2"
definition mb_feb_align :: u32 where "mb_feb_align = 3"
definition mb_feb_pll_reset :: u32 where "mb_feb_pll_reset = 5"
definition mb_feb_adc_align :: u32 where "mb_feb_adc_align = 1"
definition mb_feb_a_nocomp :: u32 where "mb_feb_a_nocomp = 2"
definition mb_feb_b_nocomp :: u32 where "mb_feb_b_nocomp = 3"
definition mb_feb_timesize :: u32 where "mb_feb_timesize = 5"
definition mb_feb_mod_number :: u32 where "mb_feb_mod_number = 6"
definition mb_feb_a_id :: u32 where "mb_feb_a_id = 7"
definition mb_feb_b_id :: u32 where "mb_feb_b_id = 8"
definition mb_feb_max :: u32 where "mb_feb_max = 9"
definition mb_feb_test_source :: u32 where "mb_feb_test_source = 10"
definition mb_feb_rd_status :: u32 where "mb_feb_rd_status = 20"
definition mb_feb_dram_reset :: u32 where "mb_feb_dram_reset = 31"
definition mb_feb_adc_reset :: u32 where "mb_feb_adc_reset = 33"
definition mb_feb_hold_enable :: u32 where "mb_feb_hold_enable = 42"
definition mb_pmt_adc_reset :: u32 where "mb_pmt_adc_reset = 1"
definition mb_pmt_spi_add :: u32 where "mb_pmt_spi_add = 2"
definition mb_pmt_adc_data_load :: u32 where "mb_pmt_adc_data_load = 3"
definition mb_xmit_conf_add :: u32 where "mb_xmit_conf_add = 2"
definition mb_xmit_modcount :: u32 where "mb_xmit_modcount = 1"
definition mb_xmit_enable_1 :: u32 where "mb_xmit_enable_1 = 2"
definition mb_xmit_enable_2 :: u32 where "mb_xmit_enable_2 = 3"
definition mb_xmit_rdstatus :: u32 where "mb_xmit_rdstatus = 20"
definition mb_xmit_rdcounters :: u32 where "mb_xmit_rdcounters = 21"
definition mb_xmit_link_reset :: u32 where "mb_xmit_link_reset = 22"
definition mb_opt_dig_reset :: u32 where "mb_opt_dig_reset = 23"
definition mb_xmit_dpa_fifo_reset :: u32 where "mb_xmit_dpa_fifo_reset = 24"
definition mb_xmit_dpa_word_align :: u32 where "mb_xmit_dpa_word_align = 25"
definition mb_xmit_link_pll_reset :: u32 where "mb_xmit_link_pll_reset = 26"
definition mb_trig_run :: u32 where "mb_trig_run = 1"
definition mb_trig_frame_size :: u32 where "mb_trig_frame_size = 2"
definition mb_trig_deadtime_size :: u32 where "mb_trig_deadtime_size = 3"
definition mb_trig_delay1_size :: u32 where "mb_trig_delay1_size = 5"
definition mb_trig_delay2_size :: u32 where "mb_trig_delay2_size = 6"
definition mb_trig_prescale0 :: u32 where "mb_trig_prescale0 = 10"
definition mb_trig_mask1 :: u32 where "mb_trig_mask1 = 21"
definition mb_trig_mask8 :: u32 where "mb_trig_mask8 = 28"
definition mb_trig_pctrig :: u32 where "mb_trig_pctrig = 31"
definition mb_trig_rd_gps :: u32 where "mb_trig_rd_gps = 35"
definition mb_feb_pmt_gate_size :: u32 where "mb_feb_pmt_gate_size = 47"
definition mb_feb_pmt_beam_delay :: u32 where "mb_feb_pmt_beam_delay = 48"
definition mb_feb_pmt_beam_size :: u32 where "mb_feb_pmt_beam_size = 49"
definition mb_feb_pmt_ch_set :: u32 where "mb_feb_pmt_ch_set = 50"
definition mb_feb_pmt_delay0 :: u32 where "mb_feb_pmt_delay0 = 51"
definition mb_feb_pmt_delay1 :: u32 where "mb_feb_pmt_delay1 = 52"
definition mb_feb_pmt_precount :: u32 where "mb_feb_pmt_precount = 53"
definition mb_feb_pmt_thresh0 :: u32 where "mb_feb_pmt_thresh0 = 54"
definition mb_feb_pmt_thresh1 :: u32 where "mb_feb_pmt_thresh1 = 55"
definition mb_feb_pmt_thresh2 :: u32 where "mb_feb_pmt_thresh2 = 56"
definition mb_feb_pmt_thresh3 :: u32 where "mb_feb_pmt_thresh3 = 57"
definition mb_feb_pmt_width :: u32 where "mb_feb_pmt_width = 58"
definition mb_feb_pmt_deadtime :: u32 where "mb_feb_pmt_deadtime = 59"
definition mb_feb_pmt_window :: u32 where "mb_feb_pmt_window = 60"
definition mb_feb_pmt_words :: u32 where "mb_feb_pmt_words = 61"
definition mb_feb_pmt_cos_mul :: u32 where "mb_feb_pmt_cos_mul = 62"
definition mb_feb_pmt_cos_thres :: u32 where "mb_feb_pmt_cos_thres = 63"
definition mb_feb_pmt_mich_mul :: u32 where "mb_feb_pmt_mich_mul = 64"
definition mb_feb_pmt_mich_thres :: u32 where "mb_feb_pmt_mich_thres = 65"
definition mb_feb_pmt_beam_mul :: u32 where "mb_feb_pmt_beam_mul = 66"
definition mb_feb_pmt_beam_thres :: u32 where "mb_feb_pmt_beam_thres = 67"
definition mb_feb_pmt_en_top :: u32 where "mb_feb_pmt_en_top = 68"
definition mb_feb_pmt_en_upper :: u32 where "mb_feb_pmt_en_upper = 69"
definition mb_feb_pmt_en_lower :: u32 where "mb_feb_pmt_en_lower = 70"
definition mb_feb_pmt_blocksize :: u32 where "mb_feb_pmt_blocksize = 71"
definition mb_feb_pmt_rxreset :: u32 where "mb_feb_pmt_rxreset = 84"
definition mb_feb_pmt_align_pulse :: u32 where "mb_feb_pmt_align_pulse = 85"

lemmas mb_consts = mb_cntrl_test_on_def mb_cntrl_test_off_def mb_cntrl_set_trig1_def mb_cntrl_load_trig_pos_def
  mb_feb_power_add_def mb_feb_conf_add_def mb_feb_pass_add_def mb_feb_lst_on_def mb_feb_lst_off_def
  mb_feb_rxreset_def mb_feb_align_def mb_feb_pll_reset_def mb_feb_adc_align_def mb_feb_a_nocomp_def
  mb_feb_b_nocomp_def mb_feb_timesize_def mb_feb_mod_number_def mb_feb_a_id_def mb_feb_b_id_def mb_feb_max_def
  mb_feb_test_source_def mb_feb_rd_status_def mb_feb_dram_reset_def mb_feb_adc_reset_def
  mb_feb_hold_enable_def mb_pmt_adc_reset_def mb_pmt_spi_add_def mb_pmt_adc_data_load_def
  mb_xmit_conf_add_def mb_xmit_modcount_def mb_xmit_enable_1_def mb_xmit_enable_2_def mb_xmit_rdstatus_def
  mb_xmit_rdcounters_def mb_xmit_link_reset_def mb_opt_dig_reset_def mb_xmit_dpa_fifo_reset_def
  mb_xmit_dpa_word_align_def mb_xmit_link_pll_reset_def mb_trig_run_def mb_trig_frame_size_def
  mb_trig_deadtime_size_def mb_trig_delay1_size_def mb_trig_delay2_size_def mb_trig_prescale0_def
  mb_trig_mask1_def mb_trig_mask8_def mb_trig_pctrig_def mb_trig_rd_gps_def mb_feb_pmt_gate_size_def
  mb_feb_pmt_beam_delay_def mb_feb_pmt_beam_size_def mb_feb_pmt_ch_set_def mb_feb_pmt_delay0_def
  mb_feb_pmt_delay1_def mb_feb_pmt_precount_def mb_feb_pmt_thresh0_def mb_feb_pmt_thresh1_def
  mb_feb_pmt_thresh2_def mb_feb_pmt_thresh3_def mb_feb_pmt_width_def mb_feb_pmt_deadtime_def
  mb_feb_pmt_window_def mb_feb_pmt_words_def mb_feb_pmt_cos_mul_def mb_feb_pmt_cos_thres_def
  mb_feb_pmt_mich_mul_def mb_feb_pmt_mich_thres_def mb_feb_pmt_beam_mul_def mb_feb_pmt_beam_thres_def
  mb_feb_pmt_en_top_def mb_feb_pmt_en_upper_def mb_feb_pmt_en_lower_def mb_feb_pmt_blocksize_def
  mb_feb_pmt_rxreset_def mb_feb_pmt_align_pulse_def

section \<open>Programs\<close>

text \<open>What the sources take from the monitoring and networking libraries: the error numbers, the number of
  light channels, and the content of a bit file.\<close>

record hw_params =
  xmit_get_config :: u32
  chargefem_get_config :: u32
  lightfem_get_config :: u32
  trigger_get_config :: u32
  TOTAL_LIGHT_CHANNELS :: nat
  bitfile :: "string \<Rightarrow> u8 list"

text \<open>Concrete values of these parameters.\<close>

definition sample_params :: hw_params where
  "sample_params = \<lparr>xmit_get_config = 1, chargefem_get_config = 2, lightfem_get_config = 3,
     trigger_get_config = 4, TOTAL_LIGHT_CHANNELS = 3, bitfile = (\<lambda>_. [1, 2, 3])\<rparr>"

text \<open>\<^verbatim>\<open>Cmd\<close> and \<^verbatim>\<open>Cmd2\<close> store one or two words in \<^verbatim>\<open>buf_send\<close> and send them to the controller (device 1,
  DMA mode); \<^verbatim>\<open>Fill\<close> stores two words and sends nothing; \<^verbatim>\<open>Rx\<close> is a \<^verbatim>\<open>PCIeRecvBuffer\<close> on device 1 in
  single-word mode with the given \<^verbatim>\<open>istart\<close> and number of words.\<close>

datatype hw_instr =
    Cmd u32
  | Cmd2 u32 u32
  | Fill u32 u32
  | Rx u32 u32
  | Reg u32 u32 u32 u32
  | Firmware int u32 "u8 list"
  | Sleep nat

fun exec_instr :: "hw_instr \<Rightarrow> hw_op list \<times> buffers \<Rightarrow> hw_op list \<times> buffers" where
  "exec_instr (Cmd w) (ops, b) = (ops @ [Send 1 1 [w]], b\<lparr>buf_send := (buf_send b)[0 := w]\<rparr>)"
| "exec_instr (Cmd2 w0 w1) (ops, b) = (ops @ [Send 1 1 [w0, w1]], b\<lparr>buf_send := (buf_send b)[0 := w0, 1 := w1]\<rparr>)"
| "exec_instr (Fill w0 w1) (ops, b) = (ops, b\<lparr>buf_send := (buf_send b)[0 := w0, 1 := w1]\<rparr>)"
| "exec_instr (Rx istart nword) (ops, b) = (ops @ [Recv 1 0 istart nword 0], b)"
| "exec_instr (Reg dev bar off v) (ops, b) = (ops @ [WrReg dev bar off v], b)"
| "exec_instr (Firmware m chip bits) (ops, b) = (case LoadFirmware m chip bits b of (fw, b) \<Rightarrow> (ops @ fw, b))"
| "exec_instr (Sleep us) (ops, b) = (ops @ [Usleep us], b)"

definition exec :: "hw_instr list \<Rightarrow> buffers \<Rightarrow> hw_op list \<times> buffers" where
  "exec is b = fold exec_instr is ([], b)"

text \<open>The command words of a program, in order.\<close>

fun instr_cmds :: "hw_instr \<Rightarrow> u32 list" where
  "instr_cmds (Cmd w) = [w]"
| "instr_cmds (Cmd2 w _) = [w]"
| "instr_cmds _ = []"

definition cmds :: "hw_instr list \<Rightarrow> u32 list" where
  "cmds is = concat (map instr_cmds is)"

lemma cmds_simps [simp]:
  "cmds [] = []" "cmds (i # is) = instr_cmds i @ cmds is" "cmds (is @ js) = cmds is @ cmds js"
  "cmds (concat iss) = concat (map cmds iss)"
  by (simp_all add: cmds_def) (induction iss; simp add: cmds_def)

text \<open>The slots that a program addresses, the firmware downloads included.\<close>

fun instr_slots :: "hw_instr \<Rightarrow> nat list" where
  "instr_slots (Cmd w) = [word_module w]"
| "instr_slots (Cmd2 w _) = [word_module w]"
| "instr_slots (Firmware m _ _) = [nat m]"
| "instr_slots _ = []"

definition slots :: "hw_instr list \<Rightarrow> nat set" where
  "slots is = (\<Union>i \<in> set is. set (instr_slots i))"

lemma slots_simps [simp]:
  "slots [] = {}" "slots (i # is) = set (instr_slots i) \<union> slots is" "slots (is @ js) = slots is \<union> slots js"
  "slots (concat iss) = (\<Union>is \<in> set iss. slots is)"
  by (auto simp: slots_def)

lemma exec_instr_acc: "exec_instr i (ops, b) = (ops @ fst (exec_instr i ([], b)), snd (exec_instr i ([], b)))"
  by (cases i) (auto split: prod.splits)

lemma exec_fold_acc:
  "fold exec_instr is (ops, b) = (ops @ fst (exec is b), snd (exec is b))"
proof (induction "is" arbitrary: ops b)
  case (Cons i "is")
  obtain o1 b1 where 1: "exec_instr i ([], b) = (o1, b1)" by fastforce
  then have "exec_instr i (ops, b) = (ops @ o1, b1)" using exec_instr_acc [of i ops b] by simp
  then show ?case using Cons.IH [of "ops @ o1" b1] Cons.IH [of o1 b1] 1 by (simp add: exec_def)
qed (simp add: exec_def)

lemma exec_Nil [simp]: "exec [] b = ([], b)"
  by (simp add: exec_def)

lemma exec_Cons:
  "exec (i # is) b = (let (o1, b1) = exec_instr i ([], b); (o2, b2) = exec is b1 in (o1 @ o2, b2))"
  using exec_fold_acc [of "is" "fst (exec_instr i ([], b))" "snd (exec_instr i ([], b))"]
  by (simp add: exec_def [of "i # is"] Let_def case_prod_beta)

lemma exec_append:
  "exec (is @ js) b = (let (o1, b1) = exec is b; (o2, b2) = exec js b1 in (o1 @ o2, b2))"
  using exec_fold_acc [of js "fst (exec is b)" "snd (exec is b)"]
  by (simp add: exec_def [of "is @ js"] exec_def [of "is"] Let_def case_prod_beta)

text \<open>Every command of a program without firmware downloads reaches the interface, in order and unchanged.\<close>

lemma trace_words_append [simp]: "trace_words (a @ b) = trace_words a @ trace_words b"
  by (simp add: trace_words_def)

lemma exec_cmds:
  assumes "\<forall>i \<in> set is. \<forall>m c bits. i \<noteq> Firmware m c bits"
  shows "trace_words (fst (exec is b)) = cmds is"
  using assms
proof (induction "is" arbitrary: b)
  case (Cons i "is")
  have "trace_words (fst (exec_instr i ([], b))) = instr_cmds i"
    using Cons.prems by (cases i) (auto simp: trace_words_def)
  then show ?case
    using Cons.IH [of "snd (exec_instr i ([], b))"] Cons.prems by (simp add: exec_Cons Let_def case_prod_beta)
qed (simp add: trace_words_def)

section \<open>The contract of a configurable device\<close>

text \<open>The value that \<^verbatim>\<open>Configure\<close> returns; \<^verbatim>\<open>Throw\<close> is an exception that leaves it.\<close>

datatype outcome = Ret u32 | Throw

locale configurable =
  fixes configure :: "json \<Rightarrow> 's \<Rightarrow> outcome \<times> hw_instr list \<times> 's"
    and readable :: "json \<Rightarrow> bool"
    and err :: u32
  assumes unreadable: "\<not> readable c \<Longrightarrow> fst (configure c s) = Ret err \<and> fst (snd (configure c s)) = []"
    and readable: "readable c \<Longrightarrow> fst (configure c s) \<in> {Ret 0, Throw}"
begin

lemma error_no_access:
  assumes "fst (configure c s) = Ret e" and "e \<noteq> 0"
  shows "e = err \<and> \<not> readable c \<and> exec (fst (snd (configure c s))) b = ([], b)"
  using assms unreadable [of c s] readable [of c s] by (cases "readable c") auto

lemma error_iff:
  assumes "err \<noteq> 0"
  shows "fst (configure c s) = Ret err \<longleftrightarrow> \<not> readable c"
  using assms unreadable [of c s] readable [of c s] by (cases "readable c") auto

end

end
