(* ===== verification/Xmit_Control.thy ===== *)
theory Xmit_Control
  imports Hardware_Program
begin

text \<open>
  \<^verbatim>\<open>PcieControl::Configure\<close> (\<^verbatim>\<open>src/hardware/pcie_control.cpp\<close>) resets the optical links of the acquisition
  card; \<^verbatim>\<open>XmitControl::Configure\<close> (\<^verbatim>\<open>src/hardware/xmit_control.cpp\<close>) boots and sets up the XMIT board, which
  passes the readout token along the front-end modules.
\<close>

section \<open>The PCIe cards\<close>

definition PcieControl_Configure :: "json \<Rightarrow> 's \<Rightarrow> outcome \<times> hw_instr list \<times> 's" where
  "PcieControl_Configure c s = (Ret 0,
     [Reg kDev2 cs_bar t1_cs_reg cs_init, Reg kDev2 cs_bar t2_cs_reg cs_init,
      Reg kDev2 cs_bar r1_cs_reg cs_init, Reg kDev2 cs_bar r2_cs_reg cs_init,
      Reg kDev2 cs_bar tx_md_reg 0xfff, Fill 0 0, Cmd 0], s)"

section \<open>The XMIT board\<close>

text \<open>Settings: the slot of the board, the last light slot, the bit file.\<close>

definition xmit_read :: "json \<Rightarrow> (int \<times> int \<times> string) option" where
  "xmit_read c = do {
     imod_xmit \<leftarrow> cfg_int ''crate'' ''xmit_slot'' c;
     imod_st1 \<leftarrow> cfg_int ''crate'' ''last_light_slot'' c;
     data_basedir \<leftarrow> cfg_string ''hardware'' ''readout_basedir'' c;
     fpga_bitfile \<leftarrow> cfg_string ''xmit'' ''fpga_bitfile'' c;
     Some (imod_xmit, imod_st1, data_basedir @ ''/'' @ fpga_bitfile) }"

definition xmit_boot :: "int \<Rightarrow> u8 list \<Rightarrow> hw_instr list" where
  "xmit_boot imod_xmit bits =
     [Cmd (cmd_word imod_xmit mb_xmit_conf_add 0 0),
      Firmware imod_xmit mb_xmit_conf_add bits,
      Rx 1 1, Rx 1 1,
      Cmd (cmd_word imod_xmit 3 mb_xmit_rdstatus 0),
      Rx 2 1]"

definition xmit_setup :: "int \<Rightarrow> int \<Rightarrow> hw_instr list" where
  "xmit_setup imod_xmit imod_st1 =
     [Cmd (cmd_word imod_xmit 3 mb_xmit_modcount (imod_st1 - imod_xmit - 1)),
      Cmd (cmd_word imod_xmit 3 mb_opt_dig_reset 1),
      Cmd (cmd_word imod_xmit 3 mb_xmit_enable_1 1),
      Cmd (cmd_word imod_xmit 3 mb_xmit_enable_2 0),
      Cmd (cmd_word imod_xmit 3 mb_xmit_link_pll_reset 1), Sleep 10000,
      Cmd (cmd_word imod_xmit 3 mb_xmit_link_reset 1), Sleep 10000,
      Cmd (cmd_word imod_xmit 3 mb_xmit_dpa_fifo_reset 1),
      Cmd (cmd_word imod_xmit 3 mb_xmit_dpa_word_align 1), Sleep 10000,
      Rx 1 1,
      Cmd (cmd_word imod_xmit 3 mb_xmit_rdstatus 0),
      Rx 2 1]"

definition xmit_counters :: "int \<Rightarrow> hw_instr list" where
  "xmit_counters imod_xmit = [Cmd (cmd_word imod_xmit 3 mb_xmit_rdcounters 0), Rx 2 5, Sleep 10000]"

definition XmitControl_Configure :: "hw_params \<Rightarrow> json \<Rightarrow> 's \<Rightarrow> outcome \<times> hw_instr list \<times> 's" where
  "XmitControl_Configure P c s = (case xmit_read c of
     None \<Rightarrow> (Ret (xmit_get_config P), [], s)
   | Some (imod_xmit, imod_st1, fw_file) \<Rightarrow>
       (Ret 0, xmit_boot imod_xmit (bitfile P fw_file) @ xmit_setup imod_xmit imod_st1 @ xmit_counters imod_xmit, s))"

lemmas xmit_defs = xmit_boot_def xmit_setup_def xmit_counters_def

interpretation pcie_control: configurable PcieControl_Configure "\<lambda>_. True" 0
  by unfold_locales (simp_all add: PcieControl_Configure_def)

interpretation xmit_control: configurable "XmitControl_Configure P" "\<lambda>c. xmit_read c \<noteq> None" "xmit_get_config P" for P
  by unfold_locales (auto simp: XmitControl_Configure_def split: option.splits)

section \<open>Properties\<close>

text \<open>The commands with a given chip and command number.\<close>

definition commands_to :: "nat \<Rightarrow> nat \<Rightarrow> hw_instr list \<Rightarrow> u32 list" where
  "commands_to chip cmd is = filter (\<lambda>w. word_chip w = chip \<and> word_command w = cmd) (cmds is)"

text \<open>A readable configuration with the boards in slots 0 to 31 makes the XMIT program address only the slot of the
  XMIT board, and program the module count once, with one less than the number of slots after the XMIT
  board up to the last light slot.\<close>
theorem XmitControl_modcount:
  assumes "xmit_read c = Some (imod_xmit, imod_st1, fw)"
    and "0 \<le> imod_xmit" "imod_xmit < imod_st1" "imod_st1 < 32"
  shows "case XmitControl_Configure P c s of (r, is, s') \<Rightarrow> r = Ret 0 \<and> slots is = {nat imod_xmit}
    \<and> map word_data (commands_to 3 1 is) = [card {imod_xmit <.. imod_st1} - 1]"
proof -
  have "imod_xmit < 32" using assms by simp
  note dec = cmd_word_decode [OF \<open>0 \<le> imod_xmit\<close> \<open>imod_xmit < 32\<close>]
  have "slots (xmit_boot imod_xmit bits @ xmit_setup imod_xmit imod_st1 @ xmit_counters imod_xmit) = {nat imod_xmit}"
    for bits by (simp add: xmit_defs mb_consts dec)
  moreover have "nat ((imod_st1 - imod_xmit - 1) mod 65536) = card {imod_xmit <.. imod_st1} - 1"
    using assms by (simp add: nat_diff_distrib)
  then have "map word_data (commands_to 3 1
      (xmit_boot imod_xmit bits @ xmit_setup imod_xmit imod_st1 @ xmit_counters imod_xmit))
    = [card {imod_xmit <.. imod_st1} - 1]" for bits
    by (simp add: xmit_defs mb_consts dec commands_to_def)
  ultimately show ?thesis using assms(1) by (simp add: XmitControl_Configure_def)
qed

definition crate_json :: json where
  "crate_json = JObject [(''crate'', JObject [(''xmit_slot'', JInt 11), (''last_light_slot'', JInt 16),
     (''last_charge_slot'', JInt 15), (''charge_fem_slot'', JInt 13), (''light_fem_slot'', JInt 16),
     (''trig_slot'', JInt 10)]),
     (''hardware'', JObject [(''readout_basedir'', JString ''/home/pgrams'')]),
     (''xmit'', JObject [(''fpga_bitfile'', JString ''xmit.rbf'')]),
     (''charge_fem'', JObject [(''fpga_bitfile'', JString ''charge.rbf'')]),
     (''readout_windows'', JObject [(''drift_size'', JInt 255)])]"

lemma int32_numeral [simp]: "int32 (numeral n) = sint (numeral n :: u32)"
  by (simp add: int32_def)

theorem XmitControl_modcount_witness:
  "case XmitControl_Configure sample_params crate_json () of (r, is, s') \<Rightarrow> map word_data (commands_to 3 1 is) = [4]"
proof -
  have "xmit_read crate_json = Some (11, 16, ''/home/pgrams/xmit.rbf'')"
    by (simp add: xmit_read_def crate_json_def cfg_defs)
  from XmitControl_modcount [OF this, of sample_params "()"] show ?thesis by (simp split: prod.splits)
qed

end
