(* ===== verification/Charge_Fem.thy ===== *)
theory Charge_Fem
  imports Xmit_Control
begin

text \<open>
  \<^verbatim>\<open>ChargeFem::Configure\<close> of \<^verbatim>\<open>src/hardware/charge_fem.cpp\<close>: power and firmware for every charge slot, the
  setup of the modules and their ADCs, the reset of the links and the read-back of the status words.
\<close>

section \<open>Settings\<close>

record charge_cfg =
  ch_xmit :: int
  ch_st1 :: int
  ch_st2 :: int
  ch_tpc :: int
  ch_drift_size :: int
  ch_fw_file :: string

definition charge_read :: "json \<Rightarrow> charge_cfg option" where
  "charge_read c = do {
     imod_xmit \<leftarrow> cfg_int ''crate'' ''xmit_slot'' c;
     imod_st1 \<leftarrow> cfg_int ''crate'' ''last_light_slot'' c;
     imod_st2 \<leftarrow> cfg_int ''crate'' ''last_charge_slot'' c;
     imod_tpc \<leftarrow> cfg_int ''crate'' ''charge_fem_slot'' c;
     drift_size \<leftarrow> cfg_int ''readout_windows'' ''drift_size'' c;
     data_basedir \<leftarrow> cfg_string ''hardware'' ''readout_basedir'' c;
     fpga_bitfile \<leftarrow> cfg_string ''charge_fem'' ''fpga_bitfile'' c;
     Some \<lparr>ch_xmit = imod_xmit, ch_st1 = imod_st1, ch_st2 = imod_st2, ch_tpc = imod_tpc,
           ch_drift_size = drift_size, ch_fw_file = data_basedir @ ''/'' @ fpga_bitfile\<rparr> }"

section \<open>The program\<close>

definition charge_boot :: "int \<Rightarrow> u8 list \<Rightarrow> hw_instr list" where
  "charge_boot imod bits =
     [Cmd (cmd_word imod 1 mb_feb_power_add 0), Sleep 200000,
      Cmd (cmd_word imod mb_feb_conf_add 0 0), Sleep 2000,
      Firmware imod mb_feb_conf_add bits]"

text \<open>The ADC words: mixed frequency pattern, transfer register, baseline.\<close>

definition adc_mixed :: u32 where "adc_mixed = 0xd + push_bit 24 0xc"
definition adc_transfer :: u32 where "adc_transfer = 0xff + push_bit 24 1"
definition adc_baseline :: u32 where "adc_baseline = 0xd"

definition spi_address :: "int \<Rightarrow> int \<Rightarrow> hw_instr list" where
  "spi_address imod is = [Cmd (cmd_word imod 5 mb_pmt_spi_add (is AND 0xf)), Sleep 5000]"

definition adc_load :: "int \<Rightarrow> u32 \<Rightarrow> hw_instr list" where
  "adc_load imod w = [Cmd2 (cmd_word imod 5 mb_pmt_adc_data_load 0x300) w, Sleep 5000]"

text \<open>The first pass stores the ADC words in the buffer and does not send them.\<close>

definition charge_adc1 :: "int \<Rightarrow> hw_instr list" where
  "charge_adc1 imod = concat (map (\<lambda>is. spi_address imod is
     @ [Fill (cmd_word imod 5 mb_pmt_adc_data_load 0x300) adc_mixed, Sleep 5000,
        Fill (cmd_word imod 5 mb_pmt_adc_data_load 0x300) adc_transfer, Sleep 5000]
     @ spi_address imod is) [0..7])"

definition charge_adc2 :: "int \<Rightarrow> hw_instr list" where
  "charge_adc2 imod = concat (map (\<lambda>is. spi_address imod is
     @ adc_load imod adc_mixed @ adc_load imod adc_transfer) [0..7])"

definition charge_adc_align :: "int \<Rightarrow> hw_instr list" where
  "charge_adc_align imod =
     [Cmd (cmd_word imod 3 mb_feb_adc_reset 1), Sleep 5000, Cmd (cmd_word imod 3 mb_feb_adc_align 0), Sleep 5000]"

definition charge_adc3 :: "int \<Rightarrow> hw_instr list" where
  "charge_adc3 imod = (let fakeadcdata = (0 :: int) in concat (map (\<lambda>is. spi_address imod is
     @ adc_load imod (if fakeadcdata = 1 then adc_mixed else adc_baseline)
     @ adc_load imod adc_transfer) [0..7]))"

definition charge_modes :: "charge_cfg \<Rightarrow> int \<Rightarrow> hw_instr list" where
  "charge_modes cf imod = (let femfakedata = (0 :: int); ihuff = (0 :: int); a_id = 0xf; ik = 8000 in
     [Rx 1 1,
      Cmd (cmd_word imod mb_feb_pass_add mb_feb_test_source (if femfakedata = 1 then 2 else 0)),
      Cmd (cmd_word imod 3 mb_feb_b_nocomp (if ihuff = 1 then 0 else 1)),
      Cmd (cmd_word imod 3 mb_feb_a_nocomp (if ihuff = 1 then 0 else 1)),
      Cmd (cmd_word imod 3 mb_feb_timesize (ch_drift_size cf)),
      Cmd (cmd_word imod 3 mb_feb_b_id a_id),
      Cmd (cmd_word imod 4 mb_feb_b_id a_id),
      Cmd (cmd_word imod 3 mb_feb_max ik),
      Cmd (cmd_word imod 3 mb_feb_hold_enable 1),
      Cmd (cmd_word imod 4 (if imod = ch_st1 cf then mb_feb_lst_on else mb_feb_lst_off) 0)])"

definition charge_module :: "charge_cfg \<Rightarrow> int \<Rightarrow> hw_instr list" where
  "charge_module cf imod = (let adcdata = (1 :: int) in
     [Cmd (cmd_word imod 3 mb_feb_dram_reset 1), Cmd (cmd_word imod 3 mb_feb_dram_reset 0), Sleep 5000,
      Cmd (cmd_word imod 3 mb_feb_mod_number imod)]
     @ (if adcdata = 1 then charge_adc1 imod @ charge_adc2 imod @ charge_adc_align imod @ charge_adc3 imod else [])
     @ charge_modes cf imod)"

text \<open>Common to the charge and the light boards: reset of the link PLLs from the far slot to the near one, the
  read-back of one status word, and the reset and alignment of the links.\<close>

definition pll_reset :: "int \<Rightarrow> hw_instr list" where
  "pll_reset imod = [Cmd (cmd_word imod 4 mb_feb_pll_reset 0), Sleep 2000]"

definition read_status :: "u32 \<Rightarrow> int \<Rightarrow> hw_instr list" where
  "read_status nword imod = [Rx 1 nword, Cmd (cmd_word imod 3 20 0), Rx 2 nword]"

definition link_reset :: "int \<Rightarrow> hw_instr list" where
  "link_reset imod = [Cmd (cmd_word imod 4 mb_feb_rxreset 0), Sleep 1000, Cmd (cmd_word imod 4 mb_feb_align 0), Sleep 1000]"

text \<open>\<^verbatim>\<open>near\<close> and \<^verbatim>\<open>far\<close> are the first and the last slot of the chain.\<close>

definition link_program :: "u32 \<Rightarrow> int \<Rightarrow> int \<Rightarrow> hw_instr list" where
  "link_program nword near far =
     concat (map pll_reset (rev [near..far]))
     @ [Cmd (cmd_word near 3 20 0), Rx 2 nword]
     @ concat (map (read_status nword) [near..far])
     @ concat (map link_reset (rev [near..far]))
     @ [Cmd (cmd_word near 3 20 0), Rx 2 nword]
     @ concat (map (read_status nword) [near..far])"

text \<open>The state of the device is the static \<^verbatim>\<open>nword\<close>, which only the loop over the modules assigns.\<close>

definition ChargeFem_Configure :: "hw_params \<Rightarrow> json \<Rightarrow> u32 \<Rightarrow> outcome \<times> hw_instr list \<times> u32" where
  "ChargeFem_Configure P c nword = (case charge_read c of
     None \<Rightarrow> (Ret (chargefem_get_config P), [], nword)
   | Some cf \<Rightarrow>
       let slots = [ch_tpc cf..ch_st2 cf]; nword = (if slots = [] then nword else 1) in
       (Ret 0, concat (map (\<lambda>imod. charge_boot imod (bitfile P (ch_fw_file cf))) slots)
         @ concat (map (charge_module cf) slots)
         @ link_program nword (ch_xmit cf + 1) (ch_st2 cf), nword))"

interpretation charge_fem:
  configurable "ChargeFem_Configure P" "\<lambda>c. charge_read c \<noteq> None" "chargefem_get_config P" for P
  by unfold_locales (auto simp: ChargeFem_Configure_def Let_def split: option.splits)

lemmas charge_defs = charge_boot_def charge_module_def charge_adc1_def charge_adc2_def charge_adc_align_def
  charge_adc3_def charge_modes_def spi_address_def adc_load_def
lemmas link_defs = link_program_def pll_reset_def read_status_def link_reset_def

section \<open>Properties\<close>

text \<open>The data that a program sends to a register: slot, chip, command.\<close>

definition data_of :: "nat \<Rightarrow> nat \<Rightarrow> nat \<Rightarrow> hw_instr list \<Rightarrow> nat list" where
  "data_of m chip cmd is = map word_data
     (filter (\<lambda>w. word_module w = m \<and> word_chip w = chip \<and> word_command w = cmd) (cmds is))"

lemma data_of_append [simp]: "data_of m c k (is @ js) = data_of m c k is @ data_of m c k js"
  by (simp add: data_of_def)

lemma data_of_concat [simp]: "data_of m c k (concat iss) = concat (map (data_of m c k) iss)"
  by (simp add: data_of_def [abs_def] map_concat filter_concat o_def)

lemma data_of_Cons:
  "data_of m c k (i # is) = map word_data
     (filter (\<lambda>w. word_module w = m \<and> word_chip w = c \<and> word_command w = k) (instr_cmds i)) @ data_of m c k is"
  "data_of m c k [] = []"
  by (simp_all add: data_of_def)

lemma cmds_slots: "w \<in> set (cmds is) \<Longrightarrow> word_module w \<in> slots is"
proof (induction "is")
  case (Cons i "is")
  then show ?case by (cases i) auto
qed simp

lemma data_of_other: "m \<notin> slots is \<Longrightarrow> data_of m c k is = []"
  using cmds_slots [of _ "is"] by (auto simp: data_of_def filter_empty_conv)

text \<open>In a loop over distinct slots only one round addresses a given slot.\<close>

lemma data_of_loop:
  assumes "distinct sl" and "\<forall>m' \<in> set sl. 0 \<le> m' \<and> slots (f m') = {nat m'}" and "0 \<le> m"
  shows "data_of (nat m) c k (concat (map f sl)) = (if m \<in> set sl then data_of (nat m) c k (f m) else [])"
  using assms
proof (induction sl)
  case (Cons a sl)
  show ?case
  proof (cases "a = m")
    case True
    then have "data_of (nat m) c k (concat (map f sl)) = []" using Cons by simp
    then show ?thesis using True by simp
  next
    case False
    then have "nat m \<notin> slots (f a)" using Cons.prems by (simp add: eq_nat_nat_iff)
    then show ?thesis using False Cons by (simp add: data_of_other)
  qed
qed (simp add: data_of_def)

text \<open>The slots of a valid chain.\<close>

definition crate_ok :: "charge_cfg \<Rightarrow> bool" where
  "crate_ok cf \<longleftrightarrow> 0 \<le> ch_xmit cf \<and> ch_xmit cf < ch_tpc cf \<and> ch_tpc cf \<le> ch_st2 cf \<and> ch_st2 cf < 32"

lemma upto_0_7: "[0..7] = [0, 1, 2, 3, 4, 5, 6, 7 :: int]"
  by code_simp

lemma slots_charge_boot: "0 \<le> m \<Longrightarrow> m < 32 \<Longrightarrow> slots (charge_boot m bits) = {nat m}"
  by (simp add: charge_boot_def mb_consts cmd_word_decode)

lemma slots_charge_module: "0 \<le> m \<Longrightarrow> m < 32 \<Longrightarrow> slots (charge_module cf m) = {nat m}"
  by (simp add: charge_defs mb_consts cmd_word_decode upto_0_7 Let_def)

lemma slots_link_parts:
  assumes "0 \<le> m" "m < 32"
  shows "slots (pll_reset m) = {nat m}" "slots (read_status nw m) = {nat m}" "slots (link_reset m) = {nat m}"
  using assms by (simp_all add: link_defs mb_consts cmd_word_decode)

lemma slots_link_program:
  assumes "0 \<le> near" "near \<le> far" "far < 32"
  shows "slots (link_program nw near far) = nat ` {near..far}"
proof -
  have "\<forall>m \<in> {near..far}. slots (pll_reset m) = {nat m} \<and> slots (read_status nw m) = {nat m} \<and> slots (link_reset m) = {nat m}"
    using assms slots_link_parts by auto
  moreover have "word_module (cmd_word near 3 20 0) = nat near" using assms by (simp add: cmd_word_decode)
  ultimately show ?thesis using assms by (auto simp: link_program_def)
qed

text \<open>With the charge slots after the XMIT slot, the program addresses exactly the slots between the XMIT board
  and the last charge slot; firmware is loaded once into every charge slot, in order, and before any module
  is set up; no other command precedes the last download but power and configuration mode.\<close>
theorem ChargeFem_program:
  assumes "charge_read c = Some cf" and "crate_ok cf"
  shows "case ChargeFem_Configure P c nword of (r, is, nword') \<Rightarrow> r = Ret 0 \<and> nword' = 1
    \<and> slots is = nat ` {ch_xmit cf <.. ch_st2 cf}
    \<and> (\<exists>boot rest. is = boot @ rest
        \<and> filter (\<lambda>i. case i of Firmware _ _ _ \<Rightarrow> True | _ \<Rightarrow> False) boot
            = map (\<lambda>m. Firmware m 2 (bitfile P (ch_fw_file cf))) [ch_tpc cf..ch_st2 cf]
        \<and> filter (\<lambda>i. case i of Firmware _ _ _ \<Rightarrow> True | _ \<Rightarrow> False) rest = []
        \<and> (\<forall>w \<in> set (cmds boot). word_chip w = 1 \<and> word_command w = 1 \<or> word_chip w = 2 \<and> word_command w = 0))"
proof -
  let ?sl = "[ch_tpc cf..ch_st2 cf]" and ?bits = "bitfile P (ch_fw_file cf)"
  let ?fw = "\<lambda>i. case i of Firmware _ _ _ \<Rightarrow> True | _ \<Rightarrow> False"
  let ?boot = "concat (map (\<lambda>m. charge_boot m ?bits) ?sl)"
  let ?link = "link_program 1 (ch_xmit cf + 1) (ch_st2 cf)"
  let ?rest = "concat (map (charge_module cf) ?sl) @ ?link"
  have range: "0 \<le> m" "m < 32" if "m \<in> set ?sl" for m using assms(2) that by (auto simp: crate_ok_def)
  have conf: "ChargeFem_Configure P c nword = (Ret 0, ?boot @ ?rest, 1)"
    using assms by (simp add: ChargeFem_Configure_def Let_def crate_ok_def)
  have link: "slots ?link = nat ` {ch_xmit cf <.. ch_st2 cf}"
  proof -
    have "{ch_xmit cf + 1..ch_st2 cf} = {ch_xmit cf <.. ch_st2 cf}" by auto
    then show ?thesis
      using slots_link_program [of "ch_xmit cf + 1" "ch_st2 cf" 1] assms(2) by (simp add: crate_ok_def)
  qed
  have sl: "slots (?boot @ ?rest) = nat ` {ch_xmit cf <.. ch_st2 cf}"
  proof -
    have "slots ?boot = nat ` set ?sl" "slots (concat (map (charge_module cf) ?sl)) = nat ` set ?sl"
      using range slots_charge_boot slots_charge_module by auto
    moreover have "set ?sl \<subseteq> {ch_xmit cf <.. ch_st2 cf}" using assms(2) by (auto simp: crate_ok_def)
    ultimately show ?thesis using link by auto
  qed
  have fboot: "filter ?fw ?boot = map (\<lambda>m. Firmware m 2 ?bits) ?sl"
  proof -
    have "filter ?fw (charge_boot m ?bits) = [Firmware m 2 ?bits]" for m
      by (simp add: charge_boot_def mb_consts)
    then show ?thesis by (simp add: filter_concat o_def)
  qed
  have frest: "filter ?fw ?rest = []"
    by (simp add: filter_concat o_def charge_defs link_defs upto_0_7 Let_def)
  have "word_chip w = 1 \<and> word_command w = 1 \<or> word_chip w = 2 \<and> word_command w = 0" if w: "w \<in> set (cmds ?boot)" for w
  proof -
    obtain m where "m \<in> set ?sl" "w \<in> set (cmds (charge_boot m ?bits))" using w by auto
    then show ?thesis using range [of m] by (auto simp: charge_boot_def mb_consts cmd_word_decode)
  qed
  then have "\<exists>boot rest. ?boot @ ?rest = boot @ rest \<and> filter ?fw boot = map (\<lambda>m. Firmware m 2 ?bits) ?sl
      \<and> filter ?fw rest = []
      \<and> (\<forall>w \<in> set (cmds boot). word_chip w = 1 \<and> word_command w = 1 \<or> word_chip w = 2 \<and> word_command w = 0)"
    using fboot frest by (intro exI [of _ ?boot] exI [of _ ?rest]) simp
  then show ?thesis unfolding conf using sl by simp
qed

lemma data_of_link_program:
  assumes "0 \<le> near" "near \<le> far" "far < 32" and "(c, k) \<notin> {(4, 5), (3, 20), (4, 2), (4, 3)}"
  shows "data_of m c k (link_program nw near far) = []"
proof -
  have reg: "(word_chip w, word_command w) \<in> {(4, 5), (3, 20), (4, 2), (4, 3)}" if w: "w \<in> set (cmds (link_program nw near far))" for w
  proof -
    have "\<exists>m \<in> {near..far}. w \<in> {cmd_word m 4 mb_feb_pll_reset 0, cmd_word m 3 20 0, cmd_word m 4 mb_feb_rxreset 0,
        cmd_word m 4 mb_feb_align 0}"
      using w assms by (auto simp: link_defs)
    then obtain m where m: "m \<in> {near..far}" and "w \<in> {cmd_word m 4 mb_feb_pll_reset 0, cmd_word m 3 20 0,
        cmd_word m 4 mb_feb_rxreset 0, cmd_word m 4 mb_feb_align 0}" by (rule bexE)
    moreover have "0 \<le> m" "m < 32" using m assms by auto
    ultimately consider "w = cmd_word m 4 mb_feb_pll_reset 0" | "w = cmd_word m 3 20 0"
      | "w = cmd_word m 4 mb_feb_rxreset 0" | "w = cmd_word m 4 mb_feb_align 0" by blast
    then show ?thesis using \<open>0 \<le> m\<close> \<open>m < 32\<close> by cases (simp_all add: mb_consts cmd_word_decode)
  qed
  have "\<not> (word_chip w = c \<and> word_command w = k)" if "w \<in> set (cmds (link_program nw near far))" for w
    using reg [OF that] assms(4) by metis
  then show ?thesis unfolding data_of_def by (auto simp: filter_empty_conv)
qed

lemma charge_adc_data:
  assumes "0 \<le> m" "m < 32"
  shows "data_of (nat m) c k (spi_address m is) = (if c = 5 \<and> k = 2 then [nat ((is AND 0xf) mod 65536)] else [])"
    and "data_of (nat m) c k (adc_load m w) = (if c = 5 \<and> k = 3 then [0x300] else [])"
    and "data_of (nat m) c k (charge_adc_align m) = (if c = 3 \<and> k = 33 then [1] else if c = 3 \<and> k = 1 then [0] else [])"
  using assms by (simp_all add: data_of_Cons charge_defs mb_consts cmd_word_decode)

lemma charge_modes_data:
  assumes "0 \<le> m" "m < 32"
  shows "data_of (nat m) 3 5 (charge_modes cf m) = [nat (ch_drift_size cf mod 65536)]"
    and "data_of (nat m) 3 6 (charge_modes cf m) = []"
    and "data_of (nat m) 4 1 (charge_modes cf m) = (if m = ch_st1 cf then [0] else [])"
    and "data_of (nat m) 5 3 (charge_modes cf m) = []"
  using assms by (simp_all add: data_of_Cons charge_modes_def mb_consts cmd_word_decode Let_def)

lemma charge_passes_data:
  assumes "0 \<le> m" "m < 32"
  shows "data_of (nat m) c k (charge_adc1 m) = (if c = 5 \<and> k = 2 then [0, 0, 1, 1, 2, 2, 3, 3, 4, 4, 5, 5, 6, 6, 7, 7] else [])"
    and "c \<noteq> 5 \<or> k \<noteq> 2 \<Longrightarrow> data_of (nat m) c k (charge_adc2 m) = (if c = 5 \<and> k = 3 then replicate 16 0x300 else [])"
    and "c \<noteq> 5 \<or> k \<noteq> 2 \<Longrightarrow> data_of (nat m) c k (charge_adc3 m) = (if c = 5 \<and> k = 3 then replicate 16 0x300 else [])"
  using charge_adc_data [OF assms]
  by (simp_all add: charge_adc1_def charge_adc2_def charge_adc3_def data_of_Cons upto_0_7 Let_def numeral_eq_Suc)

lemma charge_module_data:
  assumes "0 \<le> m" "m < 32"
  shows "data_of (nat m) 3 5 (charge_module cf m) = [nat (ch_drift_size cf mod 65536)]"
    and "data_of (nat m) 3 6 (charge_module cf m) = [nat m]"
    and "data_of (nat m) 4 1 (charge_module cf m) = (if m = ch_st1 cf then [0] else [])"
    and "data_of (nat m) 5 3 (charge_module cf m) = replicate 32 0x300"
  using assms charge_passes_data [OF assms] charge_adc_data(3) [OF assms] charge_modes_data [OF assms]
  by (simp_all add: charge_module_def data_of_Cons mb_consts cmd_word_decode Let_def flip: replicate_add)

lemma ChargeFem_settings_facts:
  assumes "charge_read c = Some cf" and "crate_ok cf" and "ch_tpc cf \<le> m" "m \<le> ch_st2 cf"
  shows "case ChargeFem_Configure P c nword of (r, is, nword') \<Rightarrow>
      data_of (nat m) 3 6 is = [nat m]
    \<and> data_of (nat m) 3 5 is = [nat (ch_drift_size cf mod 65536)]
    \<and> data_of (nat m) 4 1 is = (if m = ch_st1 cf then [0] else [])
    \<and> data_of (nat m) 5 3 is = replicate 32 0x300
    \<and> length (filter (\<lambda>i. case i of Fill w _ \<Rightarrow> word_module w = nat m | _ \<Rightarrow> False) is) = 16"
proof -
  let ?sl = "[ch_tpc cf..ch_st2 cf]" and ?bits = "bitfile P (ch_fw_file cf)"
  let ?link = "link_program 1 (ch_xmit cf + 1) (ch_st2 cf)"
  have conf: "ChargeFem_Configure P c nword = (Ret 0, concat (map (\<lambda>m. charge_boot m ?bits) ?sl)
      @ concat (map (charge_module cf) ?sl) @ ?link, 1)"
    using assms by (simp add: ChargeFem_Configure_def Let_def crate_ok_def)
  have range: "0 \<le> m'" "m' < 32" if "m' \<in> set ?sl" for m' using assms(2) that by (auto simp: crate_ok_def)
  have m: "m \<in> set ?sl" "0 \<le> m" "m < 32" using assms range [of m] by auto
  have boot: "data_of (nat m) c k (concat (map (\<lambda>m. charge_boot m ?bits) ?sl)) = data_of (nat m) c k (charge_boot m ?bits)" for c k
    using data_of_loop [of ?sl "\<lambda>m. charge_boot m ?bits" m c k] m range slots_charge_boot by simp
  have modl: "data_of (nat m) c k (concat (map (charge_module cf) ?sl)) = data_of (nat m) c k (charge_module cf m)" for c k
    using data_of_loop [of ?sl "charge_module cf" m c k] m range slots_charge_module by simp
  have boot0: "data_of (nat m) c k (charge_boot m ?bits) = []" if "c \<ge> 3" for c k
    using m that by (auto simp: charge_boot_def data_of_Cons mb_consts cmd_word_decode)
  have link: "data_of (nat m) c k ?link = []" if "(c, k) \<notin> {(4, 5), (3, 20), (4, 2), (4, 3)}" for c k
    using data_of_link_program [OF _ _ _ that] assms(2) by (simp add: crate_ok_def)
  let ?fill = "\<lambda>i. case i of Fill w _ \<Rightarrow> word_module w = nat m | _ \<Rightarrow> False"
  have fill1: "filter ?fill (charge_module cf m') = (if m' = m then filter ?fill (charge_adc1 m) else [])"
    if "m' \<in> set ?sl" for m'
    using range [OF that] m by (simp add: charge_defs mb_consts cmd_word_decode upto_0_7 Let_def)
  have fills: "filter ?fill (concat (map (charge_module cf) sl)) = (if m \<in> set sl then filter ?fill (charge_adc1 m) else [])"
    if "set sl \<subseteq> set ?sl" "distinct sl" for sl
    using that by (induction sl) (auto simp: fill1)
  have fill0: "filter ?fill (concat (map (\<lambda>m. charge_boot m ?bits) ?sl)) = []" "filter ?fill ?link = []"
    by (simp_all add: filter_empty_conv charge_boot_def link_defs)
  have fill16: "length (filter ?fill (charge_adc1 m)) = 16"
    using m by (simp add: charge_defs mb_consts cmd_word_decode upto_0_7)
  have "length (filter ?fill (concat (map (\<lambda>m. charge_boot m ?bits) ?sl) @ concat (map (charge_module cf) ?sl) @ ?link)) = 16"
    using fills [of ?sl] m(1) fill0 fill16 by simp
  then show ?thesis
    unfolding conf using boot modl boot0 link charge_module_data [OF m(2,3)] by simp
qed

text \<open>C35: Every charge module receives its slot as module number once, the low 16 bits of the drift size as its
  time size once, and the last-module flag exactly when its slot is the last light slot.  Of the three passes
  over the eight ADCs only the last two load data: 32 loads, where the first pass prepares 16 more and sends
  none of them.\<close>
theorem ChargeFem_settings:
  assumes "charge_read c = Some cf" and "crate_ok cf" and "ch_tpc cf \<le> m" "m \<le> ch_st2 cf"
  shows "case ChargeFem_Configure P c nword of (r, is, nword') \<Rightarrow>
      data_of (nat m) 3 6 is = [nat m]
    \<and> data_of (nat m) 3 5 is = [nat (ch_drift_size cf mod 65536)]
    \<and> data_of (nat m) 4 1 is = (if m = ch_st1 cf then [0] else [])
    \<and> data_of (nat m) 5 3 is = replicate 32 0x300
    \<and> length (filter (\<lambda>i. case i of Fill w _ \<Rightarrow> word_module w = nat m | _ \<Rightarrow> False) is) = 16"
  by (rule ChargeFem_settings_facts [OF assms])

definition charge_json_cfg :: charge_cfg where
  "charge_json_cfg = \<lparr>ch_xmit = 11, ch_st1 = 16, ch_st2 = 15, ch_tpc = 13, ch_drift_size = 255,
     ch_fw_file = ''/home/pgrams/charge.rbf''\<rparr>"

lemma charge_read_crate: "charge_read crate_json = Some charge_json_cfg"
  by (simp add: charge_read_def crate_json_def cfg_defs charge_json_cfg_def)

theorem ChargeFem_program_witness:
  "case ChargeFem_Configure sample_params crate_json 0 of (r, is, nword') \<Rightarrow> slots is = nat ` {11 <.. 15}"
proof -
  have "crate_ok charge_json_cfg" by (simp add: crate_ok_def charge_json_cfg_def)
  from ChargeFem_program [OF charge_read_crate this, of sample_params 0] show ?thesis
    by (simp add: charge_json_cfg_def split: prod.splits)
qed

theorem ChargeFem_settings_witness:
  "case ChargeFem_Configure sample_params crate_json 0 of (r, is, nword') \<Rightarrow> data_of 14 3 5 is = [255]"
proof -
  have "crate_ok charge_json_cfg" by (simp add: crate_ok_def charge_json_cfg_def)
  from ChargeFem_settings [OF charge_read_crate this, of 14 sample_params 0] show ?thesis
    by (simp add: charge_json_cfg_def split: prod.splits)
qed

end
