(* ===== verification/Light_Fem.thy ===== *)
theory Light_Fem
  imports Charge_Fem
begin

text \<open>
  \<^verbatim>\<open>LightFem::Configure\<close> of \<^verbatim>\<open>src/hardware/light_fem.cpp\<close>: boot of the light module, the settings of every
  light channel, the trigger settings, the ADC alignment and the reset of the links.  The per-channel
  settings are read with \<^verbatim>\<open>vector::at\<close> outside the \<^verbatim>\<open>try\<close> block: a vector that is too short lets an exception
  escape in the middle of the program.
\<close>

section \<open>Settings\<close>

record light_cfg =
  li_st1 :: int
  li_st2 :: int
  li_pmt :: int
  li_mode :: int
  li_fw_file :: string
  li_words :: int
  li_deadtime :: "int list"
  li_thresh0 :: "int list"
  li_thresh2 :: int
  li_thresh1 :: "int list"
  li_thresh3 :: int
  li_gate_size :: int
  li_beam_size :: int
  li_cos_thres :: int
  li_cos_mult :: int
  li_beam_delay :: int
  li_delay_0 :: int
  li_delay_1 :: int
  li_precount :: "int list"
  li_width :: int
  li_window :: int
  li_michel_thres :: int
  li_michel_mult :: int
  li_beam_thres :: int
  li_beam_mult :: int
  li_en_top :: u32
  li_en_upper :: u32
  li_en_lower :: u32
  li_blocksize :: u32

definition light_read :: "json \<Rightarrow> light_cfg option" where
  "light_read c = do {
     imod_st1 \<leftarrow> cfg_int ''crate'' ''last_light_slot'' c;
     imod_st2 \<leftarrow> cfg_int ''crate'' ''last_charge_slot'' c;
     imod_pmt \<leftarrow> cfg_int ''crate'' ''light_fem_slot'' c;
     trig_src \<leftarrow> cfg_string ''trigger'' ''trigger_source'' c;
     data_basedir \<leftarrow> cfg_string ''hardware'' ''readout_basedir'' c;
     fpga_bitfile \<leftarrow> cfg_string ''light_fem'' ''fpga_bitfile'' c;
     pmt_words \<leftarrow> cfg_int ''light_fem'' ''sipm_words'' c;
     pmt_deadtime \<leftarrow> cfg_int_vec ''light_fem'' ''sipm_deadtime'' c;
     threshold0 \<leftarrow> cfg_int_vec ''light_fem'' ''channel_thresh0'' c;
     threshold2 \<leftarrow> cfg_int ''light_fem'' ''channel_thresh2'' c;
     threshold1 \<leftarrow> cfg_int_vec ''light_fem'' ''channel_thresh1'' c;
     threshold3 \<leftarrow> cfg_int ''light_fem'' ''channel_thresh3'' c;
     pmt_gate_size \<leftarrow> cfg_int ''light_fem'' ''pmt_gate_size'' c;
     pmt_beam_size \<leftarrow> cfg_int ''light_fem'' ''pmt_beam_size'' c;
     cos_thres \<leftarrow> cfg_int ''light_fem'' ''cosmic_summed_adc_thresh'' c;
     cos_mult \<leftarrow> cfg_int ''light_fem'' ''cosmic_multiplicity'' c;
     pmt_beam_delay \<leftarrow> cfg_int ''light_fem'' ''pmt_beam_delay'' c;
     pmt_delay_0 \<leftarrow> cfg_int ''light_fem'' ''pmt_delay_0'' c;
     pmt_delay_1 \<leftarrow> cfg_int ''light_fem'' ''pmt_delay_1'' c;
     pmt_precount \<leftarrow> cfg_int_vec ''light_fem'' ''pmt_precount'' c;
     pmt_width \<leftarrow> cfg_int ''light_fem'' ''pmt_width'' c;
     pmt_window \<leftarrow> cfg_int ''light_fem'' ''pmt_window'' c;
     michel_thres \<leftarrow> cfg_int ''light_fem'' ''michel_summed_adc_thresh'' c;
     michel_mult \<leftarrow> cfg_int ''light_fem'' ''michel_multiplicity'' c;
     beam_thres \<leftarrow> cfg_int ''light_fem'' ''beam_summed_adc_thresh'' c;
     beam_mult \<leftarrow> cfg_int ''light_fem'' ''beam_multiplicity'' c;
     en_top \<leftarrow> cfg_u32 ''light_fem'' ''pmt_enable_top'' c;
     en_upper \<leftarrow> cfg_u32 ''light_fem'' ''pmt_enable_middle'' c;
     en_lower \<leftarrow> cfg_u32 ''light_fem'' ''pmt_enable_lower'' c;
     pmt_blocksize \<leftarrow> cfg_u32 ''light_fem'' ''pmt_blocksize'' c;
     Some \<lparr>li_st1 = imod_st1, li_st2 = imod_st2, li_pmt = imod_pmt,
       li_mode = (if trig_src = ''external'' \<or> trig_src = ''software'' then 0 else 3),
       li_fw_file = data_basedir @ ''/'' @ fpga_bitfile, li_words = pmt_words, li_deadtime = pmt_deadtime,
       li_thresh0 = threshold0, li_thresh2 = threshold2, li_thresh1 = threshold1, li_thresh3 = threshold3,
       li_gate_size = pmt_gate_size, li_beam_size = pmt_beam_size, li_cos_thres = cos_thres,
       li_cos_mult = cos_mult, li_beam_delay = pmt_beam_delay, li_delay_0 = pmt_delay_0,
       li_delay_1 = pmt_delay_1, li_precount = pmt_precount, li_width = pmt_width, li_window = pmt_window,
       li_michel_thres = michel_thres, li_michel_mult = michel_mult, li_beam_thres = beam_thres,
       li_beam_mult = beam_mult, li_en_top = en_top, li_en_upper = en_upper, li_en_lower = en_lower,
       li_blocksize = pmt_blocksize\<rparr> }"

section \<open>The program\<close>

definition light_boot :: "int \<Rightarrow> u8 list \<Rightarrow> hw_instr list" where
  "light_boot imod bits =
     [Cmd (cmd_word imod 1 mb_feb_power_add 0), Sleep 200000,
      Cmd (cmd_word imod mb_feb_conf_add 0 0),
      Firmware imod mb_feb_conf_add bits,
      Cmd (cmd_word imod 3 31 1), Cmd (cmd_word imod 3 31 0), Sleep 5000,
      Cmd (cmd_word imod 3 6 imod),
      Rx 1 1, Cmd (cmd_word imod 3 20 0), Rx 2 1]"

text \<open>\<^verbatim>\<open>vector::at\<close>: \<^term>\<open>None\<close> is the exception.\<close>

definition vec_at :: "int list \<Rightarrow> nat \<Rightarrow> int option" where
  "vec_at xs i = (if i < length xs then Some (xs ! i) else None)"

definition light_channel :: "light_cfg \<Rightarrow> nat \<Rightarrow> hw_instr option list" where
  "light_channel cf ik = (let imod = li_pmt cf; send = (\<lambda>cmd v. Cmd (cmd_word imod 3 cmd v)) in
     [Some (send mb_feb_pmt_ch_set (int ik)), Some (Sleep 1000),
      Some (send mb_feb_pmt_delay0 (li_delay_0 cf)),
      Some (send mb_feb_pmt_delay1 (li_delay_1 cf)),
      map_option (send mb_feb_pmt_precount) (vec_at (li_precount cf) ik),
      map_option (send mb_feb_pmt_thresh0) (vec_at (li_thresh0 cf) ik),
      Some (send mb_feb_pmt_thresh3 (li_thresh3 cf)),
      map_option (send mb_feb_pmt_thresh1) (vec_at (li_thresh1 cf) ik),
      Some (send mb_feb_pmt_thresh2 (li_thresh2 cf)),
      Some (send mb_feb_pmt_words (li_words cf)),
      map_option (send mb_feb_pmt_deadtime) (vec_at (li_deadtime cf) ik),
      Some (send mb_feb_pmt_window (li_window cf)),
      Some (send mb_feb_pmt_width (li_width cf))])"

definition light_trigger :: "light_cfg \<Rightarrow> hw_instr list" where
  "light_trigger cf = (let imod = li_pmt cf; send = (\<lambda>cmd v. Cmd (cmd_word imod 3 cmd v)); a_id = 0x20 in
     [send mb_feb_pmt_cos_mul (li_cos_mult cf), send mb_feb_pmt_cos_thres (li_cos_thres cf),
      send mb_feb_pmt_mich_mul (li_michel_mult cf), send mb_feb_pmt_mich_thres (li_michel_thres cf),
      send mb_feb_pmt_beam_mul (li_beam_mult cf), send mb_feb_pmt_beam_thres (li_beam_thres cf),
      send mb_feb_pmt_en_top (uint (li_en_top cf)), send mb_feb_pmt_en_upper (uint (li_en_upper cf)),
      send mb_feb_pmt_en_lower (uint (li_en_lower cf)), send mb_feb_pmt_blocksize (uint (li_blocksize cf)),
      send mb_feb_pmt_gate_size (li_gate_size cf), send mb_feb_pmt_beam_delay (li_beam_delay cf),
      send mb_feb_pmt_beam_size (li_beam_size cf),
      send mb_feb_a_id a_id, send mb_feb_hold_enable 1])"

definition light_adc :: "int \<Rightarrow> hw_instr list" where
  "light_adc imod = (let adc = (\<lambda>cmd v. Cmd (cmd_word imod 5 cmd v)) in
     [adc mb_pmt_adc_reset 0, adc mb_pmt_adc_reset 1, adc mb_pmt_adc_reset 0,
      adc mb_pmt_spi_add 7, adc mb_pmt_adc_data_load 0xffff]
     @ concat (map (\<lambda>is. [adc mb_pmt_spi_add (is AND 0xf), adc mb_pmt_adc_data_load 0x0b00,
         adc mb_pmt_adc_data_load 0x1400]) [1..6])
     @ [Sleep 5000, Cmd (cmd_word imod 3 mb_feb_pmt_rxreset 1), Cmd (cmd_word imod 3 mb_feb_pmt_align_pulse 0), Sleep 5000]
     @ concat (map (\<lambda>is. [adc mb_pmt_spi_add (is AND 0xf), adc mb_pmt_adc_data_load 0x0300]) [1..6]))"

text \<open>The links of the light modules, the slots after the last charge slot.\<close>

definition light_links :: "light_cfg \<Rightarrow> hw_instr list" where
  "light_links cf = link_program 1 (li_st2 cf + 1) (li_st1 cf)"

text \<open>A program that stops at the first exception.\<close>

fun until_throw :: "'a option list \<Rightarrow> 'a list \<times> bool" where
  "until_throw [] = ([], True)"
| "until_throw (None # _) = ([], False)"
| "until_throw (Some x # xs) = (case until_throw xs of (ys, ok) \<Rightarrow> (x # ys, ok))"

definition LightFem_Configure :: "hw_params \<Rightarrow> json \<Rightarrow> 's \<Rightarrow> outcome \<times> hw_instr list \<times> 's" where
  "LightFem_Configure P c s = (case light_read c of
     None \<Rightarrow> (Ret (lightfem_get_config P), [], s)
   | Some cf \<Rightarrow>
       let boot = light_boot (li_pmt cf) (bitfile P (li_fw_file cf));
           (chans, ok) = until_throw (concat (map (light_channel cf) [0..<TOTAL_LIGHT_CHANNELS P])) in
       if \<not> ok then (Throw, boot @ chans, s)
       else (Ret 0, boot @ chans @ light_trigger cf @ light_adc (li_pmt cf)
              @ light_links cf, s))"

interpretation light_fem:
  configurable "LightFem_Configure P" "\<lambda>c. light_read c \<noteq> None" "lightfem_get_config P" for P
  by unfold_locales (auto simp: LightFem_Configure_def Let_def split: option.splits prod.splits)

section \<open>Properties\<close>

lemma until_throw_all: "None \<notin> set xs \<Longrightarrow> until_throw xs = (map the xs, True)"
proof (induction xs)
  case (Cons x xs)
  then show ?case by (cases x) auto
qed simp

lemma until_throw_snd: "snd (until_throw xs) \<longleftrightarrow> None \<notin> set xs"
proof (induction xs)
  case (Cons x xs)
  then show ?case by (cases x) (auto split: prod.splits)
qed simp

lemma until_throw_prefix: "prefix (map Some (fst (until_throw xs))) xs"
proof (induction xs)
  case (Cons x xs)
  then show ?case by (cases x) (auto split: prod.splits)
qed simp

text \<open>Every per-channel vector has an entry for every channel.\<close>

definition channels_ok :: "hw_params \<Rightarrow> light_cfg \<Rightarrow> bool" where
  "channels_ok P cf \<longleftrightarrow> (\<forall>xs \<in> {li_precount cf, li_thresh0 cf, li_thresh1 cf, li_deadtime cf}. TOTAL_LIGHT_CHANNELS P \<le> length xs)"

lemma light_channel_None:
  "None \<in> set (light_channel cf ik) \<longleftrightarrow>
     \<not> (ik < length (li_precount cf) \<and> ik < length (li_thresh0 cf) \<and> ik < length (li_thresh1 cf) \<and> ik < length (li_deadtime cf))"
proof -
  have "None = map_option f (vec_at xs ik) \<longleftrightarrow> \<not> ik < length xs" for f :: "int \<Rightarrow> hw_instr" and xs
    by (simp add: vec_at_def)
  then show ?thesis by (simp add: light_channel_def Let_def)
qed

lemma channels_ok_iff:
  "channels_ok P cf \<longleftrightarrow> None \<notin> set (concat (map (light_channel cf) [0..<TOTAL_LIGHT_CHANNELS P]))"
proof -
  define m where "m = min (min (length (li_precount cf)) (length (li_thresh0 cf))) (min (length (li_thresh1 cf)) (length (li_deadtime cf)))"
  have "channels_ok P cf \<longleftrightarrow> TOTAL_LIGHT_CHANNELS P \<le> m" by (auto simp: channels_ok_def m_def)
  also have "\<dots> \<longleftrightarrow> (\<forall>ik < TOTAL_LIGHT_CHANNELS P. ik < m)" by (meson leI less_le_trans not_less_iff_gr_or_eq)
  also have "\<dots> \<longleftrightarrow> (\<forall>ik < TOTAL_LIGHT_CHANNELS P. None \<notin> set (light_channel cf ik))"
    by (auto simp: light_channel_None m_def)
  finally show ?thesis by auto
qed

lemma LightFem_result:
  "light_read c = Some cf \<Longrightarrow> fst (LightFem_Configure P c s) = (if channels_ok P cf then Ret 0 else Throw)"
  using until_throw_snd [of "concat (map (light_channel cf) [0..<TOTAL_LIGHT_CHANNELS P])"]
  by (auto simp: LightFem_Configure_def Let_def channels_ok_iff split: prod.splits)

text \<open>A readable light configuration is applied (result 0) exactly when every per-channel vector has an entry for
  every light channel; otherwise an exception escapes from \<^verbatim>\<open>Configure\<close> after the module was powered and
  booted and part of the channels were set, and nothing after the channels is sent.  The error number is
  returned in neither case.\<close>
theorem LightFem_channels_exception:
  assumes "light_read c = Some cf"
  shows "case LightFem_Configure P c s of (r, is, s') \<Rightarrow>
      r = (if channels_ok P cf then Ret 0 else Throw)
    \<and> (\<not> channels_ok P cf \<longrightarrow> (\<exists>chans. is = light_boot (li_pmt cf) (bitfile P (li_fw_file cf)) @ chans
         \<and> strict_prefix (map Some chans) (concat (map (light_channel cf) [0..<TOTAL_LIGHT_CHANNELS P]))))"
proof -
  let ?ch = "concat (map (light_channel cf) [0..<TOTAL_LIGHT_CHANNELS P])"
  obtain chans ok where ut: "until_throw ?ch = (chans, ok)" by fastforce
  have ok: "ok \<longleftrightarrow> None \<notin> set ?ch" using until_throw_snd [of ?ch] ut by simp
  have pre: "prefix (map Some chans) ?ch" using until_throw_prefix [of ?ch] ut by simp
  have "strict_prefix (map Some chans) ?ch" if "\<not> ok"
  proof -
    have "map Some chans \<noteq> ?ch"
    proof
      assume "map Some chans = ?ch"
      then have "None \<in> set (map Some chans)" using that ok by simp
      then show False by auto
    qed
    then show ?thesis using pre by (simp add: strict_prefix_def)
  qed
  then show ?thesis
    using assms ut ok channels_ok_iff [of P cf] by (simp add: LightFem_Configure_def Let_def)
qed

lemma light_channel_the:
  assumes "channels_ok P cf" and "ik < TOTAL_LIGHT_CHANNELS P" and "0 \<le> li_pmt cf" "li_pmt cf < 32"
  shows "data_of (nat (li_pmt cf)) 3 50 (map the (light_channel cf ik)) = [nat (int ik mod 65536)]"
    and "data_of (nat (li_pmt cf)) 3 53 (map the (light_channel cf ik)) = [nat ((li_precount cf ! ik) mod 65536)]"
    and "data_of (nat (li_pmt cf)) 3 54 (map the (light_channel cf ik)) = [nat ((li_thresh0 cf ! ik) mod 65536)]"
    and "data_of (nat (li_pmt cf)) 3 55 (map the (light_channel cf ik)) = [nat ((li_thresh1 cf ! ik) mod 65536)]"
    and "data_of (nat (li_pmt cf)) 3 59 (map the (light_channel cf ik)) = [nat ((li_deadtime cf ! ik) mod 65536)]"
    and "slots (map the (light_channel cf ik)) = {nat (li_pmt cf)}"
proof -
  have "ik < length (li_precount cf)" "ik < length (li_thresh0 cf)" "ik < length (li_thresh1 cf)"
    "ik < length (li_deadtime cf)" using assms(1,2) by (auto simp: channels_ok_def)
  then show "data_of (nat (li_pmt cf)) 3 50 (map the (light_channel cf ik)) = [nat (int ik mod 65536)]"
    and "data_of (nat (li_pmt cf)) 3 53 (map the (light_channel cf ik)) = [nat ((li_precount cf ! ik) mod 65536)]"
    and "data_of (nat (li_pmt cf)) 3 54 (map the (light_channel cf ik)) = [nat ((li_thresh0 cf ! ik) mod 65536)]"
    and "data_of (nat (li_pmt cf)) 3 55 (map the (light_channel cf ik)) = [nat ((li_thresh1 cf ! ik) mod 65536)]"
    and "data_of (nat (li_pmt cf)) 3 59 (map the (light_channel cf ik)) = [nat ((li_deadtime cf ! ik) mod 65536)]"
    and "slots (map the (light_channel cf ik)) = {nat (li_pmt cf)}"
    using assms(3,4)
    by (simp_all add: light_channel_def Let_def vec_at_def data_of_Cons mb_consts cmd_word_decode)
qed

lemma upto_1_6: "[1..6] = [1, 2, 3, 4, 5, 6 :: int]"
  by code_simp

lemma light_fixed_data:
  assumes "0 \<le> li_pmt cf" "li_pmt cf < 32" and "k \<in> {50, 53, 54, 55, 59}"
  shows "data_of (nat (li_pmt cf)) 3 k (light_boot (li_pmt cf) bits) = []"
    and "data_of (nat (li_pmt cf)) 3 k (light_trigger cf) = []"
    and "data_of (nat (li_pmt cf)) 3 k (light_adc (li_pmt cf)) = []"
proof -
  have k: "k \<noteq> 31" "k \<noteq> 6" "k \<noteq> 20" "k \<noteq> 84" "k \<noteq> 85" "k \<noteq> 7" "k \<noteq> 42"
      "k \<noteq> 62" "k \<noteq> 63" "k \<noteq> 64" "k \<noteq> 65" "k \<noteq> 66" "k \<noteq> 67" "k \<noteq> 68" "k \<noteq> 69" "k \<noteq> 70" "k \<noteq> 71"
      "k \<noteq> 47" "k \<noteq> 48" "k \<noteq> 49" using assms(3) by auto
  show "data_of (nat (li_pmt cf)) 3 k (light_boot (li_pmt cf) bits) = []"
    using assms(1,2) k by (simp add: light_boot_def data_of_Cons mb_consts cmd_word_decode)
  show "data_of (nat (li_pmt cf)) 3 k (light_trigger cf) = []"
    using assms(1,2) k by (simp add: light_trigger_def Let_def data_of_Cons mb_consts cmd_word_decode)
  show "data_of (nat (li_pmt cf)) 3 k (light_adc (li_pmt cf)) = []"
    using assms(1,2) k by (simp add: light_adc_def Let_def data_of_Cons mb_consts cmd_word_decode upto_1_6)
qed

lemma light_fixed_slots:
  assumes "0 \<le> li_pmt cf" "li_pmt cf < 32"
  shows "slots (light_boot (li_pmt cf) bits) = {nat (li_pmt cf)}" and "slots (light_trigger cf) = {nat (li_pmt cf)}"
    and "slots (light_adc (li_pmt cf)) = {nat (li_pmt cf)}"
  using assms by (simp_all add: light_boot_def light_trigger_def light_adc_def Let_def mb_consts cmd_word_decode upto_1_6)

text \<open>With complete vectors and slots within the crate, the program addresses the light slot and the slots
  between the last charge and the last light slot; the channel register receives the channel numbers
  0, 1, and so on, and the precount, the two thresholds and the dead time registers receive the entries of
  their vectors in the same order, each cut to 16 bits.\<close>
theorem LightFem_channel_settings:
  assumes "light_read c = Some cf" and "channels_ok P cf" and "0 \<le> li_pmt cf" "li_pmt cf < 32"
    and "0 \<le> li_st2 cf" "li_st2 cf < li_st1 cf" "li_st1 cf < 32"
  shows "case LightFem_Configure P c s of (r, is, s') \<Rightarrow>
      slots is = {nat (li_pmt cf)} \<union> nat ` {li_st2 cf <.. li_st1 cf}
    \<and> data_of (nat (li_pmt cf)) 3 50 is = map (\<lambda>ik. nat (int ik mod 65536)) [0..<TOTAL_LIGHT_CHANNELS P]
    \<and> (\<forall>(reg, xs) \<in> {(53, li_precount cf), (54, li_thresh0 cf), (55, li_thresh1 cf), (59, li_deadtime cf)}.
         data_of (nat (li_pmt cf)) 3 reg is = map (\<lambda>ik. nat (xs ! ik mod 65536)) [0..<TOTAL_LIGHT_CHANNELS P])"
proof -
  let ?N = "[0..<TOTAL_LIGHT_CHANNELS P]" and ?m = "nat (li_pmt cf)"
  let ?ch = "concat (map (\<lambda>ik. map the (light_channel cf ik)) ?N)"
  let ?boot = "light_boot (li_pmt cf) (bitfile P (li_fw_file cf))"
  let ?link = "link_program 1 (li_st2 cf + 1) (li_st1 cf)"
  have "until_throw (concat (map (light_channel cf) ?N)) = (?ch, True)"
    using until_throw_all [of "concat (map (light_channel cf) ?N)"] channels_ok_iff [of P cf] assms(2)
    by (simp add: map_concat o_def)
  then have conf: "LightFem_Configure P c s = (Ret 0, ?boot @ ?ch @ light_trigger cf @ light_adc (li_pmt cf) @ ?link, s)"
    using assms(1) by (simp add: LightFem_Configure_def light_links_def)
  have link: "slots ?link = nat ` {li_st2 cf <.. li_st1 cf}"
  proof -
    have "{li_st2 cf + 1..li_st1 cf} = {li_st2 cf <.. li_st1 cf}" by auto
    then show ?thesis using slots_link_program [of "li_st2 cf + 1" "li_st1 cf" 1] assms by simp
  qed
  have chs: "slots ?ch \<subseteq> {?m}" using light_channel_the(6) [OF assms(2) _ assms(3,4)] by auto
  have data: "data_of ?m 3 k (?boot @ ?ch @ light_trigger cf @ light_adc (li_pmt cf) @ ?link)
      = concat (map (\<lambda>ik. data_of ?m 3 k (map the (light_channel cf ik))) ?N)" if "k \<in> {50, 53, 54, 55, 59}" for k
  proof -
    have "data_of ?m 3 k ?link = []"
      by (rule data_of_link_program) (use assms that in auto)
    then show ?thesis using light_fixed_data [OF assms(3,4) that] by (simp add: o_def)
  qed
  have regs: "concat (map (\<lambda>ik. data_of ?m 3 k (map the (light_channel cf ik))) ?N) = map g ?N"
    if "\<And>ik. ik < TOTAL_LIGHT_CHANNELS P \<Longrightarrow> data_of ?m 3 k (map the (light_channel cf ik)) = [g ik]" for k g
  proof -
    have "map (\<lambda>ik. data_of ?m 3 k (map the (light_channel cf ik))) ?N = map (\<lambda>ik. [g ik]) ?N" using that by simp
    then show ?thesis by (metis concat_map_singleton)
  qed
  note the = light_channel_the [OF assms(2) _ assms(3,4)]
  have "slots (?boot @ ?ch @ light_trigger cf @ light_adc (li_pmt cf) @ ?link) = {?m} \<union> nat ` {li_st2 cf <.. li_st1 cf}"
    using light_fixed_slots [OF assms(3,4)] link chs by auto
  then show ?thesis
    unfolding conf using data [of 50] data [of 53] data [of 54] data [of 55] data [of 59]
      regs [OF the(1)] regs [OF the(2)] regs [OF the(3)] regs [OF the(4)] regs [OF the(5)] by simp
qed

definition light_json :: "json \<Rightarrow> json" where
  "light_json thresh0 = JObject [(''crate'', JObject [(''last_light_slot'', JInt 16), (''last_charge_slot'', JInt 15),
     (''light_fem_slot'', JInt 16)]),
     (''trigger'', JObject [(''trigger_source'', JString ''light'')]),
     (''hardware'', JObject [(''readout_basedir'', JString ''/home/pgrams'')]),
     (''light_fem'', JObject ([(''fpga_bitfile'', JString ''light.rbf''),
        (''sipm_deadtime'', JArray [JInt 1, JInt 2, JInt 3]), (''channel_thresh0'', thresh0),
        (''channel_thresh1'', JArray [JInt 7, JInt 8, JInt 9]), (''pmt_precount'', JArray [JInt 2, JInt 2, JInt 2])]
      @ map (\<lambda>k. (k, JInt 1)) [''sipm_words'', ''channel_thresh2'', ''channel_thresh3'', ''pmt_gate_size'',
         ''pmt_beam_size'', ''cosmic_summed_adc_thresh'', ''cosmic_multiplicity'', ''pmt_beam_delay'', ''pmt_delay_0'',
         ''pmt_delay_1'', ''pmt_width'', ''pmt_window'', ''michel_summed_adc_thresh'', ''michel_multiplicity'',
         ''beam_summed_adc_thresh'', ''beam_multiplicity'', ''pmt_enable_top'', ''pmt_enable_middle'',
         ''pmt_enable_lower'', ''pmt_blocksize'']))]"

definition light_json_cfg :: "int list \<Rightarrow> light_cfg" where
  "light_json_cfg thresh0 = \<lparr>li_st1 = 16, li_st2 = 15, li_pmt = 16, li_mode = 3, li_fw_file = ''/home/pgrams/light.rbf'',
     li_words = 1, li_deadtime = [1, 2, 3], li_thresh0 = thresh0, li_thresh2 = 1, li_thresh1 = [7, 8, 9],
     li_thresh3 = 1, li_gate_size = 1, li_beam_size = 1, li_cos_thres = 1, li_cos_mult = 1, li_beam_delay = 1,
     li_delay_0 = 1, li_delay_1 = 1, li_precount = [2, 2, 2], li_width = 1, li_window = 1,
     li_michel_thres = 1, li_michel_mult = 1, li_beam_thres = 1, li_beam_mult = 1, li_en_top = 1,
     li_en_upper = 1, li_en_lower = 1, li_blocksize = 1\<rparr>"

lemma light_read_json:
  assumes "get_int_vec thresh0 = Some xs"
  shows "light_read (light_json thresh0) = Some (light_json_cfg xs)"
  using assms by (simp add: light_read_def light_json_def cfg_defs light_json_cfg_def int32_def)

theorem LightFem_channels_exception_witness:
  "case LightFem_Configure sample_params (light_json (JArray [JInt 4, JInt 5])) () of (r, is, s') \<Rightarrow> r = Throw"
proof -
  have "get_int_vec (JArray [JInt 4, JInt 5]) = Some [4, 5]" by simp
  from LightFem_channels_exception [OF light_read_json [OF this], of sample_params "()"] show ?thesis
    by (simp add: channels_ok_def light_json_cfg_def sample_params_def split: prod.splits)
qed

theorem LightFem_channel_settings_witness:
  "case LightFem_Configure sample_params (light_json (JArray [JInt 4, JInt 5, JInt 6])) () of (r, is, s') \<Rightarrow>
     data_of 16 3 54 is = [4, 5, 6]"
proof -
  have "get_int_vec (JArray [JInt 4, JInt 5, JInt 6]) = Some [4, 5, 6]" by simp
  moreover have "channels_ok sample_params (light_json_cfg [4, 5, 6])"
    by (simp add: channels_ok_def light_json_cfg_def sample_params_def)
  ultimately show ?thesis
    using LightFem_channel_settings [OF light_read_json, of "JArray [JInt 4, JInt 5, JInt 6]" "[4, 5, 6]" sample_params "()"]
    by (simp add: light_json_cfg_def sample_params_def numeral_3_eq_3 split: prod.splits)
qed

end
