(* ===== verification/Trigger_Control.thy ===== *)
theory Trigger_Control
  imports Light_Fem
begin

text \<open>
  \<^verbatim>\<open>src/hardware/trigger_control.cpp\<close>: the setup of the trigger board, and the commands that start and stop the
  trigger of a run.
\<close>

section \<open>State\<close>

text \<open>The members, and the function-local statics: \<^verbatim>\<open>mask1\<close> and \<^verbatim>\<open>mask8\<close> are initialized by the first call that
  reaches them and never again; \<^verbatim>\<open>itrig_delay\<close> is zero-initialized and never assigned.\<close>

record trig =
  software_trigger_rate_m :: int
  trigger_module_m :: int
  prescale_vec :: "u32 list"
  ext_trig_m :: bool
  light_trig_m :: bool
  software_trig_m :: bool
  trig_is_running :: bool
  static_masks :: "(int \<times> int) option"

text \<open>The \<^verbatim>\<open>try\<close> block assigns the members one after the other; the first failure keeps what was assigned.  The
  result is the frame length, the dead time and the trigger source.\<close>

definition trigger_read :: "json \<Rightarrow> trig \<Rightarrow> (int \<times> int \<times> string) option \<times> trig" where
  "trigger_read c t =
     (case cfg_int ''trigger'' ''software_trigger_rate_hz'' c of None \<Rightarrow> (None, t) | Some rate \<Rightarrow>
      let t = t\<lparr>software_trigger_rate_m := rate\<rparr> in
      case cfg_int ''crate'' ''trig_slot'' c of None \<Rightarrow> (None, t) | Some slot \<Rightarrow>
      let t = t\<lparr>trigger_module_m := slot\<rparr> in
      case cfg_int ''readout_windows'' ''drift_size'' c of None \<Rightarrow> (None, t) | Some drift_size \<Rightarrow>
      case cfg_int ''trigger'' ''dead_time'' c of None \<Rightarrow> (None, t) | Some tpc_dead_time \<Rightarrow>
      case cfg_string ''trigger'' ''trigger_source'' c of None \<Rightarrow> (None, t) | Some trig_src \<Rightarrow>
      case cfg_u32_vec ''trigger'' ''prescale'' c of None \<Rightarrow> (None, t) | Some prescale \<Rightarrow>
      (Some ((drift_size + 1) * 8 - 1, tpc_dead_time, trig_src), t\<lparr>prescale_vec := prescale\<rparr>))"

definition set_source :: "string \<Rightarrow> trig \<Rightarrow> trig" where
  "set_source trig_src t = t\<lparr>ext_trig_m := trig_src = ''external'', light_trig_m := trig_src = ''light'',
     software_trig_m := trig_src = ''software'',
     static_masks := (case static_masks t of Some m \<Rightarrow> Some m
       | None \<Rightarrow> Some (if trig_src = ''light'' then 8 else 0, if trig_src = ''external'' then 2 else 0))\<rparr>"

section \<open>The program\<close>

definition trigger_setup :: "int \<Rightarrow> int \<Rightarrow> int \<Rightarrow> hw_instr list" where
  "trigger_setup tm iframe_length tpc_dead_time = (let itrig_delay = 0 in
     [Cmd (cmd_word 0 1 mb_cntrl_test_on 0),
      Cmd (cmd_word tm 0 mb_trig_run 0),
      Cmd (cmd_word tm 0 mb_trig_deadtime_size (tpc_dead_time AND 0x7fff)),
      Cmd (cmd_word 0 1 mb_cntrl_test_off 0),
      Cmd (cmd_word tm 0 mb_trig_frame_size (iframe_length AND 0xffff)),
      Cmd (cmd_word 0 1 mb_cntrl_load_trig_pos (itrig_delay AND 0xffff)),
      Cmd (cmd_word 0 0 mb_trig_delay1_size 0),
      Cmd (cmd_word 0 0 mb_trig_delay2_size 0)])"

definition trigger_prescales :: "int \<Rightarrow> u32 list \<Rightarrow> hw_instr list" where
  "trigger_prescales tm ps = concat (map (\<lambda>t. [Cmd (cmd_word tm 0 (of_nat t + mb_trig_prescale0) (uint (ps ! t))), Sleep 1000])
     [0..<length ps])"

definition trigger_masks :: "trig \<Rightarrow> hw_instr list" where
  "trigger_masks t = (let tm = trigger_module_m t; (mask1, mask8) = the (static_masks t) in
     if light_trig_m t
     then [Cmd (cmd_word tm 0 mb_trig_mask1 (mask1 AND 0xF)), Cmd (cmd_word tm 0 mb_trig_mask8 (mask8 AND 0xFF))]
     else if ext_trig_m t then [Cmd (cmd_word tm 0 mb_trig_mask8 0x4A)]
     else if software_trig_m t then [Cmd (cmd_word tm 0 mb_trig_mask1 0), Cmd (cmd_word tm 0 mb_trig_mask8 8)]
     else [])"

definition TriggerControl_Configure :: "hw_params \<Rightarrow> json \<Rightarrow> trig \<Rightarrow> outcome \<times> hw_instr list \<times> trig" where
  "TriggerControl_Configure P c t = (case trigger_read c t of
     (None, t) \<Rightarrow> (Ret (trigger_get_config P), [], t)
   | (Some (iframe_length, tpc_dead_time, trig_src), t) \<Rightarrow>
       let t = set_source trig_src t; tm = trigger_module_m t in
       (Ret 0, trigger_setup tm iframe_length tpc_dead_time @ trigger_prescales tm (prescale_vec t) @ trigger_masks t, t))"

section \<open>Start and stop\<close>

definition SendStartTrigger :: "int \<Rightarrow> int \<Rightarrow> int \<Rightarrow> hw_op list" where
  "SendStartTrigger itrig_c itrig_ext trigger_module =
     (if itrig_c = 1 then [send1 (cmd_word trigger_module 0 mb_trig_run 1)]
      else if itrig_ext = 1 then [send1 (cmd_word trigger_module 0 mb_trig_run 1)]
      else [send1 (cmd_word 0 1 mb_cntrl_set_trig1 0), Usleep 5000])"

definition SendStopTrigger :: "int \<Rightarrow> int \<Rightarrow> int \<Rightarrow> hw_op list" where
  "SendStopTrigger itrig_c itrig_ext trigger_module =
     (if itrig_c = 1 then [send1 (cmd_word trigger_module 0 mb_trig_run 0)]
      else if itrig_ext = 1 then [send1 (cmd_word trigger_module 0 mb_trig_run 0)]
      else [])"

definition StopTrigger :: "bool \<Rightarrow> trig \<Rightarrow> trig" where
  "StopTrigger stop_trigger t = t\<lparr>trig_is_running := \<not> stop_trigger\<rparr>"

text \<open>The software trigger loop; \<^verbatim>\<open>obs\<close> are the successive values of \<^verbatim>\<open>is_running_\<close> that its condition reads,
  \<^verbatim>\<open>sleep_us\<close> the length of a period.\<close>

definition SendSoftwareTrigger :: "nat \<Rightarrow> int \<Rightarrow> bool list \<Rightarrow> hw_op list" where
  "SendSoftwareTrigger sleep_us trigger_module obs =
     concat (map (\<lambda>_. [Usleep sleep_us, send1 (cmd_word trigger_module 0 mb_trig_pctrig 0)]) (takeWhile id obs))"

interpretation trigger_control:
  configurable "TriggerControl_Configure P" "\<lambda>c. \<forall>t. fst (trigger_read c t) \<noteq> None" "trigger_get_config P" for P
proof (unfold_locales, goal_cases)
  case (1 c s)
  then obtain t where "fst (trigger_read c t) = None" by blast
  then have "fst (trigger_read c s) = None"
    by (simp add: trigger_read_def Let_def split: option.splits)
  then show ?case by (auto simp: TriggerControl_Configure_def split: prod.splits option.splits)
next
  case (2 c s)
  then have "fst (trigger_read c s) \<noteq> None" by blast
  then show ?case by (auto simp: TriggerControl_Configure_def Let_def split: prod.splits option.splits)
qed

section \<open>Properties\<close>

lemma trigger_setup_data:
  assumes "0 \<le> tm" "tm < 32"
  shows "data_of (nat tm) 0 k (trigger_setup tm fl dt) =
    (if k = 1 then [0] else if k = 2 then [nat (fl mod 65536)] else if k = 3 then [nat (dt mod 32768)]
     else if (k = 5 \<or> k = 6) \<and> tm = 0 then [0] else [])"
proof -
  have "fl AND 0xffff = fl mod 65536" "dt AND 0x7fff = dt mod 32768"
    using take_bit_eq_mask [of 16 fl] take_bit_eq_mask [of 15 dt] by (simp_all add: mask_eq_exp_minus_1 take_bit_eq_mod)
  moreover have "dt mod 32768 mod 65536 = dt mod 32768" by (rule mod_pos_pos_trivial) (auto intro: order_less_le_trans [OF pos_mod_bound])
  ultimately show ?thesis
    using assms by (auto simp: trigger_setup_def Let_def data_of_Cons mb_consts cmd_word_decode)
qed

lemma trigger_prescales_data:
  assumes "0 \<le> tm" "tm < 32" and "length ps \<le> 9"
  shows "data_of (nat tm) 0 k (trigger_prescales tm ps) =
    (if 10 \<le> k \<and> k < 10 + length ps then [nat (uint (ps ! (k - 10)) mod 65536)] else [])"
proof -
  let ?f = "\<lambda>t. data_of (nat tm) 0 k [Cmd (cmd_word tm 0 (of_nat t + mb_trig_prescale0) (uint (ps ! t))), Sleep 1000]"
  have f: "?f t = (if k = t + 10 then [nat (uint (ps ! t) mod 65536)] else [])" if "t < 9" for t
  proof -
    have "unat (of_nat t + 10 :: u32) = t + 10" using that by (simp add: unat_word_ariths unat_of_nat)
    then show ?thesis using assms that by (auto simp: data_of_Cons mb_consts cmd_word_decode)
  qed
  have "concat (map ?f [0..<n]) = (if 10 \<le> k \<and> k < 10 + n then [nat (uint (ps ! (k - 10)) mod 65536)] else [])"
    if "n \<le> 9" for n
    using that by (induction n) (auto simp: f)
  then show ?thesis using assms(3) by (simp add: trigger_prescales_def o_def)
qed

lemma trigger_read_slot:
  assumes "trigger_read c t = (Some (fl, dt, src), t')"
  shows "cfg_int ''crate'' ''trig_slot'' c = Some (trigger_module_m t')"
    and "\<exists>d. cfg_int ''readout_windows'' ''drift_size'' c = Some d \<and> fl = (d + 1) * 8 - 1"
    and "cfg_string ''trigger'' ''trigger_source'' c = Some src" and "static_masks t' = static_masks t"
  using assms by (auto simp: trigger_read_def Let_def split: option.splits)

text \<open>The mask registers that the trigger source asks for: \<^verbatim>\<open>mask1\<close> and \<^verbatim>\<open>mask8\<close>.\<close>

definition masks_of :: "string \<Rightarrow> string \<Rightarrow> nat list \<times> nat list" where
  "masks_of first_src src =
     (if src = ''light'' then ([if first_src = ''light'' then 8 else 0], [if first_src = ''external'' then 2 else 0])
      else if src = ''external'' then ([], [74])
      else if src = ''software'' then ([0], [8]) else ([], []))"

definition static_source :: "trig \<Rightarrow> string \<Rightarrow> bool" where
  "static_source t src \<longleftrightarrow> static_masks t = Some (if src = ''light'' then 8 else 0, if src = ''external'' then 2 else 0)"

lemma trigger_masks_data:
  assumes "0 \<le> trigger_module_m t" "trigger_module_m t < 32" and "static_source (set_source src t) first_src"
  shows "data_of (nat (trigger_module_m t)) 0 21 (trigger_masks (set_source src t)) = fst (masks_of first_src src)"
    and "data_of (nat (trigger_module_m t)) 0 28 (trigger_masks (set_source src t)) = snd (masks_of first_src src)"
    and "k \<noteq> 21 \<Longrightarrow> k \<noteq> 28 \<Longrightarrow> data_of (nat (trigger_module_m t)) 0 k (trigger_masks (set_source src t)) = []"
  using assms
  by (auto simp: trigger_masks_def set_source_def static_source_def masks_of_def data_of_Cons mb_consts cmd_word_decode Let_def)

lemma set_source_fields [simp]:
  "trigger_module_m (set_source src t) = trigger_module_m t" "prescale_vec (set_source src t) = prescale_vec t"
  by (simp_all add: set_source_def)

lemma TriggerControl_settings_facts:
  assumes "trigger_read c t = (Some (fl, dt, src), t')" and "cfg_int ''readout_windows'' ''drift_size'' c = Some d"
    and "0 \<le> trigger_module_m t'" "trigger_module_m t' < 32" and "length (prescale_vec t') \<le> 9"
    and "static_masks t = None \<and> first_src = src \<or> static_source t first_src"
  shows "case TriggerControl_Configure P c t of (r, is, t'') \<Rightarrow> let tm = nat (trigger_module_m t') in
      r = Ret 0 \<and> static_source t'' first_src
    \<and> data_of tm 0 1 is = [0] \<and> data_of tm 0 2 is = [nat ((8 * d + 7) mod 65536)]
    \<and> (\<forall>k < length (prescale_vec t'). data_of tm 0 (10 + k) is = [nat (uint (prescale_vec t' ! k) mod 65536)])
    \<and> (data_of tm 0 21 is, data_of tm 0 28 is) = masks_of first_src src"
proof -
  let ?s = "set_source src t'" and ?tm = "trigger_module_m t'"
  let ?set = "trigger_setup ?tm fl dt" and ?pre = "trigger_prescales ?tm (prescale_vec t')"
  have conf: "TriggerControl_Configure P c t = (Ret 0, ?set @ ?pre @ trigger_masks ?s, ?s)"
    using assms(1) by (simp add: TriggerControl_Configure_def Let_def)
  have ss: "static_source ?s first_src"
    using assms(6) trigger_read_slot(4) [OF assms(1)] by (auto simp: static_source_def set_source_def)
  have fl: "fl = 8 * d + 7" using trigger_read_slot(2) [OF assms(1)] assms(2) by simp
  note set = trigger_setup_data [OF assms(3,4)]
    and pre = trigger_prescales_data [OF assms(3-5)]
    and masks = trigger_masks_data [OF assms(3,4) ss]
  have "data_of (nat ?tm) 0 1 (?set @ ?pre @ trigger_masks ?s) = [0]"
    and "data_of (nat ?tm) 0 2 (?set @ ?pre @ trigger_masks ?s) = [nat ((8 * d + 7) mod 65536)]"
    and "data_of (nat ?tm) 0 21 (?set @ ?pre @ trigger_masks ?s) = fst (masks_of first_src src)"
    and "data_of (nat ?tm) 0 28 (?set @ ?pre @ trigger_masks ?s) = snd (masks_of first_src src)"
    using set pre masks fl assms(5) by simp_all
  moreover have "data_of (nat ?tm) 0 (10 + k) (?set @ ?pre @ trigger_masks ?s) = [nat (uint (prescale_vec t' ! k) mod 65536)]"
    if "k < length (prescale_vec t')" for k
    using set pre masks(3) [of "10 + k"] that assms(5) by simp
  ultimately show ?thesis unfolding conf Let_def using ss by simp
qed

text \<open>C37: With the trigger board in slots 0 to 31 and at most nine prescales, a readable configuration switches the
  run off, sets the frame size to the low 16 bits of eight times the drift size plus seven, sends prescale
  number k to its own register 10 + k, and sets the masks of the trigger source; but the two masks of the
  light trigger are those of the source of the first configuration of the process.\<close>
theorem TriggerControl_settings:
  assumes "trigger_read c t = (Some (fl, dt, src), t')" and "cfg_int ''readout_windows'' ''drift_size'' c = Some d"
    and "0 \<le> trigger_module_m t'" "trigger_module_m t' < 32" and "length (prescale_vec t') \<le> 9"
    and "static_masks t = None \<and> first_src = src \<or> static_source t first_src"
  shows "case TriggerControl_Configure P c t of (r, is, t'') \<Rightarrow> let tm = nat (trigger_module_m t') in
      r = Ret 0 \<and> static_source t'' first_src
    \<and> data_of tm 0 1 is = [0] \<and> data_of tm 0 2 is = [nat ((8 * d + 7) mod 65536)]
    \<and> (\<forall>k < length (prescale_vec t'). data_of tm 0 (10 + k) is = [nat (uint (prescale_vec t' ! k) mod 65536)])
    \<and> (data_of tm 0 21 is, data_of tm 0 28 is) = masks_of first_src src"
  by (rule TriggerControl_settings_facts [OF assms])

text \<open>Reconfiguring from another source to the light trigger within one process leaves the light trigger masked
  off: \<^verbatim>\<open>mask1\<close> is sent as 0, where the same configuration in a fresh process sends 8.\<close>
theorem TriggerControl_light_mask_stale:
  assumes "static_masks t = None"
    and "trigger_read c1 t = (Some (fl1, dt1, src1), t1)" and "src1 \<noteq> ''light''"
    and "trigger_read c2 (snd (snd (TriggerControl_Configure P c1 t))) = (Some (fl2, dt2, ''light''), t2)"
    and "0 \<le> trigger_module_m t2" "trigger_module_m t2 < 32" and "length (prescale_vec t2) \<le> 9"
  shows "data_of (nat (trigger_module_m t2)) 0 21
      (fst (snd (TriggerControl_Configure P c2 (snd (snd (TriggerControl_Configure P c1 t)))))) = [0]
    \<and> data_of (nat (trigger_module_m t2)) 0 21 (fst (snd (TriggerControl_Configure P c2 t))) = [8]"
proof -
  let ?t1 = "snd (snd (TriggerControl_Configure P c1 t))"
  have s1: "static_source ?t1 src1"
    using assms(1,2) trigger_read_slot(4) [OF assms(2)]
    by (simp add: TriggerControl_Configure_def Let_def static_source_def set_source_def)
  have use: "data_of (nat (trigger_module_m t2)) 0 21 (fst (snd (TriggerControl_Configure P c2 t0))) = fst (masks_of f ''light'')"
    if "trigger_read c2 t0 = (Some (fl2, dt2, ''light''), t0')" "trigger_module_m t0' = trigger_module_m t2"
      "prescale_vec t0' = prescale_vec t2" "static_source (set_source ''light'' t0') f" for t0 t0' f
    using that(1) trigger_setup_data [of "trigger_module_m t0'" 21 fl2 dt2] trigger_prescales_data [of "trigger_module_m t0'" "prescale_vec t0'" 21]
      trigger_masks_data(1) [of t0' "''light''" f] assms(5-7) that(2-4)
    by (simp add: TriggerControl_Configure_def Let_def)
  have again: "\<exists>t0'. trigger_read c2 t = (Some (fl2, dt2, ''light''), t0') \<and> trigger_module_m t0' = trigger_module_m t2
      \<and> prescale_vec t0' = prescale_vec t2 \<and> static_masks t0' = static_masks t"
    using assms(4) by (auto simp: trigger_read_def Let_def split: option.splits)
  have "static_masks t2 = static_masks ?t1" using trigger_read_slot(4) [OF assms(4)] .
  then have "static_source (set_source ''light'' t2) src1" using s1 by (simp add: static_source_def set_source_def)
  from use [OF assms(4) _ _ this] have 1: "data_of (nat (trigger_module_m t2)) 0 21
      (fst (snd (TriggerControl_Configure P c2 ?t1))) = [0]" using assms(3) by (simp add: masks_of_def)
  obtain t0' where t0': "trigger_read c2 t = (Some (fl2, dt2, ''light''), t0')" "trigger_module_m t0' = trigger_module_m t2"
      "prescale_vec t0' = prescale_vec t2" "static_masks t0' = static_masks t" using again by blast
  have "static_source (set_source ''light'' t0') ''light''" using t0'(4) assms(1) by (simp add: static_source_def set_source_def)
  from use [OF t0'(1-3) this] show ?thesis using 1 by (simp add: masks_of_def)
qed

definition trigger_json :: "string \<Rightarrow> json" where
  "trigger_json src = JObject [(''crate'', JObject [(''trig_slot'', JInt 10)]),
     (''readout_windows'', JObject [(''drift_size'', JInt 255)]),
     (''trigger'', JObject [(''software_trigger_rate_hz'', JInt 10), (''dead_time'', JInt 4),
        (''trigger_source'', JString src), (''prescale'', JArray [JInt 0, JInt 5])])]"

definition new_trig :: trig where
  "new_trig = \<lparr>software_trigger_rate_m = 0, trigger_module_m = 0, prescale_vec = [], ext_trig_m = False,
     light_trig_m = False, software_trig_m = False, trig_is_running = False, static_masks = None\<rparr>"

lemma trigger_read_json:
  "trigger_read (trigger_json src) t = (Some (2047, 4, src),
     t\<lparr>software_trigger_rate_m := 10, trigger_module_m := 10, prescale_vec := [0, 5]\<rparr>)"
  by (simp add: trigger_read_def trigger_json_def cfg_defs)

theorem TriggerControl_settings_witness:
  "case TriggerControl_Configure sample_params (trigger_json ''external'') new_trig of (r, is, t'') \<Rightarrow>
     data_of 10 0 2 is = [2047] \<and> data_of 10 0 11 is = [5] \<and> data_of 10 0 28 is = [74]"
proof -
  have d: "cfg_int ''readout_windows'' ''drift_size'' (trigger_json src) = Some 255" for src
    by (simp add: trigger_json_def cfg_defs)
  show ?thesis
    using TriggerControl_settings [OF trigger_read_json d, of new_trig "''external''" "''external''" sample_params]
    by (auto simp: new_trig_def masks_of_def Let_def split: prod.splits)
qed

theorem TriggerControl_light_mask_stale_witness:
  "data_of 10 0 21 (fst (snd (TriggerControl_Configure sample_params (trigger_json ''light'')
     (snd (snd (TriggerControl_Configure sample_params (trigger_json ''external'') new_trig)))))) = [0]"
proof -
  have "static_masks new_trig = None" by (simp add: new_trig_def)
  from TriggerControl_light_mask_stale [OF this trigger_read_json _ trigger_read_json, of "''external''" sample_params]
  show ?thesis by simp
qed

end
