(* ===== verification/Dma_Readout.thy ===== *)
theory Dma_Readout
  imports Data_Handler_Config Trigger_Control
begin

text \<open>
  The read thread \<^verbatim>\<open>DataHandler::ReadoutDMARead\<close>: it arms a DMA transfer, starts the trigger, waits for the
  transfer, copies the block into the queue of the write thread, and recovers from a transfer that does not
  finish.  What the thread observes of the other threads (the run flag, the event count, how many blocks the
  write thread took) and of the clock is an input; the driver answers through its parameter.
\<close>

section \<open>State of the read thread\<close>

text \<open>The locals of a call, and the function-local statics, which survive from run to run: \<^term>\<open>None\<close> before
  their first initialization.\<close>

record rd =
  is_first_event :: bool
  dma_recoveries :: nat
  blocks_enqueued :: nat
  num_dma_byte :: "u32 option"
  dma_num :: "u32 option"
  word_arr :: "u32 list"

text \<open>One pass: the values of \<^verbatim>\<open>is_running_\<close> and of the deadline test in \<^verbatim>\<open>WaitForDma\<close>, the value of
  \<^verbatim>\<open>is_running_\<close> after a failed wait, the content of the DMA buffer, and the number of blocks that the write
  thread took meanwhile.\<close>

record dma_in =
  wait_obs :: "(bool \<times> bool) list"
  running_after :: bool
  dma_words :: "u32 list"
  consumed :: nat

record dma_round =
  round_running :: bool
  round_events :: nat
  pass0 :: dma_in
  pass1 :: dma_in

section \<open>Operations\<close>

definition wr :: "driver \<Rightarrow> u32 \<Rightarrow> u32 \<Rightarrow> u32 \<Rightarrow> pcie \<Rightarrow> pcie" where
  "wr drv dev off v p = snd (WriteReg32 drv dev cs_bar off v p)"

definition SetRecvBuffer :: "driver \<Rightarrow> bool \<Rightarrow> dh \<Rightarrow> bool \<Rightarrow> pcie \<Rightarrow> bool \<times> pcie" where
  "SetRecvBuffer drv operator_continues d is_data p =
     (let dev_handle = (if is_data then kDev2 else kDev1);
          (ok, p) = (if is_data
            then (case DmaContigBufferLock drv 1 (DMABUFFSIZE d) operator_continues p of
                (False, p) \<Rightarrow> (False, p)
              | (True, p) \<Rightarrow> DmaContigBufferLock drv 2 (DMABUFFSIZE d) operator_continues p)
            else (True, snd (DmaContigBufferLock drv 3 32 operator_continues p))) in
      if \<not> ok then (False, p)
      else (True, wr drv dev_handle cs_dma_msi_abort 0
             (wr drv dev_handle cs_dma_msi_abort dma_abort (wr drv dev_handle tx_md_reg 0x2000 p))))"

definition ClearDmaOnAbort :: "driver \<Rightarrow> u32 \<Rightarrow> pcie \<Rightarrow> pcie" where
  "ClearDmaOnAbort drv dev_num p =
     (let p = snd (ReadReg64 drv dev_num cs_bar t1_cs_reg p);
          p = snd (ReadReg64 drv dev_num cs_bar t2_cs_reg p)
      in wr drv dev_num cs_dma_msi_abort 0 (wr drv dev_num cs_dma_msi_abort dma_abort p))"

fun WaitForDma :: "driver \<Rightarrow> u32 \<Rightarrow> (bool \<times> bool) list \<Rightarrow> dh \<times> pcie \<Rightarrow> (bool \<times> dh \<times> pcie) option" where
  "WaitForDma drv dev_num [] s = None"
| "WaitForDma drv dev_num ((running, late) # obs) (d, p) =
     (if \<not> running then Some (False, d, p)
      else case ReadReg32 drv dev_num cs_bar cs_dma_cntrl p of (data, p) \<Rightarrow>
        if data AND dma_in_progress = 0 then Some (True, d, p)
        else if late then Some (False, d\<lparr>dma_timeout := True\<rparr>, p)
        else WaitForDma drv dev_num obs (d, p))"

definition arm_receivers :: "driver \<Rightarrow> bool \<Rightarrow> u32 \<Rightarrow> pcie \<Rightarrow> pcie" where
  "arm_receivers drv first nbytes p =
     fold (\<lambda>r_cs_reg p. wr drv kDev2 r_cs_reg (cs_start + nbytes)
             (if first then wr drv kDev2 r_cs_reg cs_init p else p))
       [r1_cs_reg, r2_cs_reg] p"

definition start_dma :: "driver \<Rightarrow> u32 \<Rightarrow> u32 \<Rightarrow> pcie \<Rightarrow> pcie" where
  "start_dma drv dnum nbytes p =
     (let p = wr drv kDev2 cs_dma_add_low_reg (GetBufferPageAddrLower dnum p) p;
          p = wr drv kDev2 cs_dma_add_high_reg (GetBufferPageAddrUpper dnum p) p;
          p = wr drv kDev2 cs_dma_by_cnt nbytes p;
          is = GetBufferPageAddrUpper dnum p
      in wr drv kDev2 cs_dma_cntrl (if is = 0 then dma_tr12 + dma_3dw_rec else dma_tr12 + dma_4dw_rec) p)"

text \<open>A recovery: the byte count is read back, the transfer is aborted, both receivers are initialized, and the
  write thread is told to resynchronize at the next block.\<close>

definition note_timeout :: "dh \<times> rd \<Rightarrow> dh \<times> rd" where
  "note_timeout s = (case s of (d, r) \<Rightarrow>
     (d\<lparr>dma_timeout := True, resync_at_block := blocks_enqueued r\<rparr>,
      r\<lparr>dma_recoveries := dma_recoveries r + 1, is_first_event := True\<rparr>))"

definition recover_dma :: "driver \<Rightarrow> u32 \<Rightarrow> dh \<times> rd \<times> pcie \<Rightarrow> dh \<times> rd \<times> pcie" where
  "recover_dma drv dnum s = (case s of (d, r, p) \<Rightarrow>
     let p = snd (ReadReg64 drv kDev2 cs_bar cs_dma_by_cnt p);
         p = snd (DmaSyncIo drv dnum p);
         p = ClearDmaOnAbort drv kDev2 p;
         p = wr drv kDev2 r2_cs_reg cs_init (wr drv kDev2 r1_cs_reg cs_init p);
         (d, r) = note_timeout (d, r)
     in (d, r, p))"

definition deliver_block :: "u32 list \<Rightarrow> dh \<times> rd \<Rightarrow> dh \<times> rd" where
  "deliver_block buf s = (case s of (d, r) \<Rightarrow>
     let n = DMABUFFSIZE d div 4;
         r = r\<lparr>word_arr := take n buf @ drop n (word_arr r)\<rparr> in
     case pcq_write (word_arr r) (data_queue d) of
       (True, q) \<Rightarrow> (d\<lparr>data_queue := q\<rparr>, r\<lparr>blocks_enqueued := blocks_enqueued r + 1\<rparr>)
     | (False, q) \<Rightarrow> (d\<lparr>read_write_buff_overflow := True, num_rw_buffer_overflow := num_rw_buffer_overflow d + 1,
                       resync_at_block := blocks_enqueued r\<rparr>, r))"

fun take_blocks :: "nat \<Rightarrow> 'a pcq \<Rightarrow> 'a pcq" where
  "take_blocks 0 q = q"
| "take_blocks (Suc n) q = take_blocks n (snd (snd (pcq_read q)))"

text \<open>The first half of a pass of the inner loop arms the transfer and sends the trigger; the second half handles
  the result of the wait, \<^term>\<open>True\<close> being the \<^verbatim>\<open>break\<close> of the loop.\<close>

definition pass_buffer :: "nat \<Rightarrow> rd \<Rightarrow> rd" where
  "pass_buffer iv r = (case dma_num r of None \<Rightarrow> r\<lparr>dma_num := Some (if iv mod 2 = 0 then 1 else 2)\<rparr> | Some _ \<Rightarrow> r)"

definition arm_pass :: "driver \<Rightarrow> nat \<Rightarrow> dh \<Rightarrow> rd \<Rightarrow> pcie \<Rightarrow> rd \<times> pcie" where
  "arm_pass drv iv d r p =
     (let r = pass_buffer iv r;
          dnum = the (dma_num r); nbytes = the (num_dma_byte r);
          p = snd (DmaSyncCpu drv dnum p);
          p = arm_receivers drv (is_first_event r) nbytes p;
          r = r\<lparr>is_first_event := False\<rparr>;
          p = start_dma drv dnum nbytes p
      in (r, if iv = 0 \<or> software_trig d \<noteq> 0
             then run_trace drv (SendStartTrigger (software_trig d) (ext_trig d) (trigger_module d)) p else p))"

definition finish_pass :: "driver \<Rightarrow> dma_in \<Rightarrow> bool \<Rightarrow> dh \<times> rd \<times> pcie \<Rightarrow> bool \<times> dh \<times> rd \<times> pcie" where
  "finish_pass drv inp completed s = (case s of (d, r, p) \<Rightarrow>
     let dnum = the (dma_num r) in
     if \<not> completed
     then if \<not> running_after inp then (True, d, r, ClearDmaOnAbort drv kDev2 p)
          else (False, recover_dma drv dnum (d, r, p))
     else let p = snd (DmaSyncIo drv dnum p);
              d = d\<lparr>data_queue := take_blocks (consumed inp) (data_queue d)\<rparr>;
              (d, r) = deliver_block (dma_words inp) (d, r)
          in (False, d, r, p))"

definition dma_pass :: "driver \<Rightarrow> nat \<Rightarrow> dma_in \<Rightarrow> dh \<times> rd \<times> pcie \<Rightarrow> (bool \<times> dh \<times> rd \<times> pcie) option" where
  "dma_pass drv iv inp s = (case s of (d, r, p) \<Rightarrow>
     case arm_pass drv iv d r p of (r, p) \<Rightarrow>
     map_option (\<lambda>(completed, d, p). finish_pass drv inp completed (d, r, p))
       (WaitForDma drv kDev2 (wait_obs inp) (d, p)))"

text \<open>One round of the outer loop: two passes, the second skipped after a \<^verbatim>\<open>break\<close>.\<close>

definition dma_passes :: "driver \<Rightarrow> dma_round \<Rightarrow> dh \<times> rd \<times> pcie \<Rightarrow> (dh \<times> rd \<times> pcie) option" where
  "dma_passes drv rnd s = do {
     (brk, s) \<leftarrow> dma_pass drv 0 (pass0 rnd) s;
     (_, d, r, p) \<leftarrow> (if brk then Some (True, s) else dma_pass drv 1 (pass1 rnd) s);
     Some (d\<lparr>dma_loop_count := dma_loop_count d + 1\<rparr>, r, p) }"

fun readout_loop :: "driver \<Rightarrow> dma_round list \<Rightarrow> dh \<times> rd \<times> pcie \<Rightarrow> (dh \<times> rd \<times> pcie) option" where
  "readout_loop drv [] s = None"
| "readout_loop drv (rnd # rnds) s =
     (if \<not> (round_running rnd \<and> round_events rnd < num_events (fst s)) then Some s
      else dma_passes drv rnd s \<bind> readout_loop drv rnds)"

definition ReadoutDMARead_stop :: "driver \<Rightarrow> dh \<times> rd \<times> pcie \<Rightarrow> dh \<times> rd \<times> pcie" where
  "ReadoutDMARead_stop drv s = (case s of (d, r, p) \<Rightarrow>
     let p = run_trace drv (SendStopTrigger (software_trig d) (ext_trig d) (trigger_module d)) p;
         d = d\<lparr>stop_write := True\<rparr>;
         (ok, p) = FreeDmaContigBuffers drv p
     in (if ok then d else d\<lparr>free_dma_buffer_error := True\<rparr>, r, p))"

definition ReadoutDMARead_start :: "dh \<Rightarrow> rd \<Rightarrow> dh \<times> rd" where
  "ReadoutDMARead_start d r =
     (d\<lparr>dma_loop_count := 0\<rparr>,
      r\<lparr>is_first_event := True, dma_recoveries := 0, blocks_enqueued := 0,
        num_dma_byte := (case num_dma_byte r of None \<Rightarrow> Some (of_nat (DMABUFFSIZE d)) | Some n \<Rightarrow> Some n)\<rparr>)"

definition ReadoutDMARead ::
  "dh_params \<Rightarrow> driver \<Rightarrow> bool \<Rightarrow> dma_round list \<Rightarrow> dh \<times> rd \<times> pcie \<Rightarrow> (dh \<times> rd \<times> pcie) option" where
  "ReadoutDMARead P drv operator_continues rnds s = (case s of (d, r, p) \<Rightarrow>
     case ReadoutDMARead_start d r of (d, r) \<Rightarrow>
     case SetRecvBuffer drv operator_continues d True p of
       (False, p) \<Rightarrow>
         let d = d\<lparr>failed_locking_dma_buffers := True, is_running := False, stop_write := True\<rparr>;
             p = snd (FreeDmaContigBuffers drv p)
         in Some (d\<lparr>run_error_bit := acquire_pcie_dma_buff P\<rparr>, r, p)
     | (True, p) \<Rightarrow> map_option (ReadoutDMARead_stop drv) (readout_loop drv rnds (d, r, p)))"

section \<open>The trace on the bus\<close>

text \<open>An operation extends the bus trace by events that satisfy \<^verbatim>\<open>Q\<close>.\<close>

definition extends :: "(bus_event \<Rightarrow> bool) \<Rightarrow> pcie \<Rightarrow> pcie \<Rightarrow> bool" where
  "extends Q p p' \<longleftrightarrow> (\<exists>es. bus_log p' = bus_log p @ es \<and> (\<forall>e \<in> set es. Q e))"

lemma extends_refl [simp, intro]: "extends Q p p"
  by (simp add: extends_def)

lemma extends_trans [trans]: "extends Q p p' \<Longrightarrow> extends Q p' p'' \<Longrightarrow> extends Q p p''"
  by (fastforce simp: extends_def)

lemma extends_bus: "Q e \<Longrightarrow> extends Q p (bus e p)"
  by (simp add: extends_def)

lemma extends_bus_trans: "extends Q p p' \<Longrightarrow> Q e \<Longrightarrow> extends Q p (bus e p')"
  using extends_trans extends_bus by blast

text \<open>Register accesses, and synchronization of any buffer but the second acquisition buffer.\<close>

definition no_buf2 :: "bus_event \<Rightarrow> bool" where
  "no_buf2 e \<longleftrightarrow> e \<notin> {SyncCpu Buf2, SyncIo Buf2}"

lemma no_buf2_simps [simp]:
  "no_buf2 (Wr32 h b off v)" "no_buf2 (Rd32 h b off)" "no_buf2 (Rd64 h b off)"
  "no_buf2 (LockBuf bb n)" "no_buf2 (UnlockBuf bb)" "no_buf2 (SyncCpu Buf1)" "no_buf2 (SyncIo Buf1)" "no_buf2 (SyncCpu SendBuf)" "no_buf2 (SyncIo SendBuf)"
  by (simp_all add: no_buf2_def)

lemma extends_poll: "extends no_buf2 p p' \<Longrightarrow> extends no_buf2 p (snd (poll_dma drv h n i p'))"
  by (induction n arbitrary: i p') (simp_all add: Let_def extends_bus_trans)

lemma extends_fold: "(\<And>x q. extends Q q (f x q)) \<Longrightarrow> extends Q p (fold f xs p)"
proof (induction xs arbitrary: p)
  case (Cons x xs)
  then show ?case using extends_trans [of Q p "f x p"] by simp
qed simp

lemma extends_send_buffer: "extends no_buf2 p (p\<lparr>buffer_send := b\<rparr>)"
  by (simp add: extends_def)

lemma extends_PCIeSendBuffer: "extends no_buf2 p (snd (PCIeSendBuffer drv dev mode nword ws p))"
proof -
  consider "mode = 0" | "mode = 1" | "mode \<noteq> 0 \<and> mode \<noteq> 1" by blast
  then show ?thesis
  proof cases
    case 1
    then show ?thesis
      by (simp add: PCIeSendBuffer_def Let_def)
        (intro extends_poll extends_trans [OF _ extends_fold] extends_bus_trans extends_bus extends_refl no_buf2_simps)
  next
    case 2
    then show ?thesis
      by (simp add: PCIeSendBuffer_def Let_def case_prod_beta)
        (intro extends_bus_trans extends_poll extends_send_buffer no_buf2_simps)
  qed (simp add: PCIeSendBuffer_def Let_def)
qed

lemma extends_wr: "extends no_buf2 p p' \<Longrightarrow> extends no_buf2 p (wr drv dev off v p')"
  by (simp add: wr_def WriteReg32_def Let_def extends_bus_trans)

lemma extends_read:
  "extends no_buf2 p p' \<Longrightarrow> extends no_buf2 p (snd (ReadReg64 drv dev bar off p'))"
  "extends no_buf2 p p' \<Longrightarrow> extends no_buf2 p (snd (ReadReg32 drv dev bar off p'))"
  by (simp_all add: ReadReg64_def ReadReg32_def Let_def extends_bus_trans)

lemma extends_sync:
  "extends no_buf2 p p' \<Longrightarrow> extends no_buf2 p (snd (DmaSyncCpu drv 1 p'))"
  "extends no_buf2 p p' \<Longrightarrow> extends no_buf2 p (snd (DmaSyncIo drv 1 p'))"
  by (simp_all add: DmaSyncCpu_def DmaSyncIo_def buf_of_handle_def extends_bus_trans)

lemma extends_clear: "extends no_buf2 p p' \<Longrightarrow> extends no_buf2 p (ClearDmaOnAbort drv dev p')"
  unfolding ClearDmaOnAbort_def Let_def by (intro extends_wr extends_read)

lemma extends_arm: "extends no_buf2 p p' \<Longrightarrow> extends no_buf2 p (arm_receivers drv first n p')"
  unfolding arm_receivers_def
  by (rule extends_trans, assumption, rule extends_fold) (auto intro: extends_wr)

lemma extends_start: "extends no_buf2 p p' \<Longrightarrow> extends no_buf2 p (start_dma drv dnum n p')"
  unfolding start_dma_def Let_def by (intro extends_wr)

lemma extends_trigger:
  "extends no_buf2 p p' \<Longrightarrow> extends no_buf2 p (run_trace drv (SendStartTrigger a b m) p')"
  using extends_PCIeSendBuffer extends_trans
  by (fastforce simp: run_trace_def SendStartTrigger_def send1_def)

lemma extends_wait:
  "WaitForDma drv dev obs (d, p') = Some (ok, d', p'') \<Longrightarrow> extends no_buf2 p p' \<Longrightarrow> extends no_buf2 p p''"
proof (induction obs arbitrary: p')
  case (Cons ob obs)
  obtain running late where ob: "ob = (running, late)" by fastforce
  obtain v q where rd: "ReadReg32 drv dev cs_bar cs_dma_cntrl p' = (v, q)" by fastforce
  then have "extends no_buf2 p q" using extends_read(2) [OF Cons.prems(2)] by (metis snd_conv)
  then show ?case using Cons.prems Cons.IH [of q] by (auto simp: ob rd split: if_splits)
qed simp

lemma arm_pass_buf1:
  assumes "dma_num r = Some 1 \<or> dma_num r = None \<and> iv = 0" and "extends no_buf2 p0 p"
  shows "dma_num (fst (arm_pass drv iv d r p)) = Some 1 \<and> extends no_buf2 p0 (snd (arm_pass drv iv d r p))"
proof -
  have b: "dma_num (pass_buffer iv r) = Some 1" using assms(1) by (auto simp: pass_buffer_def)
  have "extends no_buf2 p0 (start_dma drv 1 n (arm_receivers drv f n (snd (DmaSyncCpu drv 1 p))))" for n f
    using assms(2) by (intro extends_start extends_arm extends_sync)
  then show ?thesis using b by (simp add: arm_pass_def Let_def extends_trigger)
qed

lemma finish_pass_buf1:
  assumes "dma_num r = Some 1" and "extends no_buf2 p0 p"
  shows "case finish_pass drv inp completed (d, r, p) of (brk, d', r', p') \<Rightarrow> dma_num r' = Some 1 \<and> extends no_buf2 p0 p'"
proof -
  have "extends no_buf2 p0 (snd (snd (recover_dma drv 1 (d, r, p))))"
    unfolding recover_dma_def note_timeout_def Let_def by simp (intro extends_wr extends_clear extends_sync extends_read assms(2))
  moreover have "dma_num (fst (snd (recover_dma drv 1 (d, r, p)))) = Some 1"
    using assms(1) by (simp add: recover_dma_def note_timeout_def Let_def)
  moreover have "dma_num (snd (deliver_block ws (d', r))) = Some 1" for ws d'
    using assms(1) by (simp add: deliver_block_def Let_def split: prod.splits bool.splits)
  ultimately show ?thesis
    using assms extends_clear [OF assms(2)] extends_sync(2) [OF assms(2)]
    by (simp add: finish_pass_def Let_def case_prod_beta)
qed

lemma dma_pass_buf1:
  assumes "dma_pass drv iv inp (d, r, p) = Some (brk, d', r', p')"
    and "dma_num r = Some 1 \<or> dma_num r = None \<and> iv = 0" and "extends no_buf2 p0 p"
  shows "dma_num r' = Some 1 \<and> extends no_buf2 p0 p'"
proof -
  obtain r1 p1 where arm: "arm_pass drv iv d r p = (r1, p1)" by fastforce
  then have 1: "dma_num r1 = Some 1" "extends no_buf2 p0 p1" using arm_pass_buf1 [OF assms(2,3), of drv d] by simp_all
  obtain ok d2 p2 where w: "WaitForDma drv kDev2 (wait_obs inp) (d, p1) = Some (ok, d2, p2)"
      and fin: "finish_pass drv inp ok (d2, r1, p2) = (brk, d', r', p')"
    using assms(1) arm by (auto simp: dma_pass_def)
  show ?thesis using finish_pass_buf1 [OF 1(1) extends_wait [OF w 1(2)], of drv inp ok d2] fin by simp
qed

lemma dma_passes_buf1:
  assumes "dma_passes drv rnd (d, r, p) = Some (d', r', p')" and "dma_num r \<in> {None, Some 1}" and "extends no_buf2 p0 p"
  shows "dma_num r' = Some 1 \<and> extends no_buf2 p0 p'"
proof -
  obtain brk d1 r1 p1 where 1: "dma_pass drv 0 (pass0 rnd) (d, r, p) = Some (brk, d1, r1, p1)"
    using assms(1) by (cases "dma_pass drv 0 (pass0 rnd) (d, r, p)") (auto simp: dma_passes_def)
  have s1: "dma_num r1 = Some 1" "extends no_buf2 p0 p1" using dma_pass_buf1 [OF 1 _ assms(3)] assms(2) by auto
  show ?thesis
  proof (cases brk)
    case True
    then show ?thesis using assms(1) s1 by (simp add: dma_passes_def 1)
  next
    case False
    obtain brk2 d2 r2 p2 where 2: "dma_pass drv 1 (pass1 rnd) (d1, r1, p1) = Some (brk2, d2, r2, p2)"
      using assms(1) False by (cases "dma_pass drv 1 (pass1 rnd) (d1, r1, p1)") (auto simp: dma_passes_def 1)
    show ?thesis using dma_pass_buf1 [OF 2 _ s1(2)] s1(1) assms(1) False by (simp add: dma_passes_def 1 2 [unfolded One_nat_def])
  qed
qed

lemma readout_loop_buf1:
  assumes "readout_loop drv rnds (d, r, p) = Some (d', r', p')" and "dma_num r \<in> {None, Some 1}" and "extends no_buf2 p0 p"
  shows "dma_num r' \<in> {None, Some 1} \<and> extends no_buf2 p0 p'"
  using assms
proof (induction rnds arbitrary: d r p)
  case (Cons rnd rnds)
  show ?case
  proof (cases "round_running rnd \<and> round_events rnd < num_events d")
    case True
    then obtain d1 r1 p1 where 1: "dma_passes drv rnd (d, r, p) = Some (d1, r1, p1)"
      using Cons.prems(1) by (cases "dma_passes drv rnd (d, r, p)") auto
    show ?thesis using Cons.IH [of d1 r1 p1] dma_passes_buf1 [OF 1 Cons.prems(2,3)] Cons.prems(1) True 1 by simp
  qed (use Cons.prems in simp)
qed simp

lemma extends_lock: "extends no_buf2 p p' \<Longrightarrow> extends no_buf2 p (snd (DmaContigBufferLock drv h n oc p'))"
proof -
  have upd: "extends no_buf2 p q \<Longrightarrow> extends no_buf2 p (q\<lparr>buff_addr := a\<rparr>)" for q a by (simp add: extends_def)
  show "extends no_buf2 p p' \<Longrightarrow> extends no_buf2 p (snd (DmaContigBufferLock drv h n oc p'))"
    by (auto simp: DmaContigBufferLock_def Let_def intro!: upd extends_bus_trans split: option.splits)
qed

lemma extends_SetRecv: "extends no_buf2 p p' \<Longrightarrow> extends no_buf2 p (snd (SetRecvBuffer drv oc d data p'))"
proof -
  assume e: "extends no_buf2 p p'"
  obtain ok1 p1 where 1: "DmaContigBufferLock drv 1 (DMABUFFSIZE d) oc p' = (ok1, p1)" by fastforce
  have e1: "extends no_buf2 p p1" using extends_lock [OF e] 1 by (metis snd_conv)
  obtain ok2 p2 where 2: "DmaContigBufferLock drv 2 (DMABUFFSIZE d) oc p1 = (ok2, p2)" by fastforce
  have "extends no_buf2 p p2" using extends_lock [OF e1] 2 by (metis snd_conv)
  then show ?thesis
    using e1 extends_lock [OF e] 1 2
    by (auto simp: SetRecvBuffer_def Let_def intro!: extends_wr split: bool.splits)
qed

lemma extends_free: "extends no_buf2 p p' \<Longrightarrow> extends no_buf2 p (snd (FreeDmaContigBuffers drv p'))"
proof -
  have step: "extends no_buf2 p (snd (free_buffer drv b (ok, q)))" if "extends no_buf2 p q" for b ok q
    using that extends_bus_trans [OF that, of "UnlockBuf b"] by (simp add: free_buffer_def Let_def extends_def)
  assume "extends no_buf2 p p'"
  then show ?thesis
    unfolding FreeDmaContigBuffers_def using step by (metis fold_simps prod.collapse)
qed

text \<open>The read thread never uses its second DMA buffer: the buffer number is a static of the inner loop, which
  keeps the value of the first pass.  Once it holds 1 (or nothing yet), no synchronization of buffer 2 ever
  appears on the bus, for any behaviour of the driver and of the other threads.\<close>
theorem ReadoutDMARead_single_buffer:
  assumes "ReadoutDMARead P drv oc rnds (d, r, p) = Some (d', r', p')" and "dma_num r \<in> {None, Some 1}"
  shows "dma_num r' \<in> {None, Some 1} \<and>
    (\<exists>es. bus_log p' = bus_log p @ es \<and> SyncCpu Buf2 \<notin> set es \<and> SyncIo Buf2 \<notin> set es)"
proof -
  obtain d0 r0 where start: "ReadoutDMARead_start d r = (d0, r0)" by fastforce
  then have r0: "dma_num r0 \<in> {None, Some 1}" using assms(2) by (auto simp: ReadoutDMARead_start_def)
  obtain ok p1 where recv: "SetRecvBuffer drv oc d0 True p = (ok, p1)" by fastforce
  have p1: "extends no_buf2 p p1" using extends_SetRecv [OF extends_refl, of p drv oc d0 True] recv by simp
  have "dma_num r' \<in> {None, Some 1} \<and> extends no_buf2 p p'"
  proof (cases ok)
    case True
    then obtain d2 r2 p2 where loop: "readout_loop drv rnds (d0, r0, p1) = Some (d2, r2, p2)"
        and stop: "ReadoutDMARead_stop drv (d2, r2, p2) = (d', r', p')"
      using assms(1) start recv by (auto simp: ReadoutDMARead_def)
    have 2: "dma_num r2 \<in> {None, Some 1}" "extends no_buf2 p p2" using readout_loop_buf1 [OF loop r0 p1] by auto
    have "extends no_buf2 p (run_trace drv (SendStopTrigger (software_trig d2) (ext_trig d2) (trigger_module d2)) p2)"
      using 2(2) extends_PCIeSendBuffer extends_trans
      by (auto simp: run_trace_def SendStopTrigger_def send1_def)
    from extends_free [OF this, of drv] show ?thesis
      using stop 2(1) by (auto simp: ReadoutDMARead_stop_def Let_def split: prod.splits)
  next
    case False
    then show ?thesis
      using assms(1) start recv r0 extends_free [OF p1, of drv] by (auto simp: ReadoutDMARead_def Let_def)
  qed
  then show ?thesis by (auto simp: extends_def no_buf2_def)
qed

section \<open>The end of the read thread\<close>


text \<open>A wait ends as soon as the run flag or the deadline ends it.\<close>

definition decisive :: "(bool \<times> bool) list \<Rightarrow> bool" where
  "decisive obs \<longleftrightarrow> (\<exists>(running, late) \<in> set obs. \<not> running \<or> late)"

lemma WaitForDma_returns: "decisive obs \<Longrightarrow> \<exists>w. WaitForDma drv dev obs (d, p) = Some w"
proof (induction obs arbitrary: p)
  case (Cons ob obs)
  obtain running late where ob: "ob = (running, late)" by fastforce
  obtain v q where rd: "ReadReg32 drv dev cs_bar cs_dma_cntrl p = (v, q)" by fastforce
  show ?case using Cons.IH [of q] Cons.prems by (auto simp: ob rd decisive_def)
qed (simp add: decisive_def)

lemma dma_pass_returns:
  assumes "decisive (wait_obs inp)"
  shows "\<exists>s'. dma_pass drv iv inp s = Some s'"
proof -
  obtain d r p where s: "s = (d, r, p)" by (metis prod_cases3)
  obtain r1 p1 where arm: "arm_pass drv iv d r p = (r1, p1)" by fastforce
  show ?thesis using WaitForDma_returns [OF assms, of drv kDev2 d p1] by (auto simp: dma_pass_def s arm simp del: split_paired_Ex)
qed


section \<open>A run\<close>

definition new_rd :: rd where
  "new_rd = \<lparr>is_first_event = False, dma_recoveries = 0, blocks_enqueued = 0, num_dma_byte = None, dma_num = None,
     word_arr = []\<rparr>"

definition stop_rounds :: "dma_round list" where
  "stop_rounds = (let i = \<lparr>wait_obs = [(False, False)], running_after = False, dma_words = [], consumed = 0\<rparr> in
     [\<lparr>round_running = False, round_events = 0, pass0 = i, pass1 = i\<rparr>])"

lemma stop_run:
  "ReadoutDMARead sample_dh_params test_driver True stop_rounds (sample_dh, new_rd, closed_pcie)
     = Some (ReadoutDMARead_stop test_driver
        (fst (ReadoutDMARead_start sample_dh new_rd), snd (ReadoutDMARead_start sample_dh new_rd),
         snd (SetRecvBuffer test_driver True (fst (ReadoutDMARead_start sample_dh new_rd)) True closed_pcie)))"
proof -
  have "fst (SetRecvBuffer test_driver True (fst (ReadoutDMARead_start sample_dh new_rd)) True closed_pcie)"
    by (simp add: SetRecvBuffer_def DmaContigBufferLock_def Let_def test_driver_def)
  then show ?thesis
    by (auto simp: ReadoutDMARead_def stop_rounds_def Let_def split: prod.splits bool.splits)
qed



theorem ReadoutDMARead_single_buffer_witness:
  "\<exists>d' r' p'. ReadoutDMARead sample_dh_params test_driver True stop_rounds (sample_dh, new_rd, closed_pcie) = Some (d', r', p')
     \<and> dma_num r' \<in> {None, Some 1}"
proof -
  obtain d' r' p' where run: "ReadoutDMARead sample_dh_params test_driver True stop_rounds (sample_dh, new_rd, closed_pcie)
      = Some (d', r', p')" using stop_run by (metis prod_cases3)
  have "dma_num new_rd \<in> {None, Some 1}" by (simp add: new_rd_def)
  then show ?thesis using ReadoutDMARead_single_buffer [OF run] run by blast
qed

end
