(* ===== verification/Event_Builder.thy ===== *)
theory Event_Builder
  imports Data_Handler
begin

text \<open>
  The write thread \<^verbatim>\<open>DataHandler::DataWrite\<close>: it cuts the stream of 32-bit words of the DMA blocks into
  events (a start word, payload, an end word), collects ten complete events and hands them to
  \<^verbatim>\<open>write()\<close>, and opens the next file every 5000 events.  The theory states what a stream of words
  contains (\<^verbatim>\<open>scan\<close>), and shows that the words handed to \<^verbatim>\<open>write()\<close> are exactly the complete events of
  the stream.
\<close>

section \<open>The write thread\<close>

text \<open>The local variables of \<^verbatim>\<open>DataWrite\<close>.\<close>

record wb =
  event_buffer :: "u32 list"
  event_start :: bool
  num_words :: nat
  event_words :: nat
  event_chunk :: nat
  event_start_count :: nat
  event_end_count :: nat
  num_recv_bytes :: nat
  local_event_count :: nat
  event_begin :: nat
  blocks_read :: nat
  dropped_partial :: nat

definition init_wb :: "nat \<Rightarrow> wb" where
  "init_wb event_buffer_size = \<lparr>event_buffer = replicate event_buffer_size 0, event_start = False,
     num_words = 0, event_words = 0, event_chunk = 0, event_start_count = 0, event_end_count = 0,
     num_recv_bytes = 0, local_event_count = 0, event_begin = 0, blocks_read = 0, dropped_partial = 0\<rparr>"

definition write_words :: "io_env \<Rightarrow> nat \<Rightarrow> dh \<times> wb \<Rightarrow> (int + nat) \<times> dh \<times> wb" where
  "write_words env n s = (case s of (d, b) \<Rightarrow>
     let ws = take n (event_buffer b) in
     (env_write env (clock d) (fd d) ws, log_io (EvWrite (fd d) ws) d, b))"

definition note_write :: "int + nat \<Rightarrow> dh \<times> wb \<Rightarrow> dh \<times> wb" where
  "note_write r s = (case s of (d, b) \<Rightarrow> (case r of
     Inl errno \<Rightarrow> (let d = d\<lparr>failed_write := True\<rparr> in (if errno = ENOSPC then RequestDiskStop d else d, b))
   | Inr n \<Rightarrow> (d, b\<lparr>num_recv_bytes := num_recv_bytes b + n\<rparr>)))"

definition next_file :: "io_env \<Rightarrow> nat \<Rightarrow> dh \<Rightarrow> dh" where
  "next_file env n d = (if n > 0 \<and> n mod 5000 = 0
     then (case SwitchWriteFile env d of (ok, d) \<Rightarrow> if ok then d else d\<lparr>stop_write := True\<rparr>) else d)"

definition flush_chunk :: "io_env \<Rightarrow> dh \<times> wb \<Rightarrow> dh \<times> wb" where
  "flush_chunk env s = (case write_words env (num_words (snd s)) s of (r, s) \<Rightarrow>
     case note_write r s of (d, b) \<Rightarrow>
     let d = next_file env (local_event_count b) d;
         d = d\<lparr>num_recv_mB := num_recv_bytes b div 1000000,
               num_event_chunk_words := num_words b div EVENTCHUNK\<rparr>
     in (d, b\<lparr>event_start := False, num_words := 0, event_words := 0, event_chunk := 0\<rparr>))"

definition store_word :: "io_env \<Rightarrow> u32 \<Rightarrow> dh \<times> wb \<Rightarrow> dh \<times> wb" where
  "store_word env word s = (case s of (d, b) \<Rightarrow>
     let b = b\<lparr>event_buffer := (event_buffer b)[num_words b := word], num_words := num_words b + 1\<rparr>
     in if event_chunk b = EVENTCHUNK then flush_chunk env (d, b) else (d, b))"

definition check_overflow :: "wb \<Rightarrow> wb" where
  "check_overflow b = (if num_words b \<ge> length (event_buffer b)
     then b\<lparr>num_words := event_begin b, event_start := False, dropped_partial := dropped_partial b + 1\<rparr>
     else b)"

definition begin_event :: "wb \<Rightarrow> wb" where
  "begin_event b = (let b = (if event_start b
         then b\<lparr>num_words := event_begin b, dropped_partial := dropped_partial b + 1\<rparr> else b)
     in b\<lparr>event_begin := num_words b, event_start := True, event_start_count := event_start_count b + 1\<rparr>)"

definition end_event :: "wb \<Rightarrow> wb" where
  "end_event b = b\<lparr>event_end_count := event_end_count b + 1, event_start := False,
     event_chunk := event_chunk b + 1, local_event_count := local_event_count b + 1,
     event_words := num_words b + 1\<rparr>"

definition process_word :: "io_env \<Rightarrow> u32 \<Rightarrow> dh \<times> wb \<Rightarrow> dh \<times> wb" where
  "process_word env word s = (case s of (d, b) \<Rightarrow>
     let b = check_overflow b in
     if isEventStart word
     then store_word env word (d\<lparr>event_start_markers := event_start_markers d + 1\<rparr>, begin_event b)
     else if \<not> event_start b then (d, b)
     else if isEventEnd word
     then let b = end_event b in
       store_word env word (d\<lparr>event_end_markers := event_end_markers d + 1,
                              event_count := local_event_count b\<rparr>, b)
     else store_word env word (d, b))"

definition resync_check :: "dh \<times> wb \<Rightarrow> dh \<times> wb" where
  "resync_check s = (case s of (d, b) \<Rightarrow>
     if blocks_read b \<ge> resync_at_block d
     then (d\<lparr>resync_at_block := kNoResync\<rparr>,
           if event_start b
           then b\<lparr>num_words := event_begin b, event_start := False, dropped_partial := dropped_partial b + 1\<rparr>
           else b)
     else (d, b))"

definition process_block :: "io_env \<Rightarrow> u32 list \<Rightarrow> dh \<times> wb \<Rightarrow> dh \<times> wb" where
  "process_block env word_arr s =
     (let (d, b) = resync_check s;
          b = b\<lparr>blocks_read := blocks_read b + 1\<rparr>
      in fold (process_word env) (take (DMABUFFSIZE d div 4) word_arr) (d, b))"

definition DataWrite_start :: "io_env \<Rightarrow> dh \<Rightarrow> dh \<times> wb" where
  "DataWrite_start env d =
     (let d = snd (open_readout_file env d) in
      (d\<lparr>event_count := 0, event_start_markers := 0, event_end_markers := 0,
         resync_at_block := kNoResync\<rparr>, init_wb EVENTBUFFSIZE))"

definition DataWrite_finish :: "io_env \<Rightarrow> dh \<times> wb \<Rightarrow> dh \<times> wb" where
  "DataWrite_finish env s = (case write_words env (event_words (snd s)) s of (r, d, b) \<Rightarrow>
     let b = (case r of Inl _ \<Rightarrow> b | Inr n \<Rightarrow> b\<lparr>num_recv_bytes := num_recv_bytes b + n\<rparr>);
         d = log_io (EvFsync (fd d)) d
     in (log_io (EvClose (fd d)) d, b))"

text \<open>What the write thread meets, in order: a block that \<^verbatim>\<open>data_queue_.read\<close> returns, an empty queue
  (\<^verbatim>\<open>read\<close> returns false and the outer loop tests \<^verbatim>\<open>stop_write_\<close>), and the stores of other threads to
  \<^verbatim>\<open>stop_write_\<close> and \<^verbatim>\<open>resync_at_block_\<close>.  \<^term>\<open>None\<close>: the events ran out before the loop ended.\<close>

datatype wevent = Block "u32 list" | QueueEmpty | StoreStop | StoreResync nat

fun write_loop :: "io_env \<Rightarrow> wevent list \<Rightarrow> dh \<times> wb \<Rightarrow> (dh \<times> wb) option" where
  "write_loop env [] s = None"
| "write_loop env (Block ws # evs) s = write_loop env evs (process_block env ws s)"
| "write_loop env (QueueEmpty # evs) s = (if stop_write (fst s) then Some s else write_loop env evs s)"
| "write_loop env (StoreStop # evs) s = write_loop env evs ((fst s)\<lparr>stop_write := True\<rparr>, snd s)"
| "write_loop env (StoreResync n # evs) s = write_loop env evs ((fst s)\<lparr>resync_at_block := n\<rparr>, snd s)"

definition DataWrite :: "io_env \<Rightarrow> wevent list \<Rightarrow> dh \<Rightarrow> (dh \<times> wb) option" where
  "DataWrite env evs d = (let s = DataWrite_start env d in
     map_option (DataWrite_finish env)
       (if stop_write (fst s) then Some s else write_loop env evs s))"

text \<open>The benchmark writer copies blocks without looking for events, and drains the queue after the stop.\<close>

fun fast_drain :: "wevent list \<Rightarrow> dh \<Rightarrow> dh option" where
  "fast_drain [] d = None"
| "fast_drain (Block ws # evs) d = fast_drain evs (log_io (EvWrite (fd d) ws) d)"
| "fast_drain (QueueEmpty # evs) d = Some d"
| "fast_drain (_ # evs) d = fast_drain evs d"

fun fast_loop :: "wevent list \<Rightarrow> dh \<Rightarrow> dh option" where
  "fast_loop [] d = None"
| "fast_loop (Block ws # evs) d = fast_loop evs (log_io (EvWrite (fd d) ws) d)"
| "fast_loop (QueueEmpty # evs) d = (if stop_write d then fast_drain evs d else fast_loop evs d)"
| "fast_loop (StoreStop # evs) d = fast_loop evs (d\<lparr>stop_write := True\<rparr>)"
| "fast_loop (StoreResync n # evs) d = fast_loop evs (d\<lparr>resync_at_block := n\<rparr>)"

definition FastDataWrite :: "io_env \<Rightarrow> wevent list \<Rightarrow> dh \<Rightarrow> dh option" where
  "FastDataWrite env evs d =
     (let name = readout_file d;
          f = (case env_open env (clock d) name of Inr f \<Rightarrow> int f | Inl _ \<Rightarrow> -1);
          d = log_io (EvOpen name f) (d\<lparr>fd := f\<rparr>)
      in map_option (\<lambda>d. log_io (EvClose (fd d)) (log_io (EvFsync (fd d)) d))
           (if stop_write d then fast_drain evs d else fast_loop evs d))"

section \<open>What a stream of words contains\<close>

text \<open>The specification reads words with an optional event under construction.  A start word opens a new
  event and discards an unfinished one; words outside an event are discarded; an end word completes the
  event.  \<^verbatim>\<open>Cut\<close> is a loss of data: the event under construction is discarded.\<close>

datatype token = Wd u32 | Cut

fun scan_step :: "token \<Rightarrow> u32 list option \<times> u32 list list \<Rightarrow> u32 list option \<times> u32 list list" where
  "scan_step Cut (cur, es) = (None, es)"
| "scan_step (Wd w) (cur, es) =
     (if isEventStart w then (Some [w], es)
      else case cur of None \<Rightarrow> (None, es)
      | Some xs \<Rightarrow> if isEventEnd w then (None, es @ [xs @ [w]]) else (Some (xs @ [w]), es))"

definition scan :: "token list \<Rightarrow> u32 list option \<times> u32 list list" where
  "scan ts = fold scan_step ts (None, [])"

definition events_of :: "token list \<Rightarrow> u32 list list" where
  "events_of ts = snd (scan ts)"

definition event_wf :: "u32 list \<Rightarrow> bool" where
  "event_wf e \<longleftrightarrow> (\<exists>s p t. e = s # p @ [t] \<and> isEventStart s \<and> isEventEnd t
     \<and> (\<forall>w \<in> set p. \<not> isEventStart w \<and> \<not> isEventEnd w))"

text \<open>Every event under construction stays shorter than the expected event size.\<close>

definition fits :: "nat \<Rightarrow> token list \<Rightarrow> bool" where
  "fits B ts \<longleftrightarrow> (\<forall>n \<le> length ts. case fst (scan (take n ts)) of None \<Rightarrow> True | Some xs \<Rightarrow> length xs < B)"

lemma scan_snoc: "scan (ts @ [t]) = scan_step t (scan ts)"
  by (simp add: scan_def)

lemma fits_snoc:
  "fits B (ts @ [t]) \<longleftrightarrow> fits B ts \<and>
     (case fst (scan (ts @ [t])) of None \<Rightarrow> True | Some xs \<Rightarrow> length xs < B)"
  unfolding fits_def by (auto simp: le_Suc_eq)

lemma start_not_end: "isEventStart w \<Longrightarrow> \<not> isEventEnd w"
  by (auto simp: isEventStart_def isEventEnd_def)

lemma events_of_snoc:
  "events_of (ts @ [t]) = events_of ts @ (case (t, fst (scan ts)) of
     (Wd w, Some xs) \<Rightarrow> if \<not> isEventStart w \<and> isEventEnd w then [xs @ [w]] else [] | _ \<Rightarrow> [])"
  by (cases "scan ts"; cases t) (auto simp: events_of_def scan_snoc split: option.splits)

lemma cur_snoc:
  "fst (scan (ts @ [t])) = (case t of Cut \<Rightarrow> None | Wd w \<Rightarrow>
     if isEventStart w then Some [w]
     else case fst (scan ts) of None \<Rightarrow> None
       | Some xs \<Rightarrow> if isEventEnd w then None else Some (xs @ [w]))"
  by (cases "scan ts"; cases t) (auto simp: scan_snoc split: option.splits)

lemma scan_Nil [simp]: "scan [] = (None, [])" "events_of [] = []"
  by (simp_all add: scan_def events_of_def)

text \<open>An event under construction is a start word followed by words that are neither start nor end.\<close>

lemma cur_shape:
  "fst (scan ts) = Some xs \<Longrightarrow> \<exists>s p. xs = s # p \<and> isEventStart s
     \<and> (\<forall>w \<in> set p. \<not> isEventStart w \<and> \<not> isEventEnd w)"
proof (induction ts arbitrary: xs rule: rev_induct)
  case (snoc t ts)
  then show ?case
    by (fastforce simp: cur_snoc split: token.splits if_splits option.splits)
qed simp

lemma events_of_wf: "e \<in> set (events_of ts) \<Longrightarrow> event_wf e"
proof (induction ts rule: rev_induct)
  case (snoc t ts)
  then show ?case
    using cur_shape [of ts]
    by (fastforce simp: events_of_snoc event_wf_def split: token.splits if_splits option.splits)
qed simp

lemma events_of_fits:
  assumes "fits B ts" and "e \<in> set (events_of ts)"
  shows "length e \<le> B"
  using assms
proof (induction ts rule: rev_induct)
  case (snoc t ts)
  have "fits B ts" using snoc.prems(1) by (simp add: fits_snoc)
  moreover have "case fst (scan ts) of None \<Rightarrow> True | Some xs \<Rightarrow> length xs < B"
    using \<open>fits B ts\<close> unfolding fits_def by (metis order_refl take_all_iff)
  ultimately show ?case
    using snoc by (auto simp: events_of_snoc split: token.splits if_splits option.splits)
qed simp

lemma fits_prefix: "fits B (ts @ us) \<Longrightarrow> fits B ts"
  by (induction us rule: rev_induct) (auto simp: fits_snoc simp flip: append_assoc)

lemma fits_cur: "fits B ts \<Longrightarrow> fst (scan ts) = Some xs \<Longrightarrow> length xs < B"
  unfolding fits_def by (metis option.simps(5) order_refl take_all_iff)

section \<open>Frame properties of the file switch\<close>

fun write_payload :: "io_event \<Rightarrow> u32 list" where
  "write_payload (EvWrite _ ws) = ws"
| "write_payload _ = []"

definition written :: "dh \<Rightarrow> u32 list" where
  "written d = concat (map write_payload (io_log d))"

text \<open>What the storage operations leave alone: the words written so far, the event counters, the block
  size and the pending resync.\<close>

definition same_data :: "dh \<Rightarrow> dh \<Rightarrow> bool" where
  "same_data d d' \<longleftrightarrow> written d' = written d \<and> event_count d' = event_count d
     \<and> event_start_markers d' = event_start_markers d \<and> event_end_markers d' = event_end_markers d
     \<and> DMABUFFSIZE d' = DMABUFFSIZE d \<and> resync_at_block d' = resync_at_block d
     \<and> run_number d' = run_number d"

lemma same_data_refl [simp]: "same_data d d"
  by (simp add: same_data_def)

lemma same_data_trans [trans]: "same_data a b \<Longrightarrow> same_data b c \<Longrightarrow> same_data a c"
  by (simp add: same_data_def)

lemma same_data_log [intro]: "write_payload e = [] \<Longrightarrow> same_data d (log_io e d)"
  by (simp add: same_data_def written_def log_io_def)

lemma same_data_steps [intro]:
  "same_data d (RequestDiskStop d)" "same_data d (tick d)" "same_data d (d\<lparr>fd := f\<rparr>)"
  "same_data d (d\<lparr>file_count := n\<rparr>)"
  by (simp_all add: same_data_def written_def RequestDiskStop_def tick_def)

lemma same_data_segment_log: "same_data d (AppendStorageSegmentLog env r d)"
  by (simp add: AppendStorageSegmentLog_def Let_def same_data_def written_def log_io_def tick_def)

lemma same_data_switch_to_disk: "same_data d (switch_to_disk env i p d)"
  using same_data_segment_log [of _ env "''failover''"]
  by (auto simp: switch_to_disk_def Let_def same_data_def written_def)

lemma same_data_MaybeSwitch: "same_data d (snd (MaybeSwitchDataDisk env d))"
  using same_data_switch_to_disk [of _ env]
  by (auto simp: MaybeSwitchDataDisk_def Let_def same_data_def written_def RequestDiskStop_def tick_def
      split: option.splits)

lemma same_data_open: "same_data d (snd (open_readout_file env d))"
  by (simp add: open_readout_file_def Let_def same_data_def written_def RequestDiskStop_def log_io_def
      split: sum.splits)

lemma same_data_close: "same_data d (close_in_background env d)"
  by (simp add: close_in_background_def Let_def same_data_def written_def log_io_def)

lemma same_data_SwitchWriteFile: "same_data d (snd (SwitchWriteFile env d))"
proof -
  let ?c = "close_in_background env d"
  let ?m = "snd (MaybeSwitchDataDisk env ?c)"
  have m: "same_data d ?m" using same_data_close same_data_MaybeSwitch by (rule same_data_trans)
  then have "same_data d (snd (open_readout_file env (?m\<lparr>file_count := file_count ?m + 1\<rparr>)))"
    using same_data_open same_data_steps(4) same_data_trans by blast
  then show ?thesis using m same_data_close by (simp add: SwitchWriteFile_def Let_def)
qed


section \<open>The write thread implements the specification\<close>

definition flushed :: "token list \<Rightarrow> u32 list list" where
  "flushed ts = take (EVENTCHUNK * (length (events_of ts) div EVENTCHUNK)) (events_of ts)"

definition pending :: "token list \<Rightarrow> u32 list list" where
  "pending ts = drop (EVENTCHUNK * (length (events_of ts) div EVENTCHUNK)) (events_of ts)"

definition in_progress :: "token list \<Rightarrow> u32 list" where
  "in_progress ts = (case fst (scan ts) of None \<Rightarrow> [] | Some xs \<Rightarrow> xs)"

text \<open>The state of the thread after the tokens \<^verbatim>\<open>ts\<close>: the buffer holds the complete events of the chunk,
  then the event under construction; everything before the chunk has been handed to \<^verbatim>\<open>write()\<close>; the
  counters count.\<close>

definition buffer_ok :: "nat \<Rightarrow> token list \<Rightarrow> wb \<Rightarrow> bool" where
  "buffer_ok B ts b \<longleftrightarrow> length (event_buffer b) = B * EVENTCHUNK
     \<and> take (num_words b) (event_buffer b) = concat (pending ts) @ in_progress ts
     \<and> num_words b = length (concat (pending ts) @ in_progress ts)
     \<and> event_start b = (fst (scan ts) \<noteq> None)
     \<and> (event_start b \<longrightarrow> event_begin b = length (concat (pending ts)))
     \<and> event_words b = length (concat (pending ts))
     \<and> event_chunk b = length (pending ts)"

definition counts_ok :: "token list \<Rightarrow> wb \<Rightarrow> bool" where
  "counts_ok ts b \<longleftrightarrow> local_event_count b = length (events_of ts)
     \<and> event_end_count b = length (events_of ts)
     \<and> event_start_count b = event_end_count b + dropped_partial b + (if event_start b then 1 else 0)"

definition output_ok :: "u32 list \<Rightarrow> token list \<Rightarrow> dh \<Rightarrow> bool" where
  "output_ok w0 ts d \<longleftrightarrow> written d = w0 @ concat (flushed ts) \<and> event_count d = length (events_of ts)"

definition refines :: "nat \<Rightarrow> u32 list \<Rightarrow> token list \<Rightarrow> dh \<times> wb \<Rightarrow> bool" where
  "refines B w0 ts s \<longleftrightarrow> buffer_ok B ts (snd s) \<and> counts_ok ts (snd s) \<and> output_ok w0 ts (fst s)"

lemmas refines_defs = refines_def buffer_ok_def counts_ok_def output_ok_def

lemma refines_frame [simp]:
  "refines B w0 ts (d\<lparr>stop_write := x\<rparr>, b) = refines B w0 ts (d, b)"
  "refines B w0 ts (d\<lparr>resync_at_block := n\<rparr>, b) = refines B w0 ts (d, b)"
  "refines B w0 ts (d, b\<lparr>blocks_read := n\<rparr>) = refines B w0 ts (d, b)"
  by (simp_all add: refines_defs written_def)

lemma length_pending: "length (pending ts) = length (events_of ts) mod EVENTCHUNK"
  by (simp add: pending_def modulo_nat_def mult.commute)

lemma pending_less: "length (pending ts) < EVENTCHUNK"
  by (simp add: length_pending EVENTCHUNK_def)

lemma flushed_pending: "flushed ts @ pending ts = events_of ts"
  by (simp add: flushed_def pending_def)

text \<open>The chunk after one more complete event: it grows by the event, or it is full and is flushed.\<close>

lemma chunk_add:
  assumes "events_of us = events_of ts @ [e]"
  shows "if Suc (length (pending ts)) = EVENTCHUNK
     then pending us = [] \<and> flushed us = flushed ts @ pending ts @ [e]
     else pending us = pending ts @ [e] \<and> flushed us = flushed ts"
proof -
  let ?n = "length (events_of ts)"
  have pos: "0 < EVENTCHUNK" by (simp add: EVENTCHUNK_def)
  have ev: "events_of us = flushed ts @ pending ts @ [e]" using assms flushed_pending [of ts] by simp
  show ?thesis
  proof (cases "Suc (length (pending ts)) = EVENTCHUNK")
    case True
    then have "Suc ?n mod EVENTCHUNK = 0" by (simp add: length_pending mod_Suc)
    then have "EVENTCHUNK * (length (events_of us) div EVENTCHUNK) = length (events_of us)"
      using assms by (metis length_append_singleton mult_div_mod_eq add.right_neutral)
    then show ?thesis using True ev by (simp add: pending_def [of us] flushed_def [of us])
  next
    case False
    then have "Suc ?n mod EVENTCHUNK = Suc (?n mod EVENTCHUNK)" by (simp add: length_pending mod_Suc)
    then have "Suc ?n div EVENTCHUNK = ?n div EVENTCHUNK" using pos by (simp add: div_Suc)
    then have "EVENTCHUNK * (length (events_of us) div EVENTCHUNK) = length (flushed ts)"
      using assms by (simp add: flushed_def)
    then show ?thesis using False ev by (simp add: pending_def [of us] flushed_def [of us])
  qed
qed

lemma chunk_same:
  assumes "events_of us = events_of ts"
  shows "pending us = pending ts" and "flushed us = flushed ts"
  using assms by (simp_all add: pending_def flushed_def)

lemma pending_fits:
  assumes "fits B ts"
  shows "length (concat (pending ts)) \<le> length (pending ts) * B"
proof -
  have "length e \<le> B" if "e \<in> set (pending ts)" for e
    using that events_of_fits [OF assms] by (auto simp: pending_def dest: in_set_dropD)
  then have "sum_list (map length (pending ts)) \<le> length (pending ts) * B"
    using sum_list_mono [of "pending ts" length "\<lambda>_. B"] by (simp add: sum_list_triv)
  then show ?thesis by (simp add: length_concat)
qed

text \<open>Within the expected event size the buffer never overflows.\<close>

lemma refines_no_overflow:
  assumes "refines B w0 ts (d, b)" and "fits B ts" and "0 < B"
  shows "num_words b < length (event_buffer b)" and "check_overflow b = b"
proof -
  have "length (in_progress ts) < B"
    using fits_cur [OF assms(2)] assms(3) by (auto simp: in_progress_def split: option.splits)
  then have "num_words b < Suc (length (pending ts)) * B"
    using assms(1) pending_fits [OF assms(2)] by (simp add: refines_defs)
  also have "\<dots> \<le> EVENTCHUNK * B" using pending_less [of ts] by (intro mult_right_mono) simp_all
  finally show "num_words b < length (event_buffer b)" using assms(1) by (simp add: refines_defs mult.commute)
  then show "check_overflow b = b" by (simp add: check_overflow_def)
qed

lemma take_update_Suc:
  "n < length xs \<Longrightarrow> take (Suc n) (xs[n := x]) = take n xs @ [x]"
  by (simp add: take_Suc_conv_app_nth)

text \<open>The effect of a full chunk.\<close>

lemma same_data_next_file: "same_data d (next_file env n d)"
  using same_data_SwitchWriteFile [of d env]
  by (auto simp: next_file_def same_data_def written_def split: prod.splits)

lemma note_write_effect:
  "same_data d (fst (note_write r (d, b))) \<and> (\<exists>n. snd (note_write r (d, b)) = b\<lparr>num_recv_bytes := n\<rparr>)"
proof -
  have "b = b\<lparr>num_recv_bytes := num_recv_bytes b\<rparr>" by simp
  then have "\<exists>n. b = b\<lparr>num_recv_bytes := n\<rparr>" ..
  then show ?thesis
    by (auto simp: note_write_def Let_def same_data_def written_def RequestDiskStop_def split: sum.splits)
qed

lemma flush_chunk_effect:
  fixes env d b
  defines "d' \<equiv> fst (flush_chunk env (d, b))" and "b' \<equiv> snd (flush_chunk env (d, b))"
  shows "written d' = written d @ take (num_words b) (event_buffer b)" and "event_count d' = event_count d"
    and "DMABUFFSIZE d' = DMABUFFSIZE d" and "resync_at_block d' = resync_at_block d"
    and "\<exists>n. b' = b\<lparr>num_recv_bytes := n, event_start := False, num_words := 0, event_words := 0, event_chunk := 0\<rparr>"
proof -
  let ?d1 = "log_io (EvWrite (fd d) (take (num_words b) (event_buffer b))) d"
  let ?r = "env_write env (clock d) (fd d) (take (num_words b) (event_buffer b))"
  let ?s = "note_write ?r (?d1, b)"
  have d': "d' = (next_file env (local_event_count (snd ?s)) (fst ?s))\<lparr>
      num_recv_mB := num_recv_bytes (snd ?s) div 1000000, num_event_chunk_words := num_words (snd ?s) div EVENTCHUNK\<rparr>"
    and b': "b' = (snd ?s)\<lparr>event_start := False, num_words := 0, event_words := 0, event_chunk := 0\<rparr>"
    by (simp_all add: d'_def b'_def flush_chunk_def write_words_def Let_def split: prod.splits)
  have same: "same_data ?d1 (next_file env (local_event_count (snd ?s)) (fst ?s))"
    using note_write_effect [of ?d1 ?r b] same_data_next_file same_data_trans by blast
  show "written d' = written d @ take (num_words b) (event_buffer b)" "event_count d' = event_count d"
    "DMABUFFSIZE d' = DMABUFFSIZE d" "resync_at_block d' = resync_at_block d"
    using same by (simp_all add: d' same_data_def written_def log_io_def)
  show "\<exists>n. b' = b\<lparr>num_recv_bytes := n, event_start := False, num_words := 0, event_words := 0, event_chunk := 0\<rparr>"
    using note_write_effect [of ?d1 ?r b] by (auto simp: b')
qed


definition put_word :: "u32 \<Rightarrow> wb \<Rightarrow> wb" where
  "put_word w b = b\<lparr>event_buffer := (event_buffer b)[num_words b := w], num_words := num_words b + 1\<rparr>"

lemma store_word_eq:
  "store_word env w (d, b) = (if event_chunk b = EVENTCHUNK then flush_chunk env (d, put_word w b)
     else (d, put_word w b))"
  by (simp add: store_word_def put_word_def Let_def)

lemma take_put_word:
  "num_words b < length (event_buffer b) \<Longrightarrow>
   take (num_words (put_word w b)) (event_buffer (put_word w b)) = take (num_words b) (event_buffer b) @ [w]"
  by (simp add: put_word_def take_update_Suc)

lemma take_rollback:
  assumes "take n xs = us @ vs" and "n = length (us @ vs)"
  shows "take (length us) xs = us"
  using assms by (metis append_eq_conv_conj length_append le_add1 min.absorb1 take_take)

lemma refines_buffer:
  assumes "refines B w0 ts (d, b)"
  shows "take (num_words b) (event_buffer b) = concat (pending ts) @ in_progress ts"
    and "take (length (concat (pending ts))) (event_buffer b) = concat (pending ts)"
proof -
  show tk: "take (num_words b) (event_buffer b) = concat (pending ts) @ in_progress ts"
    using assms unfolding refines_defs by (elim conjE) simp
  moreover have "num_words b = length (concat (pending ts) @ in_progress ts)"
    using assms unfolding refines_defs by simp
  ultimately show "take (length (concat (pending ts))) (event_buffer b) = concat (pending ts)"
    by (rule take_rollback)
qed

lemma refines_start:
  assumes "refines B w0 ts (d, b)" and "num_words b < length (event_buffer b)" and "isEventStart w"
  shows "refines B w0 (ts @ [Wd w])
    (store_word env w (d\<lparr>event_start_markers := n\<rparr>, begin_event b))"
proof -
  let ?b = "begin_event b"
  have ev: "events_of (ts @ [Wd w]) = events_of ts" "fst (scan (ts @ [Wd w])) = Some [w]"
    using assms(3) by (simp_all add: events_of_snoc cur_snoc split: option.splits)
  have nw: "num_words ?b = length (concat (pending ts))" and buf: "event_buffer ?b = event_buffer b"
    and chunk: "event_chunk ?b = length (pending ts)"
    using assms(1) by (auto simp: begin_event_def Let_def refines_defs in_progress_def)
  have tk: "take (num_words ?b) (event_buffer ?b) = concat (pending ts)"
    using refines_buffer(2) [OF assms(1)] by (simp add: nw buf)
  have lt: "num_words ?b < length (event_buffer ?b)"
    using assms(1,2) by (simp add: nw buf refines_defs)
  have "event_chunk ?b \<noteq> EVENTCHUNK" using pending_less [of ts] by (simp add: chunk)
  then have st: "store_word env w (d\<lparr>event_start_markers := n\<rparr>, ?b) = (d\<lparr>event_start_markers := n\<rparr>, put_word w ?b)"
    by (simp add: store_word_eq)
  have "buffer_ok B (ts @ [Wd w]) (put_word w ?b)"
    using assms(1) take_put_word [OF lt, of w] tk nw buf chunk ev chunk_same [OF ev(1)]
    by (simp add: buffer_ok_def put_word_def begin_event_def Let_def in_progress_def refines_defs)
  moreover have "counts_ok (ts @ [Wd w]) (put_word w ?b)"
    using assms(1) ev by (simp add: counts_ok_def put_word_def begin_event_def Let_def refines_def)
  ultimately show ?thesis
    unfolding st using assms(1) ev chunk_same [OF ev(1)]
    by (simp add: refines_def output_ok_def written_def)
qed

lemma refines_payload:
  assumes "refines B w0 ts (d, b)" and "num_words b < length (event_buffer b)"
    and "\<not> isEventStart w" "\<not> isEventEnd w" "event_start b"
  shows "refines B w0 (ts @ [Wd w]) (store_word env w (d, b))"
proof -
  obtain xs where xs: "fst (scan ts) = Some xs" using assms(1,5) by (auto simp: refines_defs)
  have ev: "events_of (ts @ [Wd w]) = events_of ts" "fst (scan (ts @ [Wd w])) = Some (xs @ [w])"
    using assms(3,4) xs by (simp_all add: events_of_snoc cur_snoc)
  have tk: "take (num_words (put_word w b)) (event_buffer (put_word w b)) = concat (pending ts) @ xs @ [w]"
    using take_put_word [OF assms(2), of w] refines_buffer(1) [OF assms(1)] xs by (simp add: in_progress_def)
  have "event_chunk b \<noteq> EVENTCHUNK" using pending_less [of ts] assms(1) by (simp add: refines_defs)
  moreover have "buffer_ok B (ts @ [Wd w]) (put_word w b)"
    unfolding buffer_ok_def tk using assms(1,5) ev xs chunk_same [OF ev(1)]
    by (simp add: refines_defs in_progress_def put_word_def)
  ultimately show ?thesis
    using assms(1) ev xs chunk_same [OF ev(1)] assms(5)
    by (simp add: store_word_eq refines_def counts_ok_def output_ok_def put_word_def)
qed

lemma refines_end:
  assumes "refines B w0 ts (d, b)" and "num_words b < length (event_buffer b)"
    and "\<not> isEventStart w" "isEventEnd w" "event_start b"
  shows "refines B w0 (ts @ [Wd w])
    (store_word env w (d\<lparr>event_end_markers := n, event_count := local_event_count (end_event b)\<rparr>, end_event b))"
proof -
  let ?b = "put_word w (end_event b)"
  let ?d = "d\<lparr>event_end_markers := n, event_count := local_event_count (end_event b)\<rparr>"
  obtain xs where xs: "fst (scan ts) = Some xs" using assms(1,5) by (auto simp: refines_defs)
  have ev: "events_of (ts @ [Wd w]) = events_of ts @ [xs @ [w]]" "fst (scan (ts @ [Wd w])) = None"
    using assms(3,4) xs by (simp_all add: events_of_snoc cur_snoc)
  note chunk = chunk_add [OF ev(1)]
  have "num_words (end_event b) < length (event_buffer (end_event b))"
    using assms(2) by (simp add: end_event_def)
  then have tk: "take (num_words ?b) (event_buffer ?b) = concat (pending ts @ [xs @ [w]])"
    using take_put_word [of "end_event b" w] refines_buffer(1) [OF assms(1)] xs
    by (simp add: end_event_def in_progress_def)
  have counts: "counts_ok (ts @ [Wd w]) ?b"
    using assms(1,5) ev by (simp add: refines_defs put_word_def end_event_def)
  have out: "written ?d = w0 @ concat (flushed ts)" "event_count ?d = length (events_of (ts @ [Wd w]))"
    using assms(1) ev by (simp_all add: refines_defs end_event_def written_def)
  show ?thesis
  proof (cases "Suc (length (pending ts)) = EVENTCHUNK")
    case True
    then have full: "event_chunk (end_event b) = EVENTCHUNK"
      using assms(1) by (simp add: end_event_def refines_defs)
    obtain m where fb: "snd (flush_chunk env (?d, ?b))
        = ?b\<lparr>num_recv_bytes := m, event_start := False, num_words := 0, event_words := 0, event_chunk := 0\<rparr>"
      using flush_chunk_effect(5) by blast
    have "buffer_ok B (ts @ [Wd w]) (snd (flush_chunk env (?d, ?b)))"
      unfolding fb using assms(1) True chunk ev
      by (simp add: buffer_ok_def in_progress_def refines_def put_word_def end_event_def)
    moreover have "counts_ok (ts @ [Wd w]) (snd (flush_chunk env (?d, ?b)))"
      unfolding fb using counts by (simp add: counts_ok_def put_word_def end_event_def)
    moreover have "output_ok w0 (ts @ [Wd w]) (fst (flush_chunk env (?d, ?b)))"
      using out True chunk flush_chunk_effect(1,2) [of env ?d ?b] tk by (simp add: output_ok_def)
    ultimately show ?thesis using full by (simp add: store_word_eq refines_def)
  next
    case False
    then have "event_chunk (end_event b) \<noteq> EVENTCHUNK"
      using assms(1) by (simp add: end_event_def refines_defs)
    moreover have "buffer_ok B (ts @ [Wd w]) ?b"
      using assms(1) False chunk ev tk xs
      by (simp add: buffer_ok_def in_progress_def refines_defs put_word_def end_event_def)
    ultimately show ?thesis
      using counts out False chunk by (simp add: store_word_eq refines_def output_ok_def)
  qed
qed

lemma refines_word:
  assumes "refines B w0 ts s" and "fits B (ts @ [Wd w])" and "0 < B"
  shows "refines B w0 (ts @ [Wd w]) (process_word env w s)"
proof -
  obtain d b where s: "s = (d, b)" by fastforce
  have "fits B ts" using assms(2) by (rule fits_prefix)
  note room = refines_no_overflow [OF assms(1) [unfolded s] this assms(3)]
  note ref = assms(1) [unfolded s]
  consider "isEventStart w" | "\<not> isEventStart w" "\<not> event_start b"
    | "\<not> isEventStart w" "event_start b" "isEventEnd w"
    | "\<not> isEventStart w" "event_start b" "\<not> isEventEnd w" by blast
  then show ?thesis
  proof cases
    case 2
    then have "fst (scan ts) = None" using ref by (simp add: refines_defs)
    then have "events_of (ts @ [Wd w]) = events_of ts" "fst (scan (ts @ [Wd w])) = None"
      using 2 by (simp_all add: events_of_snoc cur_snoc)
    then show ?thesis
      using ref 2 room chunk_same [of "ts @ [Wd w]" ts] refines_buffer(2) [OF ref]
      by (simp add: s process_word_def refines_defs in_progress_def)
  qed (use ref room refines_start refines_end refines_payload in \<open>simp_all add: s process_word_def Let_def\<close>)
qed


lemma refines_words:
  assumes "refines B w0 ts s" and "fits B (ts @ map Wd ws)" and "0 < B"
  shows "refines B w0 (ts @ map Wd ws) (fold (process_word env) ws s)"
  using assms(1,2)
proof (induction ws arbitrary: ts s)
  case (Cons w ws)
  have "fits B (ts @ [Wd w])" using Cons.prems(2) fits_prefix [of B "ts @ [Wd w]" "map Wd ws"] by simp
  then have "refines B w0 (ts @ [Wd w]) (process_word env w s)"
    using Cons.prems(1) assms(3) by (intro refines_word)
  then show ?case using Cons.IH [of "ts @ [Wd w]" "process_word env w s"] Cons.prems(2) by simp
qed simp

text \<open>Words change neither the block size nor the pending resync.\<close>

lemma process_word_frame:
  "DMABUFFSIZE (fst (process_word env w s)) = DMABUFFSIZE (fst s)
   \<and> resync_at_block (fst (process_word env w s)) = resync_at_block (fst s)
   \<and> blocks_read (snd (process_word env w s)) = blocks_read (snd s)"
proof -
  obtain d b where s: "s = (d, b)" by fastforce
  have store: "DMABUFFSIZE (fst (store_word env w (d, b))) = DMABUFFSIZE d
      \<and> resync_at_block (fst (store_word env w (d, b))) = resync_at_block d
      \<and> blocks_read (snd (store_word env w (d, b))) = blocks_read b" for d b
  proof -
    obtain n where "snd (flush_chunk env (d, put_word w b)) = (put_word w b)\<lparr>num_recv_bytes := n,
        event_start := False, num_words := 0, event_words := 0, event_chunk := 0\<rparr>"
      using flush_chunk_effect(5) by blast
    then show ?thesis
      using flush_chunk_effect(3,4) [of env d "put_word w b"] by (simp add: store_word_eq put_word_def)
  qed
  show ?thesis
    by (simp add: s process_word_def Let_def store check_overflow_def begin_event_def end_event_def)
qed

lemma process_words_frame:
  "DMABUFFSIZE (fst (fold (process_word env) ws s)) = DMABUFFSIZE (fst s)
   \<and> resync_at_block (fst (fold (process_word env) ws s)) = resync_at_block (fst s)
   \<and> blocks_read (snd (fold (process_word env) ws s)) = blocks_read (snd s)"
  by (induction ws arbitrary: s) (simp_all add: process_word_frame)

section \<open>The stream seen by the write thread\<close>

text \<open>The tokens of a block: a cut when a resync is due, then the words of the DMA transfer.\<close>

definition block_tokens :: "nat \<Rightarrow> dh \<times> wb \<Rightarrow> u32 list \<Rightarrow> token list" where
  "block_tokens nwords s ws = (if blocks_read (snd s) \<ge> resync_at_block (fst s) then [Cut] else [])
     @ map Wd (take nwords ws)"

lemma refines_cut:
  assumes "refines B w0 ts (d, b)"
  shows "refines B w0 (ts @ [Cut]) (d\<lparr>resync_at_block := n\<rparr>,
    if event_start b then b\<lparr>num_words := event_begin b, event_start := False,
      dropped_partial := dropped_partial b + 1\<rparr> else b)"
proof -
  have ev: "events_of (ts @ [Cut]) = events_of ts" "fst (scan (ts @ [Cut])) = None"
    by (simp_all add: events_of_snoc cur_snoc)
  then show ?thesis
    using assms refines_buffer(2) [OF assms] chunk_same [OF ev(1)]
    by (auto simp: refines_defs in_progress_def written_def)
qed

lemma refines_block:
  assumes "refines B w0 ts s" and "fits B (ts @ block_tokens (DMABUFFSIZE (fst s) div 4) s ws)" and "0 < B"
  shows "refines B w0 (ts @ block_tokens (DMABUFFSIZE (fst s) div 4) s ws) (process_block env ws s)"
proof -
  obtain d b where s: "s = (d, b)" by fastforce
  define cs where "cs = (if blocks_read b \<ge> resync_at_block d then [Cut] else [])"
  obtain d1 b1 where rc: "resync_check s = (d1, b1)" by fastforce
  have "refines B w0 (ts @ cs) (d1, b1)"
    using assms(1) refines_cut [of B w0 ts d b kNoResync] rc
    by (auto simp: s cs_def resync_check_def split: if_splits)
  then have "refines B w0 (ts @ cs) (d1, b1\<lparr>blocks_read := blocks_read b1 + 1\<rparr>)"
    by simp
  moreover have "DMABUFFSIZE d1 = DMABUFFSIZE d" using rc by (auto simp: s resync_check_def split: if_splits)
  ultimately show ?thesis
    using refines_words [of B w0 "ts @ cs" "(d1, b1\<lparr>blocks_read := blocks_read b1 + 1\<rparr>)"
        "take (DMABUFFSIZE d div 4) ws" env] assms(2,3) rc
    by (simp add: block_tokens_def process_block_def s cs_def)
qed

text \<open>The tokens of a sequence of events of the write thread, with the index of the next block and the
  pending resync.\<close>

fun tokens_of :: "nat \<Rightarrow> nat \<Rightarrow> nat \<Rightarrow> wevent list \<Rightarrow> token list" where
  "tokens_of nwords blk rs [] = []"
| "tokens_of nwords blk rs (Block ws # evs) =
     (if blk \<ge> rs then [Cut] else []) @ map Wd (take nwords ws)
     @ tokens_of nwords (Suc blk) (if blk \<ge> rs then kNoResync else rs) evs"
| "tokens_of nwords blk rs (StoreResync n # evs) = tokens_of nwords blk n evs"
| "tokens_of nwords blk rs (_ # evs) = tokens_of nwords blk rs evs"

text \<open>The effect of one event of the write thread, without the test of \<^verbatim>\<open>stop_write_\<close>.\<close>

fun wstep :: "io_env \<Rightarrow> wevent \<Rightarrow> dh \<times> wb \<Rightarrow> dh \<times> wb" where
  "wstep env (Block ws) s = process_block env ws s"
| "wstep env QueueEmpty s = s"
| "wstep env StoreStop s = ((fst s)\<lparr>stop_write := True\<rparr>, snd s)"
| "wstep env (StoreResync n) s = ((fst s)\<lparr>resync_at_block := n\<rparr>, snd s)"

lemma process_block_frame:
  "DMABUFFSIZE (fst (process_block env ws s)) = DMABUFFSIZE (fst s)"
  "resync_at_block (fst (process_block env ws s))
     = (if blocks_read (snd s) \<ge> resync_at_block (fst s) then kNoResync else resync_at_block (fst s))"
  "blocks_read (snd (process_block env ws s)) = Suc (blocks_read (snd s))"
  using process_words_frame [of env]
  by (auto simp: process_block_def resync_check_def Let_def split: prod.splits)

lemma refines_run:
  assumes "refines B w0 ts s" and "0 < B"
    and "fits B (ts @ tokens_of (DMABUFFSIZE (fst s) div 4) (blocks_read (snd s)) (resync_at_block (fst s)) evs)"
  shows "refines B w0
    (ts @ tokens_of (DMABUFFSIZE (fst s) div 4) (blocks_read (snd s)) (resync_at_block (fst s)) evs)
    (fold (wstep env) evs s)"
  using assms(1,3)
proof (induction evs arbitrary: ts s)
  case (Cons ev evs)
  show ?case
  proof (cases ev)
    case (Block ws)
    let ?bt = "block_tokens (DMABUFFSIZE (fst s) div 4) s ws"
    let ?rest = "tokens_of (DMABUFFSIZE (fst s) div 4) (Suc (blocks_read (snd s)))
      (if blocks_read (snd s) \<ge> resync_at_block (fst s) then kNoResync else resync_at_block (fst s)) evs"
    have tok: "tokens_of (DMABUFFSIZE (fst s) div 4) (blocks_read (snd s)) (resync_at_block (fst s)) (ev # evs)
        = ?bt @ ?rest" by (simp add: Block block_tokens_def)
    have "fits B (ts @ ?bt)" using Cons.prems(2) fits_prefix [of B "ts @ ?bt" ?rest] by (simp add: tok)
    then have "refines B w0 (ts @ ?bt) (process_block env ws s)"
      using Cons.prems(1) assms(2) by (intro refines_block)
    then show ?thesis
      using Cons.IH [of "ts @ ?bt" "process_block env ws s"] Cons.prems(2)
      unfolding tok by (simp add: Block process_block_frame)
  next
    case StoreStop
    have "refines B w0 ts ((fst s)\<lparr>stop_write := True\<rparr>, snd s)"
      using Cons.prems(1) by simp
    then show ?thesis using Cons.IH [of ts "((fst s)\<lparr>stop_write := True\<rparr>, snd s)"] Cons.prems(2)
      by (simp add: StoreStop)
  next
    case (StoreResync n)
    have "refines B w0 ts ((fst s)\<lparr>resync_at_block := n\<rparr>, snd s)"
      using Cons.prems(1) by simp
    then show ?thesis using Cons.IH [of ts "((fst s)\<lparr>resync_at_block := n\<rparr>, snd s)"] Cons.prems(2)
      by (simp add: StoreResync)
  qed (use Cons in simp)
qed simp

text \<open>The loop runs to the first empty queue at which the stop flag is seen.\<close>

lemma write_loop_Some:
  assumes "write_loop env evs s = Some s'"
  obtains pre post where "evs = pre @ QueueEmpty # post" "s' = fold (wstep env) pre s" "stop_write (fst s')"
  using assms
proof (induction evs arbitrary: s thesis)
  case (Cons ev evs)
  show ?case
  proof (cases "ev = QueueEmpty \<and> stop_write (fst s)")
    case True
    then show ?thesis using Cons.prems(1) [of "[]" evs] Cons.prems(2) by auto
  next
    case False
    then have "write_loop env evs (wstep env ev s) = Some s'" using Cons.prems(2) by (cases ev) auto
    then show ?thesis using Cons.IH Cons.prems(1) [of "ev # _"] by (metis append_Cons fold_simps(2))
  qed
qed simp


lemma written_log [simp]: "written (log_io e d) = written d @ write_payload e"
  by (simp add: written_def log_io_def)

lemma refines_start_state: "refines DATABUFFSIZE (written d) [] (DataWrite_start env d)"
  using same_data_open [of d env]
  by (simp add: DataWrite_start_def Let_def refines_defs init_wb_def EVENTBUFFSIZE_def
      in_progress_def pending_def flushed_def same_data_def written_def)

lemma start_fields:
  "DMABUFFSIZE (fst (DataWrite_start env d)) = DMABUFFSIZE d"
  "resync_at_block (fst (DataWrite_start env d)) = kNoResync"
  "blocks_read (snd (DataWrite_start env d)) = 0"
  using same_data_open [of d env] by (simp_all add: DataWrite_start_def Let_def same_data_def init_wb_def)

lemma finish_effect:
  assumes "refines B w0 ts s" and "DataWrite_finish env s = (d', b')"
  shows "written d' = w0 @ concat (events_of ts) \<and> event_count d' = length (events_of ts)
    \<and> event_start_count b' = event_end_count b' + dropped_partial b' + (if event_start b' then 1 else 0)
    \<and> event_end_count b' = length (events_of ts)"
proof -
  obtain d b where s: "s = (d, b)" by fastforce
  have "take (event_words b) (event_buffer b) = concat (pending ts)"
    using refines_buffer(2) [OF assms(1) [unfolded s]] assms(1) by (simp add: s refines_def buffer_ok_def)
  moreover have "concat (flushed ts) @ concat (pending ts) = concat (events_of ts)"
    using flushed_pending [of ts] by (metis concat_append)
  ultimately have "written d' = w0 @ concat (events_of ts) \<and> event_count d' = event_count d"
    using assms unfolding s
    by (auto simp: DataWrite_finish_def write_words_def Let_def refines_defs log_io_def written_def
        split: sum.splits)
  moreover have "\<exists>n. b' = b\<lparr>num_recv_bytes := n\<rparr> \<or> b' = b"
    using assms(2) by (auto simp: s DataWrite_finish_def write_words_def Let_def split: sum.splits)
  ultimately show ?thesis using assms(1) by (auto simp: s refines_defs)
qed

lemma DataWrite_complete:
  assumes "DataWrite env evs d = Some (d', b')" and "\<not> stop_write (fst (DataWrite_start env d))"
    and "fits DATABUFFSIZE (tokens_of (DMABUFFSIZE d div 4) 0 kNoResync evs)"
  shows "\<exists>pre post. evs = pre @ QueueEmpty # post \<and>
    (let events = events_of (tokens_of (DMABUFFSIZE d div 4) 0 kNoResync pre) in
     written d' = written d @ concat events \<and> event_count d' = length events
     \<and> event_end_count b' = length events
     \<and> event_start_count b' = event_end_count b' + dropped_partial b' + (if event_start b' then 1 else 0))"
proof -
  let ?s = "DataWrite_start env d"
  obtain s' where "write_loop env evs ?s = Some s'" and fin: "DataWrite_finish env s' = (d', b')"
    using assms(1,2) by (auto simp: DataWrite_def Let_def)
  then obtain pre post where evs: "evs = pre @ QueueEmpty # post" and s': "s' = fold (wstep env) pre ?s"
    by (elim write_loop_Some) blast
  let ?ts = "tokens_of (DMABUFFSIZE d div 4) 0 kNoResync pre"
  have "\<exists>us. tokens_of n k r (pre @ qs) = tokens_of n k r pre @ us" for n k r qs
    by (induction n k r pre rule: tokens_of.induct) auto
  then have "fits DATABUFFSIZE ?ts" using assms(3) fits_prefix unfolding evs by metis
  then have "refines DATABUFFSIZE (written d) ?ts s'"
    using refines_run [OF refines_start_state [of d env], of pre env]
    by (simp add: s' start_fields DATABUFFSIZE_def EVENTSIZE_def)
  then show ?thesis using finish_effect fin evs unfolding Let_def by metis
qed

lemma DataWrite_run:
  assumes "DataWrite env evs d = Some (d', b')" and "\<not> stop_write (fst (DataWrite_start env d))"
    and "fits DATABUFFSIZE (tokens_of (DMABUFFSIZE d div 4) 0 kNoResync evs)"
  shows "\<exists>pre post. evs = pre @ QueueEmpty # post \<and>
    written d' = written d @ concat (events_of (tokens_of (DMABUFFSIZE d div 4) 0 kNoResync pre))"
  using DataWrite_complete [OF assms] unfolding Let_def by blast

text \<open>C2: Whatever the operating system answers, when the write thread returns, the words it handed to
  \<^verbatim>\<open>write()\<close> are exactly the complete events (start word to end word) of the blocks it took from the
  queue, each once, in order and nothing else; \<^verbatim>\<open>event_count_\<close> is their number, and every start marker is
  accounted for by a complete event, a dropped partial event or the event still open.  The events are
  assumed to stay within the documented maximum of \<^verbatim>\<open>EVENTSIZE\<close> bytes.\<close>
theorem DataWrite_writes_complete_events:
  assumes "DataWrite env evs d = Some (d', b')" and "\<not> stop_write (fst (DataWrite_start env d))"
    and "fits DATABUFFSIZE (tokens_of (DMABUFFSIZE d div 4) 0 kNoResync evs)"
  shows "\<exists>pre post. evs = pre @ QueueEmpty # post \<and>
    (let events = events_of (tokens_of (DMABUFFSIZE d div 4) 0 kNoResync pre) in
     written d' = written d @ concat events \<and> event_count d' = length events
     \<and> event_end_count b' = length events
     \<and> event_start_count b' = event_end_count b' + dropped_partial b' + (if event_start b' then 1 else 0))"
  using DataWrite_complete [OF assms] .

section \<open>What ends up in the files\<close>

text \<open>The files opened so far, each with its descriptor and the words written to it while it was the
  current file.\<close>

fun file_event :: "io_event \<Rightarrow> (string \<times> int \<times> u32 list) list \<Rightarrow> (string \<times> int \<times> u32 list) list" where
  "file_event (EvOpen name f) fs = fs @ [(name, f, [])]"
| "file_event (EvWrite f ws) fs = (case rev fs of [] \<Rightarrow> fs
     | (name, g, content) # older \<Rightarrow> if f = g then rev older @ [(name, g, content @ ws)] else fs)"
| "file_event _ fs = fs"

definition files_of :: "io_event list \<Rightarrow> (string \<times> int \<times> u32 list) list" where
  "files_of log = fold file_event log []"

definition file_data :: "io_event list \<Rightarrow> (string \<times> u32 list) list" where
  "file_data log = map (\<lambda>(name, _, content). (name, content)) (files_of log)"

text \<open>A healthy system: files open, the data disk keeps its reserve, writes are complete.\<close>

definition healthy :: "io_env \<Rightarrow> bool" where
  "healthy env \<longleftrightarrow> (\<forall>t name. \<exists>f. env_open env t name = Inr f)
     \<and> (\<forall>t path. has_free (env_os env t) kDiskFileSwitchMinFreeBytes path)
     \<and> (\<forall>t f ws. env_write env t f ws = Inr (4 * length ws))"

definition run_ok :: "dh \<Rightarrow> bool" where
  "run_ok d \<longleftrightarrow> \<not> stop_write d \<and> \<not> disk_stop_requested d"

lemma close_fields:
  "io_log (close_in_background env d) = io_log d @ [EvClose (fd d)]"
  "disk_stop_requested (close_in_background env d) = disk_stop_requested d"
  "stop_write (close_in_background env d) = stop_write d"
  "file_count (close_in_background env d) = file_count d"
  "write_file_name (close_in_background env d) = write_file_name d"
  by (simp_all add: close_in_background_def Let_def log_io_def)

lemma healthy_no_failover:
  assumes "healthy env"
  shows "snd (MaybeSwitchDataDisk env d) \<in> {d, tick d}"
  using assms by (auto simp: MaybeSwitchDataDisk_def healthy_def has_free_def Let_def tick_def split: option.splits)

lemma healthy_switch:
  assumes "healthy env" and "\<not> disk_stop_requested d"
  obtains f d' where "SwitchWriteFile env d = (True, d')" "fd d' = int f"
    "io_log d' = io_log d @ [EvClose (fd d), EvOpen (write_file_name d @ to_string (Suc (file_count d)) @ ''.dat'') (int f)]"
    "file_count d' = Suc (file_count d)" "write_file_name d' = write_file_name d"
    "stop_write d' = stop_write d" "disk_stop_requested d' = disk_stop_requested d"
proof -
  define c where "c = close_in_background env d"
  define m where "m = snd (MaybeSwitchDataDisk env c)"
  have m: "m \<in> {c, tick c}" using healthy_no_failover [OF assms(1)] by (simp add: m_def)
  then have fields: "io_log m = io_log d @ [EvClose (fd d)]" "disk_stop_requested m = disk_stop_requested d"
    "stop_write m = stop_write d" "file_count m = file_count d" "write_file_name m = write_file_name d"
    using close_fields [of env d] by (auto simp: c_def tick_def)
  let ?m = "m\<lparr>file_count := file_count m + 1\<rparr>"
  obtain f where f: "env_open env (clock m) (readout_file ?m) = Inr f"
    using assms(1) unfolding healthy_def by blast
  define d' where "d' = log_io (EvOpen (readout_file ?m) (int f)) (?m\<lparr>fd := int f\<rparr>)"
  have sw: "SwitchWriteFile env d = (True, d')"
    using assms(2) f fields(2) close_fields(2) [of env d]
    by (simp add: SwitchWriteFile_def Let_def open_readout_file_def d'_def flip: c_def m_def)
  show ?thesis
    by (rule that [OF sw, of f]) (simp_all add: d'_def log_io_def readout_file_def fields)
qed


text \<open>The contents of the successive files of a run with the events \<^verbatim>\<open>es\<close>: 5000 events each, the last file
  holding the rest.\<close>

definition file_chunk :: "u32 list list \<Rightarrow> nat \<Rightarrow> u32 list" where
  "file_chunk es i = concat (take 5000 (drop (5000 * i) es))"

definition file_chunks :: "u32 list list \<Rightarrow> u32 list list" where
  "file_chunks es = map (file_chunk es) [0..<Suc (length es div 5000)]"

definition named_chunks :: "string \<Rightarrow> nat \<Rightarrow> u32 list list \<Rightarrow> (string \<times> u32 list) list" where
  "named_chunks base fc es =
     map (\<lambda>i. (base @ to_string (fc + i) @ ''.dat'', file_chunk es i)) [0..<Suc (length es div 5000)]"

lemma file_chunk_append:
  assumes "5000 * Suc i \<le> length es"
  shows "file_chunk (es @ cs) i = file_chunk es i"
  using assms by (simp add: file_chunk_def)

lemma file_chunk_last:
  "length es mod 5000 + length cs \<le> 5000 \<Longrightarrow>
   file_chunk (es @ cs) (length es div 5000) = file_chunk es (length es div 5000) @ concat cs"
proof -
  assume le: "length es mod 5000 + length cs \<le> 5000"
  let ?q = "length es div 5000"
  have len: "length (drop (5000 * ?q) es) = length es mod 5000" by (simp add: minus_mult_div_eq_mod)
  have "drop (5000 * ?q) (es @ cs) = drop (5000 * ?q) es @ cs" by simp
  moreover have "length (drop (5000 * ?q) es) \<le> 5000" using len by simp
  ultimately show ?thesis using le len by (simp add: file_chunk_def)
qed

lemma named_chunks_grow:
  assumes "length es mod 5000 + length cs \<le> 5000" and "cs \<noteq> []"
  shows "named_chunks base fc (es @ cs) =
    butlast (named_chunks base fc es)
    @ [(fst (last (named_chunks base fc es)), snd (last (named_chunks base fc es)) @ concat cs)]
    @ (if length (es @ cs) mod 5000 = 0
       then [(base @ to_string (fc + length (es @ cs) div 5000) @ ''.dat'', [])] else [])"
proof -
  let ?q = "length es div 5000" and ?n = "\<lambda>i. base @ to_string (fc + i) @ ''.dat''"
  have old: "map (\<lambda>i. (?n i, file_chunk (es @ cs) i)) [0..<?q] = map (\<lambda>i. (?n i, file_chunk es i)) [0..<?q]"
  proof (rule map_cong [OF refl])
    fix i assume "i \<in> set [0..<?q]"
    then have "5000 * Suc i \<le> 5000 * ?q" by (intro mult_le_mono2) simp
    also have "\<dots> \<le> length es" by simp
    finally show "(?n i, file_chunk (es @ cs) i) = (?n i, file_chunk es i)" by (simp only: file_chunk_append)
  qed
  have last: "file_chunk (es @ cs) ?q = file_chunk es ?q @ concat cs"
    using assms(1) by (rule file_chunk_last)
  have len: "length (es @ cs) = 5000 * ?q + (length es mod 5000 + length cs)" by simp
  show ?thesis
  proof (cases "length es mod 5000 + length cs = 5000")
    case True
    then have q: "length (es @ cs) div 5000 = Suc ?q" and m: "length (es @ cs) mod 5000 = 0"
      using len by simp_all
    have "length (es @ cs) = 5000 * Suc ?q" using len True by simp
    then have "file_chunk (es @ cs) (Suc ?q) = []" by (simp add: file_chunk_def)
    then show ?thesis using old last unfolding named_chunks_def q m by (simp del: length_append)
  next
    case False
    then have lt: "length es mod 5000 + length cs < 5000" using assms(1) by simp
    then have q: "length (es @ cs) div 5000 = ?q"
      unfolding len using div_mult_self4 [of 5000 ?q "length es mod 5000 + length cs"] by simp
    have "0 < length es mod 5000 + length cs" using assms(2) by simp
    then have m: "length (es @ cs) mod 5000 \<noteq> 0" using lt len by (metis mod_less mod_mult_self4 less_irrefl)
    show ?thesis using old last m unfolding named_chunks_def q by (simp del: length_append)
  qed
qed

abbreviation strip_fd :: "string \<times> int \<times> u32 list \<Rightarrow> string \<times> u32 list" where
  "strip_fd \<equiv> \<lambda>(name, _, content). (name, content)"

definition files_ok :: "(string \<times> u32 list) list \<Rightarrow> string \<Rightarrow> nat \<Rightarrow> token list \<Rightarrow> dh \<Rightarrow> bool" where
  "files_ok fs0 base fc ts d \<longleftrightarrow> run_ok d \<and> write_file_name d = base
     \<and> file_count d = fc + length (flushed ts) div 5000
     \<and> (\<exists>gs n c. files_of (io_log d) = gs @ [(n, fd d, c)]
         \<and> map strip_fd gs @ [(n, c)] = fs0 @ named_chunks base fc (flushed ts))"

lemma files_of_snoc: "files_of (log @ [e]) = file_event e (files_of log)"
  by (simp add: files_of_def)

lemma named_chunks_not_Nil [simp]: "named_chunks base fc es \<noteq> []"
  by (simp add: named_chunks_def)

lemma files_ok_cong:
  assumes "files_ok fs0 base fc ts d" and "flushed us = flushed ts"
    and "io_log d' = io_log d" "fd d' = fd d" "file_count d' = file_count d"
    "write_file_name d' = write_file_name d" "stop_write d' = stop_write d"
    "disk_stop_requested d' = disk_stop_requested d"
  shows "files_ok fs0 base fc us d'"
  using assms by (simp add: files_ok_def run_ok_def)

lemma chunk_steps:
  fixes a :: nat
  assumes "a mod 10 = 0"
  shows "a mod 5000 + 10 \<le> 5000"
    and "(a + 10) mod 5000 \<noteq> 0 \<Longrightarrow> (a + 10) div 5000 = a div 5000"
    and "(a + 10) mod 5000 = 0 \<Longrightarrow> (a + 10) div 5000 = Suc (a div 5000)"
proof -
  let ?r = "a mod 5000"
  have "?r mod 10 = 0" using assms by (simp add: mod_mod_cancel)
  then have "?r = 10 * (?r div 10)" by (metis add.right_neutral mult_div_mod_eq)
  moreover have "?r div 10 < 500" by (simp add: less_mult_imp_div_less)
  ultimately show r: "?r + 10 \<le> 5000" by linarith
  have eq: "a + 10 = 5000 * (a div 5000) + (?r + 10)" by simp
  have "(a + 10) div 5000 = a div 5000 + (?r + 10) div 5000" "(a + 10) mod 5000 = (?r + 10) mod 5000"
    using eq div_mult_self4 [of 5000 "a div 5000" "?r + 10"] mod_mult_self4 [of 5000 "a div 5000" "?r + 10"]
    by simp_all
  moreover have "?r + 10 = 5000 \<or> ?r + 10 < 5000" using r by linarith
  ultimately show "(a + 10) mod 5000 \<noteq> 0 \<Longrightarrow> (a + 10) div 5000 = a div 5000"
    "(a + 10) mod 5000 = 0 \<Longrightarrow> (a + 10) div 5000 = Suc (a div 5000)" by auto
qed

text \<open>One flush: the chunk goes to the current file, and every 5000 events the next file is opened.\<close>

lemma files_ok_flush:
  assumes ok: "files_ok fs0 base fc ts d" and fl: "flushed us = flushed ts @ cs" and cs: "length cs = EVENTCHUNK"
    and mult: "length (flushed ts) mod EVENTCHUNK = 0" and h: "healthy env"
  shows "files_ok fs0 base fc us
    (next_file env (length (flushed us)) (log_io (EvWrite (fd d) (concat cs)) d))"
proof -
  let ?es = "flushed ts" and ?n = "length (flushed us)" and ?d1 = "log_io (EvWrite (fd d) (concat cs)) d"
  obtain gs n c where fs: "files_of (io_log d) = gs @ [(n, fd d, c)]"
    and nc: "map strip_fd gs @ [(n, c)] = fs0 @ named_chunks base fc ?es"
    using ok by (auto simp: files_ok_def)
  have split: "map strip_fd gs = fs0 @ butlast (named_chunks base fc ?es)"
    "last (named_chunks base fc ?es) = (n, c)"
    using arg_cong [OF nc, of butlast] arg_cong [OF nc, of last] by (simp_all add: butlast_append)
  have fs1: "files_of (io_log ?d1) = gs @ [(n, fd d, c @ concat cs)]"
    using fs by (simp add: log_io_def files_of_snoc)
  note steps = chunk_steps [OF mult [unfolded EVENTCHUNK_def]]
  have le: "length ?es mod 5000 + length cs \<le> 5000" using cs steps(1) by (simp add: EVENTCHUNK_def)
  have "cs \<noteq> []" using cs by (auto simp: EVENTCHUNK_def)
  note grow = named_chunks_grow [OF le this, of base fc, folded fl, unfolded split(2) fst_conv snd_conv]
  have len: "?n = length ?es + 10" using fl cs by (simp add: EVENTCHUNK_def)
  have d1: "fd ?d1 = fd d" "file_count ?d1 = file_count d" "write_file_name ?d1 = write_file_name d"
    "run_ok ?d1" "disk_stop_requested ?d1 = disk_stop_requested d" "stop_write ?d1 = stop_write d"
    using ok by (simp_all add: log_io_def files_ok_def run_ok_def)
  show ?thesis
  proof (cases "?n mod 5000 = 0")
    case False
    then have "?n div 5000 = length ?es div 5000" using steps(2) len by simp
    then show ?thesis
      using False fs1 grow split(1) d1 ok by (auto simp: files_ok_def next_file_def)
  next
    case True
    have nd: "\<not> disk_stop_requested ?d1" using d1(4) by (simp add: run_ok_def)
    obtain f d' where sw: "SwitchWriteFile env ?d1 = (True, d')" "fd d' = int f"
      "io_log d' = io_log ?d1 @ [EvClose (fd ?d1), EvOpen (write_file_name ?d1 @ to_string (Suc (file_count ?d1)) @ ''.dat'') (int f)]"
      "file_count d' = Suc (file_count ?d1)" "write_file_name d' = write_file_name ?d1"
      "stop_write d' = stop_write ?d1" "disk_stop_requested d' = disk_stop_requested ?d1"
      by (rule healthy_switch [OF h nd])
    have q: "?n div 5000 = Suc (length ?es div 5000)" using True steps(3) len by simp
    have "files_of (io_log d') = (gs @ [(n, fd d, c @ concat cs)])
        @ [(base @ to_string (fc + ?n div 5000) @ ''.dat'', fd d', [])]"
      using sw fs1 d1 ok q by (simp add: files_of_def files_ok_def)
    moreover have "next_file env ?n ?d1 = d'" using True sw(1) len by (simp add: next_file_def)
    ultimately show ?thesis
      using sw d1 ok q grow True split(1) by (auto simp: files_ok_def run_ok_def)
  qed
qed


lemma flush_healthy:
  assumes "healthy env"
  obtains x y where "fst (flush_chunk env (d, b)) =
    (next_file env (local_event_count b) (log_io (EvWrite (fd d) (take (num_words b) (event_buffer b))) d))
      \<lparr>num_recv_mB := x, num_event_chunk_words := y\<rparr>"
proof -
  have "env_write env (clock d) (fd d) (take (num_words b) (event_buffer b))
      = Inr (4 * length (take (num_words b) (event_buffer b)))"
    using assms unfolding healthy_def by blast
  then show ?thesis using that by (simp add: flush_chunk_def write_words_def note_write_def Let_def)
qed

text \<open>A word completes the chunk exactly when it ends the tenth event.\<close>

definition completes :: "token list \<Rightarrow> wb \<Rightarrow> u32 \<Rightarrow> bool" where
  "completes ts b w \<longleftrightarrow> event_start b \<and> \<not> isEventStart w \<and> isEventEnd w \<and> Suc (length (pending ts)) = EVENTCHUNK"

lemma word_quiet:
  assumes "refines B w0 ts (d, b)" and "check_overflow b = b" and "\<not> completes ts b w"
  shows "flushed (ts @ [Wd w]) = flushed ts"
    and "io_log (fst (process_word env w (d, b))) = io_log d" "fd (fst (process_word env w (d, b))) = fd d"
    and "file_count (fst (process_word env w (d, b))) = file_count d"
    and "write_file_name (fst (process_word env w (d, b))) = write_file_name d"
    and "stop_write (fst (process_word env w (d, b))) = stop_write d"
    and "disk_stop_requested (fst (process_word env w (d, b))) = disk_stop_requested d"
proof -
  have pend: "event_chunk b = length (pending ts)" "event_start b = (fst (scan ts) \<noteq> None)"
    using assms(1) by (simp_all add: refines_defs)
  show "flushed (ts @ [Wd w]) = flushed ts"
  proof (cases "\<not> isEventStart w \<and> isEventEnd w \<and> event_start b")
    case True
    then obtain xs where "events_of (ts @ [Wd w]) = events_of ts @ [xs @ [w]]"
      using pend by (auto simp: events_of_snoc)
    then show ?thesis using chunk_add assms(3) True by (auto simp: completes_def split: if_splits)
  next
    case False
    then have "events_of (ts @ [Wd w]) = events_of ts"
      using pend by (auto simp: events_of_snoc split: option.splits)
    then show ?thesis by (rule chunk_same)
  qed
  have "event_chunk (begin_event b) \<noteq> EVENTCHUNK" "event_chunk b \<noteq> EVENTCHUNK"
    using pending_less [of ts] pend by (simp_all add: begin_event_def Let_def)
  moreover have "event_chunk (end_event b) \<noteq> EVENTCHUNK" if "event_start b" "\<not> isEventStart w" "isEventEnd w"
    using assms(3) pend that by (auto simp: completes_def end_event_def)
  ultimately show "io_log (fst (process_word env w (d, b))) = io_log d"
    "fd (fst (process_word env w (d, b))) = fd d" "file_count (fst (process_word env w (d, b))) = file_count d"
    "write_file_name (fst (process_word env w (d, b))) = write_file_name d"
    "stop_write (fst (process_word env w (d, b))) = stop_write d"
    "disk_stop_requested (fst (process_word env w (d, b))) = disk_stop_requested d"
    using assms(2) by (simp_all add: process_word_def Let_def store_word_eq)
qed

lemma files_word:
  assumes "refines B w0 ts (d, b)" and "fits B (ts @ [Wd w])" and "0 < B" and "files_ok fs0 base fc ts d"
    and "healthy env"
  shows "files_ok fs0 base fc (ts @ [Wd w]) (fst (process_word env w (d, b)))"
proof -
  have "fits B ts" using assms(2) by (rule fits_prefix)
  note room = refines_no_overflow [OF assms(1) this assms(3)]
  show ?thesis
  proof (cases "completes ts b w")
    case False
    then show ?thesis
      by (intro files_ok_cong [OF assms(4)] word_quiet [OF assms(1) room(2)])
  next
    case True
    let ?us = "ts @ [Wd w]" and ?b = "put_word w (end_event b)"
    let ?d = "d\<lparr>event_end_markers := event_end_markers d + 1, event_count := local_event_count (end_event b)\<rparr>"
    obtain xs where xs: "fst (scan ts) = Some xs" using assms(1) True by (auto simp: refines_defs completes_def)
    have ev: "events_of ?us = events_of ts @ [xs @ [w]]" using True xs by (simp add: events_of_snoc completes_def)
    have chunk: "pending ?us = []" "flushed ?us = flushed ts @ (pending ts @ [xs @ [w]])"
      using chunk_add [OF ev] True by (simp_all add: completes_def)
    have n: "local_event_count ?b = length (flushed ?us)"
      using assms(1) ev flushed_pending [of ?us] chunk(1)
      by (simp add: put_word_def end_event_def refines_defs)
    have tk: "take (num_words ?b) (event_buffer ?b) = concat (pending ts @ [xs @ [w]])"
      using take_put_word [of "end_event b" w] refines_buffer(1) [OF assms(1)] xs room(1)
      by (simp add: end_event_def in_progress_def)
    have "event_chunk (end_event b) = EVENTCHUNK"
      using assms(1) True by (simp add: end_event_def refines_defs completes_def)
    then have step: "process_word env w (d, b) = flush_chunk env (?d, ?b)"
      using True room(2) by (simp add: process_word_def Let_def store_word_eq completes_def)
    have "files_ok fs0 base fc ts ?d" by (rule files_ok_cong [OF assms(4)]) simp_all
    moreover have "length (pending ts @ [xs @ [w]]) = EVENTCHUNK" using True by (simp add: completes_def)
    moreover have "length (flushed ts) mod EVENTCHUNK = 0" by (simp add: flushed_def min.absorb2)
    ultimately have "files_ok fs0 base fc ?us (next_file env (length (flushed ?us))
        (log_io (EvWrite (fd ?d) (concat (pending ts @ [xs @ [w]]))) ?d))"
      by (intro files_ok_flush [OF _ chunk(2) _ _ assms(5)])
    moreover obtain x y where "fst (flush_chunk env (?d, ?b)) = (next_file env (local_event_count ?b)
        (log_io (EvWrite (fd ?d) (take (num_words ?b) (event_buffer ?b))) ?d))
        \<lparr>num_recv_mB := x, num_event_chunk_words := y\<rparr>"
      by (rule flush_healthy [OF assms(5)])
    ultimately show ?thesis
      unfolding step using n tk by (auto intro: files_ok_cong)
  qed
qed


lemma files_words:
  assumes "refines B w0 ts s" and "fits B (ts @ map Wd ws)" and "0 < B" and "files_ok fs0 base fc ts (fst s)"
    and "healthy env"
  shows "files_ok fs0 base fc (ts @ map Wd ws) (fst (fold (process_word env) ws s))"
  using assms(1,2,4)
proof (induction ws arbitrary: ts s)
  case (Cons w ws)
  have fw: "fits B (ts @ [Wd w])" using Cons.prems(2) fits_prefix [of B "ts @ [Wd w]" "map Wd ws"] by simp
  then have "refines B w0 (ts @ [Wd w]) (process_word env w s)"
    using Cons.prems(1) assms(3) by (intro refines_word)
  moreover have "files_ok fs0 base fc (ts @ [Wd w]) (fst (process_word env w s))"
    using files_word [of B w0 ts "fst s" "snd s"] Cons.prems fw assms(3,5) by simp
  ultimately show ?case using Cons.IH [of "ts @ [Wd w]" "process_word env w s"] Cons.prems(2) by simp
qed simp

lemma files_block:
  assumes "refines B w0 ts s" and "fits B (ts @ block_tokens (DMABUFFSIZE (fst s) div 4) s ws)" and "0 < B"
    and "files_ok fs0 base fc ts (fst s)" and "healthy env"
  shows "files_ok fs0 base fc (ts @ block_tokens (DMABUFFSIZE (fst s) div 4) s ws)
    (fst (process_block env ws s))"
proof -
  obtain d b where s: "s = (d, b)" by fastforce
  define cs where "cs = (if blocks_read b \<ge> resync_at_block d then [Cut] else [])"
  obtain d1 b1 where rc: "resync_check s = (d1, b1)" by fastforce
  have ref: "refines B w0 (ts @ cs) (d1, b1\<lparr>blocks_read := blocks_read b1 + 1\<rparr>)"
    using assms(1) refines_cut [of B w0 ts d b kNoResync] rc
    by (auto simp: s cs_def resync_check_def split: if_splits)
  have "flushed (ts @ cs) = flushed ts"
    using chunk_same(2) [of "ts @ [Cut]" ts] by (simp add: cs_def events_of_snoc)
  then have "files_ok fs0 base fc (ts @ cs) d1"
    using rc by (intro files_ok_cong [OF assms(4)]) (auto simp: s resync_check_def split: if_splits)
  moreover have "DMABUFFSIZE d1 = DMABUFFSIZE d" using rc by (auto simp: s resync_check_def split: if_splits)
  ultimately show ?thesis
    using files_words [OF ref, of "take (DMABUFFSIZE d div 4) ws" fs0 base fc env] assms(2,3,5) rc
    by (simp add: block_tokens_def process_block_def s cs_def)
qed

lemma files_run:
  assumes "refines B w0 ts s" and "0 < B" and "StoreStop \<notin> set evs"
    and "fits B (ts @ tokens_of (DMABUFFSIZE (fst s) div 4) (blocks_read (snd s)) (resync_at_block (fst s)) evs)"
    and "files_ok fs0 base fc ts (fst s)" and "healthy env"
  shows "files_ok fs0 base fc
    (ts @ tokens_of (DMABUFFSIZE (fst s) div 4) (blocks_read (snd s)) (resync_at_block (fst s)) evs)
    (fst (fold (wstep env) evs s))"
  using assms(1,3-5)
proof (induction evs arbitrary: ts s)
  case (Cons ev evs)
  show ?case
  proof (cases ev)
    case (Block ws)
    let ?bt = "block_tokens (DMABUFFSIZE (fst s) div 4) s ws"
    let ?rest = "tokens_of (DMABUFFSIZE (fst s) div 4) (Suc (blocks_read (snd s)))
      (if blocks_read (snd s) \<ge> resync_at_block (fst s) then kNoResync else resync_at_block (fst s)) evs"
    have tok: "tokens_of (DMABUFFSIZE (fst s) div 4) (blocks_read (snd s)) (resync_at_block (fst s)) (ev # evs)
        = ?bt @ ?rest" by (simp add: Block block_tokens_def)
    have fb: "fits B (ts @ ?bt)" using Cons.prems(3) fits_prefix [of B "ts @ ?bt" ?rest] by (simp add: tok)
    have "refines B w0 (ts @ ?bt) (process_block env ws s)"
      using Cons.prems(1) fb assms(2) by (rule refines_block)
    moreover have "files_ok fs0 base fc (ts @ ?bt) (fst (process_block env ws s))"
      using Cons.prems(1) fb assms(2) Cons.prems(4) assms(6) by (rule files_block)
    ultimately show ?thesis
      using Cons.IH [of "ts @ ?bt" "process_block env ws s"] Cons.prems(2,3)
      unfolding tok by (simp add: Block process_block_frame)
  next
    case (StoreResync n)
    have "refines B w0 ts ((fst s)\<lparr>resync_at_block := n\<rparr>, snd s)" using Cons.prems(1) by simp
    moreover have "files_ok fs0 base fc ts ((fst s)\<lparr>resync_at_block := n\<rparr>)"
      by (rule files_ok_cong [OF Cons.prems(4)]) simp_all
    ultimately show ?thesis
      using Cons.IH [of ts "((fst s)\<lparr>resync_at_block := n\<rparr>, snd s)"] Cons.prems(2,3) by (simp add: StoreResync)
  qed (use Cons in simp_all)
qed simp

text \<open>While nobody asks for a stop the loop goes on; it ends at the first empty queue after the request.\<close>

lemma write_loop_stop:
  assumes "\<And>pre post. evs = pre @ post \<Longrightarrow> \<not> stop_write (fst (fold (wstep env) pre s))"
  shows "write_loop env (evs @ [StoreStop, QueueEmpty]) s = Some
    ((fst (fold (wstep env) evs s))\<lparr>stop_write := True\<rparr>, snd (fold (wstep env) evs s))"
  using assms
proof (induction evs arbitrary: s)
  case (Cons ev evs)
  have step: "write_loop env ((ev # evs) @ [StoreStop, QueueEmpty]) s
      = write_loop env (evs @ [StoreStop, QueueEmpty]) (wstep env ev s)"
    using Cons.prems [of "[]" "ev # evs"] by (cases ev) simp_all
  have "\<not> stop_write (fst (fold (wstep env) pre (wstep env ev s)))" if "evs = pre @ post" for pre post
    using Cons.prems [of "ev # pre" post] that by simp
  then show ?case unfolding step using Cons.IH [of "wstep env ev s"] by simp
qed simp


lemma named_chunks_events:
  "named_chunks base fc (events_of ts) = butlast (named_chunks base fc (flushed ts))
     @ [(fst (last (named_chunks base fc (flushed ts))),
         snd (last (named_chunks base fc (flushed ts))) @ concat (pending ts))]"
proof (cases "pending ts = []")
  case True
  then have "events_of ts = flushed ts" using flushed_pending [of ts] by simp
  then show ?thesis using True append_butlast_last_id [OF named_chunks_not_Nil] by simp
next
  case False
  have "length (flushed ts) mod 10 = 0" by (simp add: flushed_def min.absorb2 EVENTCHUNK_def)
  then have "length (flushed ts) mod 5000 + 10 \<le> 5000" by (rule chunk_steps)
  then have lt: "length (flushed ts) mod 5000 + length (pending ts) < 5000"
    using pending_less [of ts] by (simp add: EVENTCHUNK_def)
  have "length (flushed ts @ pending ts) mod 5000 = (length (flushed ts) mod 5000 + length (pending ts)) mod 5000"
    by (simp add: mod_add_left_eq)
  also have "\<dots> \<noteq> 0" using lt False by simp
  finally show ?thesis
    using named_chunks_grow [of "flushed ts" "pending ts" base fc] lt False
    by (simp only: flushed_pending) simp
qed

lemma files_start:
  assumes "healthy env" and "run_ok d"
  shows "files_ok (file_data (io_log d)) (write_file_name d) (file_count d) [] (fst (DataWrite_start env d))"
    and "\<not> stop_write (fst (DataWrite_start env d))"
proof -
  obtain f where "env_open env (clock d) (readout_file d) = Inr f" using assms(1) unfolding healthy_def by blast
  then have st: "fst (DataWrite_start env d) = (log_io (EvOpen (readout_file d) (int f)) (d\<lparr>fd := int f\<rparr>))
      \<lparr>event_count := 0, event_start_markers := 0, event_end_markers := 0, resync_at_block := kNoResync\<rparr>"
    by (simp add: DataWrite_start_def open_readout_file_def Let_def)
  show "files_ok (file_data (io_log d)) (write_file_name d) (file_count d) [] (fst (DataWrite_start env d))"
    using assms(2) unfolding st
    by (simp add: files_ok_def run_ok_def log_io_def files_of_snoc flushed_def named_chunks_def file_data_def
        file_chunk_def readout_file_def)
  show "\<not> stop_write (fst (DataWrite_start env d))"
    using assms(2) unfolding st by (simp add: log_io_def run_ok_def)
qed

lemma files_finish:
  assumes "refines B w0 ts (d, b)" and "files_ok fs0 base fc ts d'" and "io_log d = io_log d'" and "fd d = fd d'"
  shows "file_data (io_log (fst (DataWrite_finish env (d, b)))) = fs0 @ named_chunks base fc (events_of ts)"
proof -
  obtain gs n c where fs: "files_of (io_log d) = gs @ [(n, fd d, c)]"
    and nc: "map strip_fd gs @ [(n, c)] = fs0 @ named_chunks base fc (flushed ts)"
    using assms(2-4) by (auto simp: files_ok_def)
  have split: "map strip_fd gs = fs0 @ butlast (named_chunks base fc (flushed ts))"
    "last (named_chunks base fc (flushed ts)) = (n, c)"
    using arg_cong [OF nc, of butlast] arg_cong [OF nc, of last] by (simp_all add: butlast_append)
  have "take (event_words b) (event_buffer b) = concat (pending ts)"
    using refines_buffer(2) [OF assms(1)] assms(1) by (simp add: refines_def buffer_ok_def)
  then have "io_log (fst (DataWrite_finish env (d, b)))
      = ((io_log d @ [EvWrite (fd d) (concat (pending ts))]) @ [EvFsync (fd d)]) @ [EvClose (fd d)]"
    by (simp add: DataWrite_finish_def write_words_def Let_def log_io_def split: sum.splits)
  then show ?thesis
    using fs split named_chunks_events [of base fc ts] by (simp add: file_data_def files_of_snoc del: append_assoc)
qed

lemma files_of_run:
  assumes "healthy env" and "run_ok d" and "StoreStop \<notin> set evs"
    and "fits DATABUFFSIZE (tokens_of (DMABUFFSIZE d div 4) 0 kNoResync evs)"
  shows "\<exists>d' b'. DataWrite env (evs @ [StoreStop, QueueEmpty]) d = Some (d', b') \<and>
    file_data (io_log d') = file_data (io_log d) @ named_chunks (write_file_name d) (file_count d)
      (events_of (tokens_of (DMABUFFSIZE d div 4) 0 kNoResync evs))"
proof -
  let ?s = "DataWrite_start env d" and ?tok = "tokens_of (DMABUFFSIZE d div 4) 0 kNoResync"
  let ?fs = "files_ok (file_data (io_log d)) (write_file_name d) (file_count d)"
  have pos: "0 < DATABUFFSIZE" by (simp add: DATABUFFSIZE_def EVENTSIZE_def)
  note start = files_start [OF assms(1,2)]
  have "\<exists>us. tokens_of n k r (pre @ qs) = tokens_of n k r pre @ us" for n k r pre qs
    by (induction n k r pre rule: tokens_of.induct) auto
  then have run: "?fs (?tok pre) (fst (fold (wstep env) pre ?s))" if "evs = pre @ post" for pre post
    using files_run [OF refines_start_state [of d env] pos, of pre, OF _ _ _ assms(1)] start(1) assms(3,4)
      fits_prefix [of DATABUFFSIZE "?tok pre"] that
    by (metis append_Nil start_fields Un_iff set_append)
  let ?r = "fold (wstep env) evs ?s"
  let ?e = "((fst ?r)\<lparr>stop_write := True\<rparr>, snd ?r)"
  have "write_loop env (evs @ [StoreStop, QueueEmpty]) ?s = Some ?e"
    using run by (intro write_loop_stop) (auto simp: files_ok_def run_ok_def)
  then have ret: "DataWrite env (evs @ [StoreStop, QueueEmpty]) d = Some (DataWrite_finish env ?e)"
    using start(2) by (simp add: DataWrite_def Let_def)
  have "refines DATABUFFSIZE (written d) (?tok evs) ?e"
    using refines_run [OF refines_start_state [of d env] pos, of evs env] assms(4) by (simp add: start_fields)
  then have "file_data (io_log (fst (DataWrite_finish env ?e))) = file_data (io_log d)
      @ named_chunks (write_file_name d) (file_count d) (events_of (?tok evs))"
    by (rule files_finish [OF _ run [of evs "[]"]]) simp_all
  then show ?thesis using ret by (cases "DataWrite_finish env ?e") simp
qed


text \<open>C12: On a healthy system the write thread returns once it is asked to stop and the queue is empty, and
  the files of the run are exactly the complete events of the stream, 5000 per file in order, the last
  file holding the rest, under consecutive file numbers.\<close>
theorem DataWrite_files:
  assumes "healthy env" and "run_ok d" and "StoreStop \<notin> set evs"
    and "fits DATABUFFSIZE (tokens_of (DMABUFFSIZE d div 4) 0 kNoResync evs)"
  shows "\<exists>d' b'. DataWrite env (evs @ [StoreStop, QueueEmpty]) d = Some (d', b') \<and>
    file_data (io_log d') = file_data (io_log d) @ named_chunks (write_file_name d) (file_count d)
      (events_of (tokens_of (DMABUFFSIZE d div 4) 0 kNoResync evs))"
  using assms by (rule files_of_run)

section \<open>Streams of well-formed events\<close>

lemma fst_fold_scan: "fst (fold scan_step us (c, es)) = fst (fold scan_step us (c, fs))"
proof (induction us arbitrary: c es fs)
  case (Cons t us)
  obtain c1 x where e: "scan_step t (c, es) = (c1, x)" by fastforce
  moreover obtain y where "scan_step t (c, fs) = (c1, y)"
    using e by (cases t) (auto split: option.splits if_splits)
  ultimately show ?case using Cons.IH by simp
qed simp

lemma snd_fold_scan: "snd (fold scan_step us (c, es)) = es @ snd (fold scan_step us (c, []))"
proof (induction us arbitrary: c es)
  case (Cons t us)
  obtain c1 x where e: "scan_step t (c, []) = (c1, x)" by fastforce
  then have "scan_step t (c, es) = (c1, es @ x)" by (cases t) (auto split: option.splits if_splits)
  then show ?case using e Cons.IH [of c1 x] Cons.IH [of c1 "es @ x"] by simp
qed simp

lemma scan_append_None:
  assumes "fst (scan ts) = None"
  shows "fst (scan (ts @ us)) = fst (scan us)" and "events_of (ts @ us) = events_of ts @ events_of us"
proof -
  have ts: "scan ts = (None, events_of ts)" using assms by (metis events_of_def prod.collapse)
  have eq: "scan (ts @ us) = fold scan_step us (None, events_of ts)" using ts by (simp add: scan_def)
  show "fst (scan (ts @ us)) = fst (scan us)" unfolding eq scan_def [of us] by (rule fst_fold_scan)
  show "events_of (ts @ us) = events_of ts @ events_of us"
    unfolding events_of_def [of "ts @ us"] eq events_of_def [of us] scan_def [of us] by (rule snd_fold_scan)
qed

lemma scan_gap:
  assumes "\<forall>w \<in> set g. \<not> isEventStart w"
  shows "scan (map Wd g) = (None, [])"
  using assms by (induction g rule: rev_induct) (simp_all add: scan_snoc)

lemma scan_open:
  assumes "isEventStart s" and "\<forall>w \<in> set p. \<not> isEventStart w \<and> \<not> isEventEnd w"
  shows "scan (map Wd (s # p)) = (Some (s # p), [])"
  using assms(2)
proof (induction p rule: rev_induct)
  case Nil
  then show ?case using assms(1) by (simp add: scan_def)
next
  case (snoc w p)
  have "map Wd (s # p @ [w]) = map Wd (s # p) @ [Wd w]" by simp
  then show ?case using snoc by (simp only: scan_snoc) simp
qed

lemma scan_wf_event:
  assumes "event_wf e"
  shows "scan (map Wd e) = (None, [e])"
proof -
  obtain s p t where e: "e = (s # p) @ [t]" and st: "isEventStart s" "isEventEnd t"
    and p: "\<forall>w \<in> set p. \<not> isEventStart w \<and> \<not> isEventEnd w"
    using assms by (auto simp: event_wf_def)
  have "scan (map Wd e) = scan_step (Wd t) (Some (s # p), [])"
    unfolding e map_append by (simp only: list.map scan_snoc scan_open [OF st(1) p, unfolded list.map])
  then show ?thesis using st start_not_end [of t] e by auto
qed

lemma cur_length: "fst (scan ts) = Some xs \<Longrightarrow> length xs \<le> length ts"
proof (induction ts arbitrary: xs rule: rev_induct)
  case (snoc t ts)
  then show ?case by (fastforce simp: cur_snoc split: token.splits if_splits option.splits)
qed simp

lemma fits_append_None:
  assumes "fits B ts" and "fst (scan ts) = None" and "fits B us"
  shows "fits B (ts @ us)"
  unfolding fits_def
proof (intro allI impI)
  fix n assume "n \<le> length (ts @ us)"
  show "case fst (scan (take n (ts @ us))) of None \<Rightarrow> True | Some xs \<Rightarrow> length xs < B"
  proof (cases "n \<le> length ts")
    case True
    then show ?thesis using assms(1) by (simp add: fits_def)
  next
    case False
    then have "fst (scan (take n (ts @ us))) = fst (scan (take (n - length ts) us))"
      using scan_append_None(1) [OF assms(2)] by simp
    then show ?thesis using assms(3) False \<open>n \<le> length (ts @ us)\<close> by (simp add: fits_def)
  qed
qed

lemma fits_gap:
  assumes "\<forall>w \<in> set g. \<not> isEventStart w"
  shows "fits B (map Wd g)"
proof -
  have "\<forall>w \<in> set (take n g). \<not> isEventStart w" for n using assms by (meson in_set_takeD)
  then show ?thesis using scan_gap by (simp add: fits_def take_map)
qed

lemma fits_event:
  assumes "event_wf e" and "length e \<le> B"
  shows "fits B (map Wd e)"
  unfolding fits_def
proof (intro allI impI)
  fix n assume n: "n \<le> length (map Wd e)"
  show "case fst (scan (take n (map Wd e))) of None \<Rightarrow> True | Some xs \<Rightarrow> length xs < B"
  proof (cases "n = length e")
    case True
    then show ?thesis using scan_wf_event [OF assms(1)] by simp
  next
    case False
    then have "n < B" using n assms(2) by simp
    then show ?thesis
      using cur_length [of "take n (map Wd e)"] n by (auto split: option.splits)
  qed
qed

text \<open>A stream of events, each preceded by words that contain no start marker.\<close>

definition stream_of :: "(u32 list \<times> u32 list) list \<Rightarrow> u32 list" where
  "stream_of ges = concat (map (\<lambda>(g, e). g @ e) ges)"

definition stream_ok :: "nat \<Rightarrow> (u32 list \<times> u32 list) list \<Rightarrow> bool" where
  "stream_ok B ges \<longleftrightarrow> (\<forall>(g, e) \<in> set ges. (\<forall>w \<in> set g. \<not> isEventStart w) \<and> event_wf e \<and> length e \<le> B)"

lemma scan_stream:
  assumes "stream_ok B ges"
  shows "fst (scan (map Wd (stream_of ges))) = None" and "events_of (map Wd (stream_of ges)) = map snd ges"
    and "fits B (map Wd (stream_of ges))"
proof -
  have "fst (scan (map Wd (stream_of ges))) = None \<and> events_of (map Wd (stream_of ges)) = map snd ges
      \<and> fits B (map Wd (stream_of ges))"
    using assms
  proof (induction ges rule: rev_induct)
    case Nil
    then show ?case by (simp add: stream_of_def fits_def)
  next
    case (snoc ge ges)
    obtain g e where ge: "ge = (g, e)" by fastforce
    let ?S = "map Wd (stream_of ges)"
    have IH: "fst (scan ?S) = None" "events_of ?S = map snd ges" "fits B ?S"
      using snoc by (auto simp: stream_ok_def)
    have g: "\<forall>w \<in> set g. \<not> isEventStart w" and e: "event_wf e" "length e \<le> B"
      using snoc.prems by (auto simp: stream_ok_def ge)
    have G: "fst (scan (map Wd g)) = None" "events_of (map Wd g) = []"
      using scan_gap [OF g] by (simp_all add: events_of_def)
    have E: "fst (scan (map Wd e)) = None" "events_of (map Wd e) = [e]"
      using scan_wf_event [OF e(1)] by (simp_all add: events_of_def)
    have S: "map Wd (stream_of (ges @ [ge])) = ?S @ map Wd g @ map Wd e" by (simp add: stream_of_def ge)
    show ?case
      unfolding S
      using IH G E fits_append_None [OF IH(3,1) fits_append_None [OF fits_gap [OF g] G(1) fits_event [OF e]]]
      by (simp add: scan_append_None ge)
  qed
  then show "fst (scan (map Wd (stream_of ges))) = None" "events_of (map Wd (stream_of ges)) = map snd ges"
    "fits B (map Wd (stream_of ges))" by auto
qed

lemma tokens_of_blocks:
  assumes "\<forall>b \<in> set bs. length b \<le> n" and "k + length bs \<le> r"
  shows "tokens_of n k r (map Block bs) = map Wd (concat bs)"
  using assms by (induction bs arbitrary: k) auto



section \<open>Failover between the two disks\<close>

text \<open>The fields that tell where the next file goes.\<close>

lemma segment_log_fields:
  "data_basedir (AppendStorageSegmentLog env r d) = data_basedir d"
  "write_file_name (AppendStorageSegmentLog env r d) = write_file_name d"
  "file_count (AppendStorageSegmentLog env r d) = file_count d"
  "active_nvme_index (AppendStorageSegmentLog env r d) = active_nvme_index d"
  "data_nvme_paths (AppendStorageSegmentLog env r d) = data_nvme_paths d"
  "trigger_segment_file_num (AppendStorageSegmentLog env r d) = trigger_segment_file_num d"
  "disk_switch_requested (AppendStorageSegmentLog env r d) = disk_switch_requested d"
  "disk_stop_requested (AppendStorageSegmentLog env r d) = disk_stop_requested d"
  "disk_failover (AppendStorageSegmentLog env r d) = disk_failover d"
  "is_running (AppendStorageSegmentLog env r d) = is_running d"
  "stop_write (AppendStorageSegmentLog env r d) = stop_write d"
  "run_number (AppendStorageSegmentLog env r d) = run_number d"
  by (simp_all add: AppendStorageSegmentLog_def Let_def log_io_def tick_def)

definition reserve_ok :: "io_env \<Rightarrow> nat \<Rightarrow> string \<Rightarrow> bool" where
  "reserve_ok env t path = has_free (env_os env t) kDiskFileSwitchMinFreeBytes path"

definition alt_path_of :: "dh \<Rightarrow> string" where
  "alt_path_of d = data_nvme_paths d ! (if active_nvme_index d = 0 then 1 else 0)"

lemmas maybe_switch_simps = MaybeSwitchDataDisk_def Let_def tick_def RequestDiskStop_def switch_to_disk_def
  segment_log_fields reserve_ok_def has_free_def GetFreeBytes_def alt_path_of_def

text \<open>The decision before a new readout file: with its reserve the current disk is kept; otherwise the
  run moves to the other disk, unless that disk is known to be below the reserve or is neither
  measurable nor present, and then the run is stopped.  A moved run writes below the new base directory and
  names its trigger segment after the upcoming file.\<close>
theorem MaybeSwitchDataDisk_decision:
  assumes "length (data_nvme_paths d) = 2"
  shows "let t = clock d; alt = alt_path_of d; d' = snd (MaybeSwitchDataDisk env d) in
    if reserve_ok env t (data_basedir d)
    then data_basedir d' = data_basedir d \<and> disk_stop_requested d' = disk_stop_requested d
    else if reserve_ok env (t + 1) alt
      \<or> GetFreeBytes (env_os env (t + 1)) alt = None \<and> env_exists env (t + 2) alt
    then data_basedir d' = alt \<and> write_file_name d' = readout_prefix alt (run_number d)
      \<and> trigger_segment_file_num d' = file_count d + 1 \<and> file_count d' = file_count d
      \<and> disk_switch_requested d' \<and> disk_failover d' \<and> disk_stop_requested d' = disk_stop_requested d
    else data_basedir d' = data_basedir d \<and> disk_stop_requested d' \<and> disk_full d'
      \<and> \<not> is_running d' \<and> stop_write d'"
  using assms
  by (cases "fb_bytes (QueryFreeBytes (env_os env (clock d)) (data_basedir d))")
     (auto simp: maybe_switch_simps split: option.splits)

theorem MaybeSwitchDataDisk_decision_witness:
  "let d = sample_dh\<lparr>data_nvme_paths := [''/a'', ''/b''], data_basedir := ''/a''\<rparr>;
       env = \<lparr>env_os = (\<lambda>t. default_os\<lparr>statvfs := (\<lambda>p _. if p = ''/a'' then StatOk 1 4096 else StatOk 10000000 4096)\<rparr>),
              env_exists = (\<lambda>_ _. True), env_open = (\<lambda>_ _. Inr 3), env_append = (\<lambda>_ _. True),
              env_write = (\<lambda>_ _ ws. Inr 0), env_close = (\<lambda>_ _. True), env_time = (\<lambda>_. [])\<rparr>
   in data_basedir (snd (MaybeSwitchDataDisk env d)) = ''/b''"
proof -
  let ?d = "sample_dh\<lparr>data_nvme_paths := [''/a'', ''/b''], data_basedir := ''/a''\<rparr>"
  let ?env = "\<lparr>env_os = (\<lambda>t. default_os\<lparr>statvfs := (\<lambda>p _. if p = ''/a'' then StatOk 1 4096 else StatOk 10000000 4096)\<rparr>),
    env_exists = (\<lambda>_ _. True), env_open = (\<lambda>_ _. Inr 3), env_append = (\<lambda>_ _. True),
    env_write = (\<lambda>_ _ ws. Inr 0), env_close = (\<lambda>_ _. True), env_time = (\<lambda>_. [])\<rparr>"
  have "length (data_nvme_paths ?d) = 2" "\<not> reserve_ok ?env (clock ?d) (data_basedir ?d)"
    "reserve_ok ?env (clock ?d + 1) (alt_path_of ?d)" "alt_path_of ?d = ''/b''"
    by (simp_all add: sample_dh_def reserve_ok_def has_free_def GetFreeBytes_def QueryFreeBytes_def
        kDiskFileSwitchMinFreeBytes_def alt_path_of_def default_os_def)
  then show ?thesis using MaybeSwitchDataDisk_decision [of ?d ?env] by (simp add: Let_def)
qed

section \<open>File names never repeat within a run\<close>

fun opened_name :: "io_event \<Rightarrow> string list" where
  "opened_name (EvOpen name _) = [name]"
| "opened_name _ = []"

definition opened :: "dh \<Rightarrow> string list" where
  "opened d = concat (map opened_name (io_log d))"

definition numbered :: "string \<Rightarrow> nat \<Rightarrow> bool" where
  "numbered name i \<longleftrightarrow> (\<exists>p. name = p @ ''_'' @ to_string i @ ''.dat'')"

lemma underscore_not_digit: "CHR ''_'' \<notin> set (to_string n)"
  using to_string_digits [of n] by (auto simp: list_all_iff isdigit_def)

lemma append_last_sep_inject:
  assumes "xs @ c # ys = xs' @ c # ys'" and "c \<notin> set ys" and "c \<notin> set ys'"
  shows "xs = xs' \<and> ys = ys'"
  using append_sep_inject [of "rev ys" c "rev xs" "rev ys'" "rev xs'"] arg_cong [OF assms(1), of rev] assms(2,3)
  by simp

lemma numbered_inject: "numbered name i \<Longrightarrow> numbered name j \<Longrightarrow> i = j"
proof -
  assume "numbered name i" "numbered name j"
  then obtain p q where "p @ CHR ''_'' # to_string i @ ''.dat'' = q @ CHR ''_'' # to_string j @ ''.dat''"
    by (auto simp: numbered_def)
  moreover have "CHR ''_'' \<notin> set (to_string k @ ''.dat'')" for k using underscore_not_digit [of k] by simp
  ultimately have "to_string i @ ''.dat'' = to_string j @ ''.dat''" using append_last_sep_inject by metis
  then show "i = j" using to_string_inject by simp
qed

text \<open>After the first file, the names opened carry the numbers up to the current file count.\<close>

definition names_ok :: "string list \<Rightarrow> nat \<Rightarrow> dh \<Rightarrow> bool" where
  "names_ok o0 fc d \<longleftrightarrow> (\<exists>p. write_file_name d = p @ ''_'') \<and> fc \<le> file_count d
     \<and> (\<exists>names. opened d = o0 @ names \<and> list_all2 numbered names [fc..<Suc (file_count d)])"

lemma names_ok_distinct:
  assumes "list_all2 numbered names is" and "distinct is"
  shows "distinct names"
proof -
  have "names ! i \<noteq> names ! j" if "i < length names" "j < length names" "i \<noteq> j" for i j
    using assms that numbered_inject [of "names ! i" "is ! i" "is ! j"]
    by (metis list_all2_conv_all_nth nth_eq_iff_index_eq)
  then show ?thesis by (simp add: distinct_conv_nth)
qed

lemma names_ok_cong:
  assumes "names_ok o0 fc d" and "opened d' = opened d" "file_count d' = file_count d"
    and "\<exists>p. write_file_name d' = p @ ''_''"
  shows "names_ok o0 fc d'"
  using assms by (simp add: names_ok_def del: upt_Suc)

lemma opened_simps:
  "opened (log_io e d) = opened d @ opened_name e" "opened (tick d) = opened d"
  "opened (RequestDiskStop d) = opened d" "opened (d\<lparr>file_count := n\<rparr>) = opened d"
  "opened (d\<lparr>fd := f\<rparr>) = opened d" "opened (d\<lparr>switch_file_open_error := x\<rparr>) = opened d"
  by (simp_all add: opened_def log_io_def tick_def RequestDiskStop_def)

lemma names_MaybeSwitch:
  assumes "\<exists>p. write_file_name d = p @ ''_''"
  shows "opened (snd (MaybeSwitchDataDisk env d)) = opened d
    \<and> file_count (snd (MaybeSwitchDataDisk env d)) = file_count d
    \<and> (\<exists>p. write_file_name (snd (MaybeSwitchDataDisk env d)) = p @ ''_'')"
proof -
  have seg: "opened (AppendStorageSegmentLog env r x) = opened x" for r x
    by (simp add: AppendStorageSegmentLog_def Let_def opened_simps)
  have sw: "opened (switch_to_disk env i q x) = opened x \<and> file_count (switch_to_disk env i q x) = file_count x
      \<and> (\<exists>p. write_file_name (switch_to_disk env i q x) = p @ ''_'')" for i q x
    unfolding switch_to_disk_def Let_def seg segment_log_fields by (auto simp: opened_def readout_prefix_def)
  have "opened (tick x) = opened x" "file_count (tick x) = file_count x" "write_file_name (tick x) = write_file_name x"
    "opened (RequestDiskStop x) = opened x" "file_count (RequestDiskStop x) = file_count x"
    "write_file_name (RequestDiskStop x) = write_file_name x" for x
    by (simp_all add: opened_def tick_def RequestDiskStop_def)
  then show ?thesis using assms sw by (auto simp: MaybeSwitchDataDisk_def Let_def split: option.splits)
qed

lemma open_file_fields:
  "opened (snd (open_readout_file env d)) = opened d @ [readout_file d]"
  "file_count (snd (open_readout_file env d)) = file_count d"
  "write_file_name (snd (open_readout_file env d)) = write_file_name d"
  by (simp_all add: open_readout_file_def Let_def opened_simps split: sum.splits)
     (simp_all add: log_io_def RequestDiskStop_def)

lemma names_SwitchWriteFile:
  assumes "names_ok o0 fc d"
  shows "names_ok o0 fc (snd (SwitchWriteFile env d))"
proof -
  let ?c = "close_in_background env d"
  define m where "m = snd (MaybeSwitchDataDisk env ?c)"
  have c: "opened ?c = opened d" "write_file_name ?c = write_file_name d" "file_count ?c = file_count d"
    by (simp_all add: opened_def close_fields)
  then have m: "opened m = opened d" "file_count m = file_count d" "\<exists>p. write_file_name m = p @ ''_''"
    using names_MaybeSwitch [of ?c env] assms by (simp_all add: m_def names_ok_def)
  obtain names where names: "opened d = o0 @ names" "list_all2 numbered names [fc..<Suc (file_count d)]"
    and fc: "fc \<le> file_count d" using assms by (auto simp: names_ok_def)
  let ?m = "m\<lparr>file_count := file_count m + 1\<rparr>"
  have "numbered (readout_file ?m) (Suc (file_count d))"
    using m(2,3) by (auto simp: numbered_def readout_file_def)
  then have "list_all2 numbered (names @ [readout_file ?m]) ([fc..<Suc (file_count d)] @ [Suc (file_count d)])"
    using names(2) by (intro list_all2_appendI) simp_all
  also have "[fc..<Suc (file_count d)] @ [Suc (file_count d)] = [fc..<Suc (Suc (file_count d))]"
    using fc by simp
  finally have "names_ok o0 fc (snd (open_readout_file env ?m))"
    using m names(1) fc by (simp add: names_ok_def open_file_fields opened_simps del: upt_Suc)
  moreover have "names_ok o0 fc ?c" "names_ok o0 fc m"
    using assms c m by (simp_all add: names_ok_def del: upt_Suc)
  ultimately show ?thesis by (simp add: SwitchWriteFile_def Let_def flip: m_def)
qed

lemma names_next_file: "names_ok o0 fc d \<Longrightarrow> names_ok o0 fc (next_file env n d)"
  using names_SwitchWriteFile [of o0 fc d env] names_ok_cong [of o0 fc "snd (SwitchWriteFile env d)"]
  by (auto simp: next_file_def opened_def names_ok_def split: prod.splits)

lemma names_flush:
  assumes "names_ok o0 fc d"
  shows "names_ok o0 fc (fst (flush_chunk env (d, b)))"
proof -
  let ?ws = "take (num_words b) (event_buffer b)"
  let ?s = "note_write (env_write env (clock d) (fd d) ?ws) (log_io (EvWrite (fd d) ?ws) d, b)"
  let ?n = "next_file env (local_event_count (snd ?s)) (fst ?s)"
  have "names_ok o0 fc (fst ?s)"
    by (rule names_ok_cong [OF assms])
       (use assms in \<open>auto simp: note_write_def opened_def log_io_def RequestDiskStop_def Let_def names_ok_def
          split: sum.splits\<close>)
  then have n: "names_ok o0 fc ?n" by (rule names_next_file)
  have "fst (flush_chunk env (d, b)) = ?n\<lparr>num_recv_mB := num_recv_bytes (snd ?s) div 1000000,
      num_event_chunk_words := num_words (snd ?s) div EVENTCHUNK\<rparr>"
    by (simp add: flush_chunk_def write_words_def Let_def split: prod.splits)
  then show ?thesis
    using n by (auto intro!: names_ok_cong [OF n] simp: opened_def names_ok_def)
qed

lemma names_word:
  assumes "names_ok o0 fc (fst s)"
  shows "names_ok o0 fc (fst (process_word env w s))"
proof -
  obtain d b where s: "s = (d, b)" by fastforce
  have store: "names_ok o0 fc (fst (store_word env w (x, c)))" if "names_ok o0 fc x" for x c
    using that names_flush [OF that] by (simp add: store_word_eq)
  have "names_ok o0 fc (d\<lparr>event_start_markers := m\<rparr>)" "names_ok o0 fc (d\<lparr>event_end_markers := m, event_count := k\<rparr>)"
    for m k using assms by (simp_all add: s names_ok_def opened_def del: upt_Suc)
  then show ?thesis using assms store by (simp add: s process_word_def Let_def)
qed

lemma names_wstep:
  assumes "names_ok o0 fc (fst s)"
  shows "names_ok o0 fc (fst (wstep env ev s))"
proof (cases ev)
  case (Block ws)
  have words: "names_ok o0 fc (fst (fold (process_word env) ws s))" if "names_ok o0 fc (fst s)" for ws s
    using that by (induction ws arbitrary: s) (simp_all add: names_word)
  have "names_ok o0 fc (fst (resync_check s))"
    using assms by (auto simp: resync_check_def names_ok_def opened_def split: prod.splits)
  then show ?thesis using words by (auto simp: Block process_block_def Let_def split: prod.splits)
qed (use assms in \<open>simp_all add: names_ok_def opened_def del: upt_Suc\<close>)

text \<open>C13: Within a run the write thread never opens the same file name twice (every open truncates), across
  any number of file switches and disk failovers, whatever the operating system answers.\<close>
theorem DataWrite_names_distinct:
  assumes "DataWrite env evs d = Some (d', b')" and "write_file_name d = readout_prefix base run"
  shows "\<exists>names. opened d' = opened d @ names \<and> distinct names"
proof -
  let ?s = "DataWrite_start env d"
  have "names_ok (opened d) (file_count d) (fst ?s)"
    using assms(2) open_file_fields [of env d]
    by (auto simp: DataWrite_start_def Let_def names_ok_def opened_def numbered_def readout_file_def readout_prefix_def)
  then have run: "names_ok (opened d) (file_count d) (fst (fold (wstep env) pre ?s))" for pre
    by (induction pre rule: rev_induct) (simp_all add: names_wstep)
  obtain s' where s': "names_ok (opened d) (file_count d) (fst s')" and fin: "DataWrite_finish env s' = (d', b')"
  proof (cases "stop_write (fst ?s)")
    case True
    then show ?thesis using that run [of "[]"] assms(1) by (auto simp: DataWrite_def Let_def)
  next
    case False
    then obtain s' where "write_loop env evs ?s = Some s'" "DataWrite_finish env s' = (d', b')"
      using assms(1) by (auto simp: DataWrite_def Let_def)
    then show ?thesis using that run by (metis write_loop_Some)
  qed
  have "opened d' = opened (fst s')"
    using fin by (auto simp: DataWrite_finish_def write_words_def Let_def opened_simps split: prod.splits)
  moreover obtain names where "opened (fst s') = opened d @ names"
    "list_all2 numbered names [file_count d..<Suc (file_count (fst s'))]" using s' by (auto simp: names_ok_def)
  ultimately show ?thesis using names_ok_distinct by (metis distinct_upt)
qed

section \<open>Witnesses\<close>

definition good_env :: io_env where
  "good_env = \<lparr>env_os = (\<lambda>_. default_os), env_exists = (\<lambda>_ _. True), env_open = (\<lambda>t _. Inr (3 + t)),
     env_append = (\<lambda>_ _. True), env_write = (\<lambda>_ _ ws. Inr (4 * length ws)), env_close = (\<lambda>_ _. True),
     env_time = (\<lambda>_. [])\<rparr>"

definition small_dh :: dh where
  "small_dh = sample_dh\<lparr>DMABUFFSIZE := 20, write_file_name := ''/d/readout_data/pGRAMS_bin_7_'', run_number := 7\<rparr>"

definition small_event :: "u32 list" where "small_event = [0xFFFFFFFF, 5, 6, 0xE0000000]"

lemma healthy_good_env: "healthy good_env"
proof -
  have "(3221225472 :: u64) \<le> 10000000 * 4096" by simp
  then show ?thesis
    by (simp add: healthy_def good_env_def has_free_def default_os_def GetFreeBytes_def QueryFreeBytes_def
        kDiskFileSwitchMinFreeBytes_def)
qed

lemma small_event_ok: "stream_ok DATABUFFSIZE [([9, 9], small_event), ([], small_event)]"
proof -
  have "event_wf small_event"
    unfolding event_wf_def small_event_def
    by (intro exI [of _ "0xFFFFFFFF"] exI [of _ "[5, 6]"] exI [of _ "0xE0000000"])
       (simp add: isEventStart_def isEventEnd_def)
  then show ?thesis
    by (simp add: stream_ok_def isEventStart_def small_event_def DATABUFFSIZE_def EVENTSIZE_def)
qed

definition small_blocks :: "u32 list list" where
  "small_blocks = [[9, 9, 0xFFFFFFFF, 5, 6], [0xE0000000, 0xFFFFFFFF, 5, 6, 0xE0000000]]"

lemma small_tokens: "tokens_of 5 0 kNoResync (map Block small_blocks) = map Wd (stream_of [([9, 9], small_event), ([], small_event)])"
  by (subst tokens_of_blocks) (simp_all add: small_blocks_def kNoResync_def stream_of_def small_event_def)


theorem DataWrite_files_witness:
  "\<exists>d' b'. DataWrite good_env (map Block small_blocks @ [StoreStop, QueueEmpty]) small_dh = Some (d', b')
     \<and> file_data (io_log d') = named_chunks ''/d/readout_data/pGRAMS_bin_7_'' 0 [small_event, small_event]"
proof -
  note stream = scan_stream [OF small_event_ok]
  have "StoreStop \<notin> set (map Block small_blocks)" by auto
  then show ?thesis
    using DataWrite_files [OF healthy_good_env, of small_dh "map Block small_blocks"] stream(2,3)
    by (simp add: small_dh_def sample_dh_def run_ok_def small_tokens file_data_def files_of_def)
qed

theorem DataWrite_writes_complete_events_witness:
  "\<exists>d' b'. DataWrite good_env (map Block small_blocks @ [StoreStop, QueueEmpty]) small_dh = Some (d', b')
     \<and> (\<exists>pre post. map Block small_blocks @ [StoreStop, QueueEmpty] = pre @ QueueEmpty # post
        \<and> event_count d' = length (events_of (tokens_of 5 0 kNoResync pre)))"
proof -
  let ?evs = "map Block small_blocks @ [StoreStop, QueueEmpty]"
  have ok: "run_ok small_dh" and five: "DMABUFFSIZE small_dh div 4 = 5"
    by (simp_all add: small_dh_def sample_dh_def run_ok_def)
  have fit: "fits DATABUFFSIZE (tokens_of 5 0 kNoResync (map Block small_blocks))"
    using scan_stream(3) [OF small_event_ok] by (simp add: small_tokens)
  have tok: "tokens_of 5 0 kNoResync ?evs = tokens_of 5 0 kNoResync (map Block small_blocks)"
    by (simp add: small_blocks_def)
  obtain d' b' where ret: "DataWrite good_env ?evs small_dh = Some (d', b')"
    using files_of_run [OF healthy_good_env ok, of "map Block small_blocks"] fit five by auto
  then show ?thesis
    using DataWrite_writes_complete_events [OF ret files_start(2) [OF healthy_good_env ok]] fit
    unfolding five tok Let_def by blast
qed


theorem DataWrite_names_distinct_witness:
  "\<exists>d' b' names. DataWrite good_env (map Block small_blocks @ [StoreStop, QueueEmpty]) small_dh = Some (d', b')
     \<and> opened d' = opened small_dh @ names \<and> distinct names"
proof -
  have ok: "run_ok small_dh" and five: "DMABUFFSIZE small_dh div 4 = 5"
    and name: "write_file_name small_dh = readout_prefix ''/d'' 7"
    by (simp_all add: small_dh_def sample_dh_def run_ok_def readout_prefix_def to_string.simps digit_char_def) code_simp
  have "fits DATABUFFSIZE (tokens_of 5 0 kNoResync (map Block small_blocks))"
    using scan_stream(3) [OF small_event_ok] by (simp add: small_tokens)
  then obtain d' b' where ret: "DataWrite good_env (map Block small_blocks @ [StoreStop, QueueEmpty]) small_dh = Some (d', b')"
    using files_of_run [OF healthy_good_env ok, of "map Block small_blocks"] five by auto
  then show ?thesis using DataWrite_names_distinct [OF ret name] by blast
qed

end
