(* ===== verification/Readout_Pipeline.thy ===== *)
theory Readout_Pipeline
  imports Dma_Readout Event_Builder
begin

text \<open>
  The read and the write thread together.  They share the block queue and the member \<^verbatim>\<open>resync_at_block_\<close>.  A
  schedule interleaves the deliveries and timeouts of the read thread with the turns of the write thread on
  the real queue operations; it yields what the write thread meets, the input of \<^verbatim>\<open>DataWrite\<close>.  The theory
  relates the events in the files to the blocks that were accepted and to the places where data were lost.
\<close>

section \<open>Schedules\<close>

record pipe =
  p_dh :: dh
  p_rd :: rd
  p_read :: nat
  p_test :: bool

datatype pact = Deliver "u32 list" | Timeout | Stop | WriterTurn

text \<open>\<^verbatim>\<open>Stop\<close> is the final store of the read thread to \<^verbatim>\<open>stop_write_\<close>.  A delivery that finds the queue full, and a timeout, store the index of the next block for a resync.
  A turn of the write thread reads a block, or finds the queue empty (\<^verbatim>\<open>p_test\<close>); its next turn is then the test of
  \<^verbatim>\<open>stop_write_\<close>, and the read thread may act between the two.  Reading a block, comparing its index with
  \<^verbatim>\<open>resync_at_block_\<close> and clearing that member is one turn.\<close>

fun accepts :: "pact \<Rightarrow> pipe \<Rightarrow> bool" where
  "accepts (Deliver buf) s = (blocks_enqueued (snd (deliver_block buf (p_dh s, p_rd s))) \<noteq> blocks_enqueued (p_rd s))"
| "accepts _ s = False"

fun loses :: "pact \<Rightarrow> pipe \<Rightarrow> bool" where
  "loses (Deliver buf) s = (\<not> accepts (Deliver buf) s)"
| "loses Timeout s = True"
| "loses _ s = False"

definition next_block :: "pipe \<Rightarrow> wevent list \<times> pipe" where
  "next_block s = (if p_test s then ([QueueEmpty], s\<lparr>p_test := False\<rparr>) else let d = p_dh s in case pcq_read (data_queue d) of
     (True, Some ws, q) \<Rightarrow> ([Block ws],
       s\<lparr>p_dh := d\<lparr>data_queue := q,
             resync_at_block := if p_read s \<ge> resync_at_block d then kNoResync else resync_at_block d\<rparr>,
         p_read := p_read s + 1\<rparr>)
   | _ \<Rightarrow> ([], s\<lparr>p_test := True\<rparr>))"

fun pipe_step :: "pact \<Rightarrow> pipe \<Rightarrow> wevent list \<times> pipe" where
  "pipe_step (Deliver buf) s = (case deliver_block buf (p_dh s, p_rd s) of (d, r) \<Rightarrow>
     (if accepts (Deliver buf) s then [] else [StoreResync (blocks_enqueued (p_rd s))], s\<lparr>p_dh := d, p_rd := r\<rparr>))"
| "pipe_step Timeout s = (case note_timeout (p_dh s, p_rd s) of (d, r) \<Rightarrow>
     ([StoreResync (blocks_enqueued (p_rd s))], s\<lparr>p_dh := d, p_rd := r\<rparr>))"
| "pipe_step Stop s = ([StoreStop], s\<lparr>p_dh := (p_dh s)\<lparr>stop_write := True\<rparr>\<rparr>)"
| "pipe_step WriterTurn s = next_block s"

fun pipe_run :: "pact list \<Rightarrow> pipe \<Rightarrow> wevent list \<times> pipe" where
  "pipe_run [] s = ([], s)"
| "pipe_run (a # as) s = (case pipe_step a s of (e, s') \<Rightarrow> case pipe_run as s' of (es, s'') \<Rightarrow> (e @ es, s''))"

section \<open>What was accepted and what was lost\<close>

text \<open>The accepted blocks, and the block indices before which data were lost.\<close>

fun accepted :: "pact list \<Rightarrow> pipe \<Rightarrow> u32 list list" where
  "accepted [] s = []"
| "accepted (a # as) s = (if accepts a s then [word_arr (p_rd (snd (pipe_step a s)))] else []) @ accepted as (snd (pipe_step a s))"

fun losses :: "pact list \<Rightarrow> pipe \<Rightarrow> nat set" where
  "losses [] s = {}"
| "losses (a # as) s = (if loses a s then {blocks_enqueued (p_rd s)} else {}) \<union> losses as (snd (pipe_step a s))"

text \<open>Losses are separated when none is recorded while an earlier one still waits for the write thread.\<close>

fun separated :: "pact list \<Rightarrow> pipe \<Rightarrow> bool" where
  "separated [] s = True"
| "separated (a # as) s =
     ((loses a s \<longrightarrow> resync_at_block (p_dh s) \<in> {kNoResync, blocks_enqueued (p_rd s)}) \<and> separated as (snd (pipe_step a s)))"

text \<open>The stream as it should be read: the words of the blocks, cut at every loss.\<close>

fun torn :: "nat \<Rightarrow> nat \<Rightarrow> nat set \<Rightarrow> u32 list list \<Rightarrow> token list" where
  "torn j n L [] = []"
| "torn j n L (b # bs) = (if j \<in> L then [Cut] else []) @ map Wd (take n b) @ torn (Suc j) n L bs"

definition fresh_pipe :: "dh \<Rightarrow> rd \<Rightarrow> pipe" where
  "fresh_pipe d r = \<lparr>p_dh = d\<lparr>resync_at_block := kNoResync\<rparr>, p_rd = r\<lparr>blocks_enqueued := 0\<rparr>, p_read = 0, p_test = False\<rparr>"

section \<open>The invariant of the shared state\<close>

definition pipe_inv :: "pipe \<Rightarrow> bool" where
  "pipe_inv s \<longleftrightarrow> queue_inv (data_queue (p_dh s))
     \<and> p_read s + length (contents (data_queue (p_dh s))) = blocks_enqueued (p_rd s)
     \<and> (resync_at_block (p_dh s) = kNoResync
        \<or> p_read s \<le> resync_at_block (p_dh s) \<and> resync_at_block (p_dh s) \<le> blocks_enqueued (p_rd s))"

lemma torn_cong: "(\<And>j. j \<ge> k \<Longrightarrow> j \<in> L \<longleftrightarrow> j \<in> L') \<Longrightarrow> torn k n L bs = torn k n L' bs"
  by (induction bs arbitrary: k) auto

lemma deliver_cases:
  assumes "pipe_inv s"
  obtains (full) "\<not> accepts (Deliver buf) s" "data_queue (fst (deliver_block buf (p_dh s, p_rd s))) = data_queue (p_dh s)"
      "resync_at_block (fst (deliver_block buf (p_dh s, p_rd s))) = blocks_enqueued (p_rd s)"
      "blocks_enqueued (snd (deliver_block buf (p_dh s, p_rd s))) = blocks_enqueued (p_rd s)"
  | (room) "accepts (Deliver buf) s" "queue_inv (data_queue (fst (deliver_block buf (p_dh s, p_rd s))))"
      "contents (data_queue (fst (deliver_block buf (p_dh s, p_rd s))))
        = contents (data_queue (p_dh s)) @ [word_arr (snd (deliver_block buf (p_dh s, p_rd s)))]"
      "resync_at_block (fst (deliver_block buf (p_dh s, p_rd s))) = resync_at_block (p_dh s)"
      "blocks_enqueued (snd (deliver_block buf (p_dh s, p_rd s))) = Suc (blocks_enqueued (p_rd s))"
proof -
  define w where "w = take (DMABUFFSIZE (p_dh s) div 4) buf @ drop (DMABUFFSIZE (p_dh s) div 4) (word_arr (p_rd s))"
  have "queue_inv (data_queue (p_dh s))" using assms by (simp add: pipe_inv_def)
  then show ?thesis
  proof (cases rule: ring.enq_cases [where x = w])
    case full
    then show ?thesis using that(1) by (simp add: deliver_block_def Let_def w_def)
  next
    case (room q')
    then show ?thesis using that(2) by (simp add: deliver_block_def Let_def w_def)
  qed
qed

lemma turn_cases:
  assumes "pipe_inv s"
  obtains (test) "p_test s" "next_block s = ([QueueEmpty], s\<lparr>p_test := False\<rparr>)"
  | (empty) "\<not> p_test s" "contents (data_queue (p_dh s)) = []" "next_block s = ([], s\<lparr>p_test := True\<rparr>)"
  | (elem) y q' where "contents (data_queue (p_dh s)) = y # contents q'" "queue_inv q'"
      "next_block s = ([Block y], s\<lparr>p_dh := (p_dh s)\<lparr>data_queue := q',
             resync_at_block := if p_read s \<ge> resync_at_block (p_dh s) then kNoResync else resync_at_block (p_dh s)\<rparr>,
         p_read := p_read s + 1\<rparr>)"
proof -
  have inv: "queue_inv (data_queue (p_dh s))" using assms by (simp add: pipe_inv_def)
  show ?thesis
  proof (cases "p_test s")
    case True
    then show ?thesis using that(1) by (simp add: next_block_def)
  next
    case False
    from inv show ?thesis
    proof (cases rule: ring.deq_cases)
      case empty
      then show ?thesis using that(2) False by (simp add: next_block_def Let_def)
    next
      case (elem y q')
      then show ?thesis using that(3) [of y q'] False by (simp add: next_block_def Let_def)
    qed
  qed
qed

lemma pipe_step_inv:
  assumes "pipe_inv s" and "blocks_enqueued (p_rd s) < kNoResync"
  shows "pipe_inv (snd (pipe_step a s))"
proof (cases a)
  case (Deliver buf)
  show ?thesis
    using assms(1)
  proof (cases rule: deliver_cases [where buf = buf])
    case full
    then show ?thesis using assms(1) by (simp add: Deliver pipe_inv_def case_prod_beta)
  next
    case room
    then show ?thesis using assms(1) by (auto simp: Deliver pipe_inv_def case_prod_beta)
  qed
next
  case Timeout
  then show ?thesis using assms(1) by (simp add: pipe_inv_def note_timeout_def)
next
  case Stop
  then show ?thesis using assms(1) by (simp add: pipe_inv_def)
next
  case WriterTurn
  show ?thesis
    using assms(1)
  proof (cases rule: turn_cases)
    case test
    then show ?thesis using assms(1) by (simp add: WriterTurn pipe_inv_def)
  next
    case empty
    then show ?thesis using assms(1) by (auto simp: WriterTurn pipe_inv_def)
  next
    case (elem y q')
    then show ?thesis using assms by (auto simp: WriterTurn pipe_inv_def)
  qed
qed

lemma step_enqueued:
  assumes "pipe_inv s"
  shows "blocks_enqueued (p_rd (snd (pipe_step a s))) = blocks_enqueued (p_rd s) + (if accepts a s then 1 else 0)"
proof (cases a)
  case (Deliver buf)
  show ?thesis
    using assms by (cases rule: deliver_cases [where buf = buf]) (simp_all add: Deliver case_prod_beta)
next
  case Timeout
  then show ?thesis by (simp add: note_timeout_def)
next
  case Stop
  then show ?thesis by simp
next
  case WriterTurn
  show ?thesis using assms by (cases rule: turn_cases) (simp_all add: WriterTurn)
qed

lemma pipe_run_reaches:
  assumes "pipe_inv s" and "blocks_enqueued (p_rd s) + length acts < kNoResync"
  shows "pipe_inv (snd (pipe_run acts s)) \<and> p_read s \<le> p_read (snd (pipe_run acts s))"
  using assms
proof (induction acts arbitrary: s)
  case (Cons a acts)
  let ?t = "snd (pipe_step a s)"
  have t: "pipe_inv ?t" using pipe_step_inv Cons.prems by simp
  have "p_read s \<le> p_read ?t"
    using Cons.prems(1)
    by (cases a) (auto simp: next_block_def Let_def note_timeout_def case_prod_beta split: option.splits bool.splits)
  moreover have "blocks_enqueued (p_rd ?t) + length acts < kNoResync" using step_enqueued [OF Cons.prems(1)] Cons.prems(2) by simp
  ultimately show ?case using Cons.IH [OF t] by (auto simp: case_prod_beta)
qed simp

lemma losses_above:
  assumes "pipe_inv s" and "blocks_enqueued (p_rd s) + length acts < kNoResync" and "j \<in> losses acts s"
  shows "blocks_enqueued (p_rd s) \<le> j"
  using assms
proof (induction acts arbitrary: s)
  case (Cons a acts)
  have "pipe_inv (snd (pipe_step a s))" using pipe_step_inv Cons.prems by simp
  then show ?case
    using Cons.IH [of "snd (pipe_step a s)"] Cons.prems step_enqueued [OF Cons.prems(1), of a]
    by (auto split: if_splits)
qed simp

definition pending_cut :: "pipe \<Rightarrow> nat set" where
  "pending_cut s = (if resync_at_block (p_dh s) = kNoResync then {} else {resync_at_block (p_dh s)})"

section \<open>The stream that the write thread reads\<close>

text \<open>A step of the read thread moves the place of a loss from the future to the pending cut.\<close>

lemma cut_step:
  assumes "pipe_inv s" and "blocks_enqueued (p_rd s) + length (a # acts) < kNoResync" and "separated (a # acts) s" and "a \<noteq> WriterTurn"
  shows "losses acts (snd (pipe_step a s)) \<union> pending_cut (snd (pipe_step a s)) = losses (a # acts) s \<union> pending_cut s"
proof -
  let ?t = "snd (pipe_step a s)"
  have cut: "losses acts ?t \<union> pending_cut ?t = losses (a # acts) s \<union> pending_cut s"
    if "loses a s" "resync_at_block (p_dh ?t) = blocks_enqueued (p_rd s)"
    using that assms(2,3) by (auto simp: pending_cut_def)
  show ?thesis
  proof (cases a)
    case (Deliver buf)
    show ?thesis using assms(1)
    proof (cases rule: deliver_cases [where buf = buf])
      case full
      then show ?thesis by (intro cut) (simp_all add: Deliver case_prod_beta)
    next
      case room
      then show ?thesis by (simp add: Deliver case_prod_beta pending_cut_def)
    qed
  next
    case Timeout
    then show ?thesis by (intro cut) (simp_all add: note_timeout_def)
  next
    case Stop
    then show ?thesis by (simp add: pending_cut_def)
  qed (use assms(4) in simp)
qed

lemma pipe_tokens:
  assumes "pipe_inv s" and "blocks_enqueued (p_rd s) + length acts < kNoResync" and "separated acts s"
  shows "tokens_of n (p_read s) (resync_at_block (p_dh s)) (fst (pipe_run acts s))
    = torn (p_read s) n (losses acts s \<union> pending_cut s)
        (take (p_read (snd (pipe_run acts s)) - p_read s) (contents (data_queue (p_dh s)) @ accepted acts s))"
  using assms
proof (induction acts arbitrary: s)
  case (Cons a acts)
  let ?t = "snd (pipe_step a s)"
  have t: "pipe_inv ?t" using pipe_step_inv Cons.prems by simp
  have bound: "blocks_enqueued (p_rd ?t) + length acts < kNoResync"
    using step_enqueued [OF Cons.prems(1)] Cons.prems(2) by simp
  have sep: "separated acts ?t" using Cons.prems(3) by simp
  note IH = Cons.IH [OF t bound sep]
  note cut = cut_step [OF Cons.prems]
  show ?case
  proof (cases a)
    case (Deliver buf)
    show ?thesis using Cons.prems(1)
    proof (cases rule: deliver_cases [where buf = buf])
      case full
      then show ?thesis using IH cut by (simp add: Deliver case_prod_beta)
    next
      case room
      then show ?thesis using IH cut by (simp add: Deliver case_prod_beta)
    qed
  next
    case Timeout
    then show ?thesis using IH cut by (simp add: note_timeout_def case_prod_beta)
  next
    case Stop
    then show ?thesis using IH by (simp add: pending_cut_def case_prod_beta)
  next
    case WriterTurn
    show ?thesis using Cons.prems(1)
    proof (cases rule: turn_cases)
      case (elem y q')
      let ?rs = "resync_at_block (p_dh s)"
      have inv: "p_read s < blocks_enqueued (p_rd s)" "?rs = kNoResync \<or> p_read s \<le> ?rs"
        using Cons.prems(1) elem(1) by (auto simp: pipe_inv_def)
      have above: "j \<in> losses acts ?t \<Longrightarrow> p_read s < j" for j
        using losses_above [OF t bound, of j] inv(1) step_enqueued [OF Cons.prems(1), of a] by simp
      have here: "p_read s \<in> losses acts ?t \<union> pending_cut s \<longleftrightarrow> p_read s \<ge> ?rs"
        using above inv Cons.prems(2) by (auto simp: pending_cut_def)
      have rest: "torn (Suc (p_read s)) n (losses acts ?t \<union> pending_cut ?t) bs = torn (Suc (p_read s)) n (losses acts ?t \<union> pending_cut s) bs" for bs
        by (rule torn_cong) (use elem inv(2) in \<open>auto simp: WriterTurn pending_cut_def split: if_splits\<close>)
      have "p_read ?t = Suc (p_read s)" using elem by (simp add: WriterTurn)
      then have "p_read (snd (pipe_run acts ?t)) - p_read s = Suc (p_read (snd (pipe_run acts ?t)) - Suc (p_read s))"
        using pipe_run_reaches [OF t bound] by linarith
      then show ?thesis using IH here rest elem by (simp add: WriterTurn case_prod_beta)
    qed (use IH in \<open>simp_all add: WriterTurn case_prod_beta pending_cut_def\<close>)
  qed
qed simp

lemma fresh_inv:
  assumes "new_queue m = Some (data_queue d)"
  shows "pipe_inv (fresh_pipe d r)" and "contents (data_queue (p_dh (fresh_pipe d r))) = []" and "pending_cut (fresh_pipe d r) = {}"
  using new_queue_inv [OF assms] by (simp_all add: fresh_pipe_def pipe_inv_def pending_cut_def)

lemma fresh_fields [simp]:
  "p_read (fresh_pipe d r) = 0" "resync_at_block (p_dh (fresh_pipe d r)) = kNoResync" "blocks_enqueued (p_rd (fresh_pipe d r)) = 0"
  by (simp_all add: fresh_pipe_def)

lemma next_block_short: "fst (next_block s) = [] \<or> (\<exists>x. fst (next_block s) = [x])"
  by (simp add: next_block_def Let_def split: prod.split option.split bool.split)

lemma pipe_run_split:
  assumes "fst (pipe_run acts s) = pre @ QueueEmpty # post"
  shows "\<exists>acts1 acts2. acts = acts1 @ WriterTurn # acts2 \<and> fst (pipe_run acts1 s) = pre"
  using assms
proof (induction acts arbitrary: s pre)
  case (Cons a acts)
  let ?t = "snd (pipe_step a s)"
  obtain e where e: "fst (pipe_step a s) = e" by blast
  have run: "e @ fst (pipe_run acts ?t) = pre @ QueueEmpty # post" using Cons.prems e by (simp add: case_prod_beta)
  have short: "e = [] \<or> (\<exists>x. e = [x])" using e next_block_short [of s] by (cases a) (auto simp: case_prod_beta)
  show ?case
  proof (cases "e = [QueueEmpty] \<and> pre = []")
    case True
    then have "a = WriterTurn" using e by (cases a) (auto simp: case_prod_beta split: if_splits)
    then show ?thesis using True by (intro exI [of _ "[]"] exI [of _ acts]) simp
  next
    case False
    then obtain pre' where pre: "pre = e @ pre'" and rest: "fst (pipe_run acts ?t) = pre' @ QueueEmpty # post"
      using run short by (cases pre) auto
    obtain as1 as2 where "acts = as1 @ WriterTurn # as2" "fst (pipe_run as1 ?t) = pre'" using Cons.IH [OF rest] by blast
    then show ?thesis using pre e by (intro exI [of _ "a # as1"] exI [of _ as2]) (simp add: case_prod_beta)
  qed
qed simp

lemma separated_append: "separated (xs @ ys) s \<Longrightarrow> separated xs s"
  by (induction xs arbitrary: s) auto



section \<open>Two losses in a row\<close>

definition glue_pipe :: pipe where
  "glue_pipe = fresh_pipe (sample_dh\<lparr>DMABUFFSIZE := 8, data_queue := the (new_queue 4)\<rparr>) new_rd"

definition glue_acts :: "pact list" where
  "glue_acts = [Deliver [0xFFFFFFFF, 1], Timeout, Deliver [7, 0xE0000000], Timeout, WriterTurn, WriterTurn]"

lemma queue4: "the (new_queue 4 :: 'a pcq option) = \<lparr>q_size = 4, records = [None, None, None, None], readIndex = 0, writeIndex = 0\<rparr>"
proof -
  have "replicate (unat (4 :: u32)) x = [x, x, x, x]" for x :: "'a option" 
  proof -
    have "replicate 4 x = [x, x, x, x]" by (simp add: eval_nat_numeral)
    then show ?thesis by simp
  qed
  then show ?thesis by (simp add: new_queue_def)
qed

lemmas glue_simps = glue_pipe_def glue_acts_def fresh_pipe_def queue4 sample_dh_def new_rd_def deliver_block_def
  pcq_write_def pcq_read_def next_index_def note_timeout_def next_block_def Let_def

lemma glue_run: "fst (pipe_run glue_acts glue_pipe)
    = [StoreResync 1, StoreResync 2, Block [0xFFFFFFFF, 1], Block [7, 0xE0000000]]"
  by (simp add: glue_simps)

lemma glue_history: "accepted glue_acts glue_pipe = [[0xFFFFFFFF, 1], [7, 0xE0000000]]" "losses glue_acts glue_pipe = {1, 2}"
  by (auto simp: glue_simps)

text \<open>Losses that are not separated glue the parts of different events: a first block with the head of an event, a
  timeout, a second block with the tail of a later event, and a second timeout before the write thread reads
  the second block.  The second store to \<^verbatim>\<open>resync_at_block_\<close> overwrites the first, and the write thread
  builds one event from the two parts, though no complete event was accepted.\<close>
theorem resync_overwritten:
  "events_of (tokens_of 2 0 kNoResync (fst (pipe_run glue_acts glue_pipe))) = [[0xFFFFFFFF, 1, 7, 0xE0000000]]
   \<and> events_of (torn 0 2 (losses glue_acts glue_pipe) (accepted glue_acts glue_pipe)) = []"
  by (simp add: glue_run glue_history events_of_def scan_def isEventStart_def isEventEnd_def kNoResync_def)

definition pipe_dh :: dh where
  "pipe_dh = sample_dh\<lparr>DMABUFFSIZE := 20, data_queue := the (new_queue 4)\<rparr>"

definition pipe_acts :: "pact list" where
  "pipe_acts = [Deliver (small_blocks ! 0), WriterTurn, Deliver (small_blocks ! 1), WriterTurn, Stop, WriterTurn, WriterTurn]"

lemmas pipe_simps = pipe_dh_def pipe_acts_def small_blocks_def fresh_pipe_def queue4 sample_dh_def new_rd_def deliver_block_def
  pcq_write_def pcq_read_def next_index_def next_block_def Let_def

lemma pipe_dh_queue: "new_queue 4 = Some (data_queue pipe_dh)"
  by (simp add: pipe_dh_def new_queue_def)

lemma pipe_small_run: "fst (pipe_run pipe_acts (fresh_pipe pipe_dh new_rd)) = map Block small_blocks @ [StoreStop, QueueEmpty]"
  by (simp add: pipe_simps)



section \<open>The last blocks of a run\<close>

text \<open>The write thread does not look at the queue again after it has seen the stop: blocks that arrive between its last read and its
  test of the flag stay in the queue, complete events and all.\<close>

definition late_acts :: "pact list" where
  "late_acts = [WriterTurn, Deliver (small_blocks ! 1), Stop, WriterTurn]"

lemma last_block_lost:
  "fst (pipe_run late_acts (fresh_pipe pipe_dh new_rd)) = [StoreStop, QueueEmpty]"
  "events_of (torn 0 5 (losses late_acts (fresh_pipe pipe_dh new_rd)) (accepted late_acts (fresh_pipe pipe_dh new_rd)))
     = [[0xFFFFFFFF, 5, 6, 0xE0000000]]"
  by (simp_all add: late_acts_def pipe_simps events_of_def scan_def isEventStart_def isEventEnd_def)

end
