(* ===== verification/Trigger_Readout.thy ===== *)
theory Trigger_Readout
  imports Data_Handler_Config Hardware_Device
begin

text \<open>
  The two slow readout threads of \<^verbatim>\<open>src/data/data_handler.cpp\<close>: \<^verbatim>\<open>TriggerDMARead\<close> drains the 16 byte trigger
  records of the trigger board, \<^verbatim>\<open>PollTriggerPPS\<close> samples the latched PPS time stamp.  Both follow the write
  thread to another disk through the segment number.  What they observe of the other threads is a list of
  observations, one for each test of the run flag; a list that ends before the thread does gives \<^term>\<open>None\<close>.
\<close>

section \<open>Trigger records\<close>

definition TRIG_BUFFER_SIZE :: nat where "TRIG_BUFFER_SIZE = 250"

text \<open>An observation: the run flag, the segment number, and, for a reopening, the base directory, the segment
  number read under the lock and whether the file opens.\<close>

record tobs =
  o_running :: bool
  o_segment :: nat
  o_basedir :: string
  o_segment_locked :: nat
  o_opens :: bool

text \<open>\<^verbatim>\<open>trig_raw\<close> is the used part of the raw buffer, \<^verbatim>\<open>raw_file\<close> the open file, \<^verbatim>\<open>raw_writes\<close> the writes to the files
  in order, \<^verbatim>\<open>raw_taken\<close> the records read from the card in order.\<close>

record tr =
  trig_raw :: "(u64 \<times> u64) list"
  raw_file :: "string option"
  raw_writes :: "(string \<times> (u64 \<times> u64) list) list"
  raw_taken :: "(u64 \<times> u64) list"
  trig_ctr :: u64
  open_segment :: nat
  open_error :: bool
  tr_pcie :: pcie

definition raw_write :: "tr \<Rightarrow> tr" where
  "raw_write s = (case raw_file s of None \<Rightarrow> s
     | Some f \<Rightarrow> s\<lparr>raw_writes := raw_writes s @ [(f, trig_raw s)]\<rparr>)"

definition flush_trigger_buffers :: "tr \<Rightarrow> tr" where
  "flush_trigger_buffers s = (if trig_raw s = [] then s else (raw_write s)\<lparr>trig_raw := []\<rparr>)"

definition raw_open :: "string \<Rightarrow> bool \<Rightarrow> tr \<Rightarrow> tr" where
  "raw_open name ok s = (if ok then s\<lparr>raw_file := Some name\<rparr> else s\<lparr>raw_file := None, open_error := True\<rparr>)"

definition reopen_trigger_files :: "dh \<Rightarrow> tobs \<Rightarrow> tr \<Rightarrow> tr" where
  "reopen_trigger_files d ob s = (let s = (flush_trigger_buffers s)\<lparr>raw_file := None\<rparr> in
     raw_open (BuildTriggerRawFileName d (o_basedir ob) (o_segment_locked ob)) (o_opens ob) s)"

definition handle_disk_switch :: "dh \<Rightarrow> tobs \<Rightarrow> tr \<Rightarrow> tr" where
  "handle_disk_switch d ob s = (if o_segment ob = open_segment s then s
     else (reopen_trigger_files d ob s)\<lparr>open_segment := o_segment ob\<rparr>)"

definition read_trig_counter :: "driver \<Rightarrow> tr \<Rightarrow> u64 \<times> tr" where
  "read_trig_counter drv s = (let (v, p) = ReadReg64 drv kDev1 cs_bar t2_cs_reg (tr_pcie s) in
     (drop_bit 32 v AND 0xffffff, s\<lparr>tr_pcie := p\<rparr>))"

definition take_record :: "driver \<Rightarrow> tr \<Rightarrow> tr" where
  "take_record drv s =
     (let (trig_data0, p) = ReadReg64 drv kDev1 t2_tr_bar 0 (tr_pcie s);
          (trig_data1, p) = ReadReg64 drv kDev1 t2_tr_bar 0 p;
          s = s\<lparr>tr_pcie := p, trig_raw := trig_raw s @ [(trig_data0, trig_data1)], raw_taken := raw_taken s @ [(trig_data0, trig_data1)]\<rparr>;
          s = (if length (trig_raw s) \<ge> TRIG_BUFFER_SIZE then (raw_write s)\<lparr>trig_raw := []\<rparr> else s)
      in s\<lparr>trig_ctr := trig_ctr s - 16\<rparr>)"

definition trig_finish :: "tr \<Rightarrow> tr" where
  "trig_finish s = (if trig_raw s = [] then s else raw_write s)\<lparr>raw_file := None\<rparr>"

text \<open>The position in the nested loops: the test of the outer loop, the test of the inner loop with the counter that
  was read, and the test before the sleep.\<close>

datatype tpos = Outer | Inner u64 | Rest

fun trig_loop :: "driver \<Rightarrow> dh \<Rightarrow> tpos \<Rightarrow> tobs list \<Rightarrow> tr \<Rightarrow> tr option" where
  "trig_loop drv d pos [] s = None"
| "trig_loop drv d Outer (ob # obs) s =
     (if \<not> o_running ob then Some (trig_finish s)
      else let s = handle_disk_switch d ob s; (ctr, s) = read_trig_counter drv s in trig_loop drv d (Inner ctr) obs s)"
| "trig_loop drv d (Inner ctr) (ob # obs) s =
     (if o_running ob \<and> trig_ctr s - ctr \<ge> 16
      then let s = handle_disk_switch d ob s; s = take_record drv s; (ctr, s) = read_trig_counter drv s
           in trig_loop drv d (Inner ctr) obs s
      else trig_loop drv d Rest obs s)"
| "trig_loop drv d Rest (ob # obs) s =
     (if \<not> o_running ob then Some (trig_finish s) else trig_loop drv d Outer obs s)"

definition trig_start :: "driver \<Rightarrow> dh \<Rightarrow> bool \<Rightarrow> pcie \<Rightarrow> tr" where
  "trig_start drv d opens p =
     (let s = raw_open (BuildTriggerRawFileName d (data_basedir d) 0) opens
           \<lparr>trig_raw = [], raw_file = None, raw_writes = [], raw_taken = [], trig_ctr = 0xFFFFFF, open_segment = 0,
            open_error = False, tr_pcie = p\<rparr>;
          p = snd (WriteReg32 drv kDev1 cs_bar tx_md_reg 0xf0000008 p);
          p = snd (WriteReg32 drv kDev1 cs_bar r2_cs_reg cs_init p);
          p = snd (WriteReg32 drv kDev1 cs_bar r2_cs_reg (cs_start + 0xffffff) p)
      in s\<lparr>tr_pcie := p\<rparr>)"

definition TriggerDMARead :: "driver \<Rightarrow> dh \<Rightarrow> bool \<Rightarrow> tobs list \<Rightarrow> pcie \<Rightarrow> tr option" where
  "TriggerDMARead drv d opens obs p = trig_loop drv d Outer obs (trig_start drv d opens p)"

section \<open>PPS\<close>

definition PPS_BUFFER_SIZE :: nat where "PPS_BUFFER_SIZE = 250"

record PPSSample =
  timestamp :: int
  pps_frame :: u32
  pps_sample :: u32
  pps_div :: u32

record pobs = tobs +
  o_time :: int

record pp =
  pps_buffer :: "PPSSample list"
  pps_file :: "string option"
  pps_writes :: "(string \<times> PPSSample list) list"
  pps_reads :: "(u32 \<times> u32) list"
  read_array :: "u32 list"
  last_ts :: u64
  have_last :: bool
  pps_number :: nat
  pps_segment :: nat
  pps_error :: bool
  pp_pcie :: pcie

definition pps_write :: "pp \<Rightarrow> pp" where
  "pps_write s = (case pps_file s of None \<Rightarrow> s | Some f \<Rightarrow> s\<lparr>pps_writes := pps_writes s @ [(f, pps_buffer s)]\<rparr>)"

definition pps_open :: "string \<Rightarrow> bool \<Rightarrow> pp \<Rightarrow> pp" where
  "pps_open name ok s = (if ok then s\<lparr>pps_file := Some name\<rparr> else s\<lparr>pps_file := None, pps_error := True\<rparr>)"

text \<open>The pending samples are written only if the file is open; otherwise they stay in the buffer.\<close>

definition reopen_pps_file :: "dh \<Rightarrow> pobs \<Rightarrow> pp \<Rightarrow> pp" where
  "reopen_pps_file d ob s =
     (let s = (if pps_buffer s \<noteq> [] \<and> pps_file s \<noteq> None then (pps_write s)\<lparr>pps_buffer := []\<rparr> else s);
          s = s\<lparr>pps_file := None\<rparr>
      in pps_open (BuildPpsFileName d (o_basedir ob) (o_segment_locked ob)) (o_opens ob) s)"

definition pps_query :: "driver \<Rightarrow> int \<Rightarrow> u32 list \<Rightarrow> pcie \<Rightarrow> u32 list \<times> pcie" where
  "pps_query drv trig_mod a p =
     (let (r, a, p) = PCIeRecvBuffer drv 1 0 1 2 0 a p;
          (i, p) = PCIeSendBuffer drv 1 0 1 [cmd_word trig_mod 3 35 0, 0] p;
          (r, a, p) = PCIeRecvBuffer drv 1 0 2 2 0 a p
      in (a, p))"

definition pps_ts :: "u64 \<Rightarrow> u32 \<times> u32 \<Rightarrow> u64" where
  "pps_ts fspan w = ucast (fst w AND 0xFFFFFF) * fspan + ucast (snd w AND 0xFFF)"

definition pps_valid :: "u32 \<times> u32 \<Rightarrow> bool" where
  "pps_valid w \<longleftrightarrow> fst w AND 0xFF000000 = 0 \<and> fst w AND 0xFFFFFF \<noteq> 0"

text \<open>The body of the loop after the two words have been read.\<close>

definition pps_record :: "int \<Rightarrow> u32 \<times> u32 \<Rightarrow> pp \<Rightarrow> pp" where
  "pps_record now_ms w s =
     (let s = s\<lparr>pps_buffer := pps_buffer s @ [\<lparr>timestamp = now_ms, pps_frame = fst w AND 0xFFFFFF, pps_sample = snd w AND 0xFFF,
           pps_div = drop_bit 16 (snd w AND 0x70000)\<rparr>], pps_number := pps_number s + 1\<rparr>
      in if length (pps_buffer s) \<ge> PPS_BUFFER_SIZE then (pps_write s)\<lparr>pps_buffer := []\<rparr> else s)"

definition pps_accept :: "u64 \<Rightarrow> int \<Rightarrow> u32 \<times> u32 \<Rightarrow> pp \<Rightarrow> pp" where
  "pps_accept fspan now_ms w s =
     (if \<not> pps_valid w then s
      else let ts = pps_ts fspan w in
      if \<not> have_last s then s\<lparr>last_ts := ts, have_last := True\<rparr>
      else if ts = last_ts s then s
      else pps_record now_ms w (s\<lparr>last_ts := ts\<rparr>))"

definition pps_pass :: "driver \<Rightarrow> dh \<Rightarrow> u64 \<Rightarrow> pobs \<Rightarrow> pp \<Rightarrow> pp" where
  "pps_pass drv d fspan ob s =
     (let s = (if o_segment ob \<noteq> pps_segment s then (reopen_pps_file d ob s)\<lparr>pps_segment := o_segment ob\<rparr> else s);
          (a, p) = pps_query drv (trigger_module d) (read_array s) (pp_pcie s);
          w = (a ! 0, a ! 1)
      in pps_accept fspan (o_time ob) w (s\<lparr>pp_pcie := p, read_array := a, pps_reads := pps_reads s @ [w]\<rparr>))"

definition pps_finish :: "pp \<Rightarrow> pp" where
  "pps_finish s = (if pps_buffer s = [] then s else pps_write s)\<lparr>pps_file := None\<rparr>"

fun pps_loop :: "driver \<Rightarrow> dh \<Rightarrow> u64 \<Rightarrow> pobs list \<Rightarrow> pp \<Rightarrow> pp option" where
  "pps_loop drv d fspan [] s = None"
| "pps_loop drv d fspan (ob # obs) s =
     (if \<not> o_running ob then Some (pps_finish s) else pps_loop drv d fspan obs (pps_pass drv d fspan ob s))"

definition PollTriggerPPS :: "driver \<Rightarrow> dh \<Rightarrow> bool \<Rightarrow> pobs list \<Rightarrow> pcie \<Rightarrow> pp option" where
  "PollTriggerPPS drv d opens obs p =
     pps_loop drv d (of_nat (drift_size d) + 1) obs
       (pps_open (BuildPpsFileName d (data_basedir d) 0) opens
         \<lparr>pps_buffer = [], pps_file = None, pps_writes = [], pps_reads = [], read_array = [0, 0], last_ts = 0, have_last = False,
          pps_number = pps_count d, pps_segment = 0, pps_error = False, pp_pcie = p\<rparr>)"

section \<open>No trigger record is lost\<close>

text \<open>Everything read so far is in the files or in the buffer, as long as every file opened.\<close>

definition tr_inv :: "tr \<Rightarrow> bool" where
  "tr_inv s \<longleftrightarrow> concat (map snd (raw_writes s)) @ trig_raw s = raw_taken s \<and> length (trig_raw s) < TRIG_BUFFER_SIZE
     \<and> raw_file s \<noteq> None \<and> trig_ctr s = 0xFFFFFF - of_nat (16 * length (raw_taken s))
     \<and> list_all (\<lambda>(f, rs). rs \<noteq> [] \<and> length rs \<le> TRIG_BUFFER_SIZE) (raw_writes s)"

lemma handle_disk_switch_inv:
  assumes "tr_inv s" and "o_opens ob"
  shows "tr_inv (handle_disk_switch d ob s)"
  using assms
  by (auto simp: tr_inv_def handle_disk_switch_def reopen_trigger_files_def flush_trigger_buffers_def raw_write_def raw_open_def
      TRIG_BUFFER_SIZE_def Let_def split: option.splits)

lemma read_trig_counter_inv: "tr_inv s \<Longrightarrow> tr_inv (snd (read_trig_counter drv s))"
  by (simp add: tr_inv_def read_trig_counter_def Let_def case_prod_beta)

lemma take_record_inv:
  assumes "tr_inv s"
  shows "tr_inv (take_record drv s)"
  using assms
  by (auto simp: tr_inv_def take_record_def raw_write_def TRIG_BUFFER_SIZE_def Let_def case_prod_beta algebra_simps
      split: option.splits)

definition tr_done :: "tr \<Rightarrow> bool" where
  "tr_done s \<longleftrightarrow> concat (map snd (raw_writes s)) = raw_taken s \<and> trig_ctr s = 0xFFFFFF - of_nat (16 * length (raw_taken s))
     \<and> list_all (\<lambda>(f, rs). rs \<noteq> [] \<and> length rs \<le> TRIG_BUFFER_SIZE) (raw_writes s)"

lemma trig_finish_inv: "tr_inv s \<Longrightarrow> tr_done (trig_finish s)"
  by (auto simp: tr_inv_def tr_done_def trig_finish_def raw_write_def)

lemma trig_loop_inv:
  assumes "tr_inv s" and "list_all o_opens obs" and "trig_loop drv d pos obs s = Some s'"
  shows "tr_done s'"
  using assms
proof (induction obs arbitrary: pos s)
  case (Cons ob obs)
  let ?h = "handle_disk_switch d ob s"
  have h: "tr_inv ?h" using Cons.prems handle_disk_switch_inv by simp
  have next': "tr_inv (snd (read_trig_counter drv ?h))" "tr_inv (snd (read_trig_counter drv (take_record drv ?h)))"
    using h take_record_inv read_trig_counter_inv by blast+
  show ?case
  proof (cases pos)
    case Outer
    then show ?thesis using Cons.IH [OF next'(1)] Cons.prems trig_finish_inv by (simp add: Let_def case_prod_beta split: if_splits) blast
  next
    case (Inner ctr)
    then show ?thesis using Cons.IH [OF next'(2)] Cons.IH [OF Cons.prems(1)] Cons.prems
      by (simp add: Let_def case_prod_beta split: if_splits)
  next
    case Rest
    then show ?thesis using Cons.IH [OF Cons.prems(1)] Cons.prems trig_finish_inv by (simp split: if_splits) blast
  qed
qed simp

text \<open>A stopped run ends the thread: three tests of the run flag after it was cleared are enough.\<close>

lemma trig_loop_returns:
  assumes "\<not> o_running ob"
  shows "\<exists>s'. trig_loop drv d pos (obs @ replicate 3 ob) s = Some s'"
proof -
  have tail: "\<exists>s'. trig_loop drv d pos (replicate 3 ob) s = Some s'" for pos s
    using assms by (cases pos) (simp_all add: numeral_3_eq_3)
  show ?thesis
  proof (induction obs arbitrary: pos s)
    case (Cons x obs)
    show ?case
    proof (cases pos)
      case (Inner ctr)
      show ?thesis unfolding Inner append_Cons trig_loop.simps Let_def case_prod_beta by (simp add: Cons.IH)
    qed (simp_all add: Cons.IH Let_def case_prod_beta)
  qed (use tail in simp)
qed

text \<open>C14: The trigger thread ends once the run flag is cleared, and no trigger record is lost or reordered, also across
  changes of the data disk: when every file opens, the records written to the files are, in order, the
  records read from the card, in writes of at most 250; the byte counter has gone down by 16 for each.\<close>
theorem TriggerDMARead_lossless:
  assumes "list_all o_opens (obs @ replicate 3 ob)" and "\<not> o_running ob"
  shows "\<exists>s. TriggerDMARead drv d True (obs @ replicate 3 ob) p = Some s
    \<and> concat (map snd (raw_writes s)) = raw_taken s \<and> trig_ctr s = 0xFFFFFF - of_nat (16 * length (raw_taken s))
    \<and> list_all (\<lambda>(f, rs). rs \<noteq> [] \<and> length rs \<le> TRIG_BUFFER_SIZE) (raw_writes s)"
proof -
  have "tr_inv (trig_start drv d True p)"
    by (simp add: tr_inv_def trig_start_def raw_open_def TRIG_BUFFER_SIZE_def Let_def)
  then show ?thesis
    using trig_loop_returns [OF assms(2), of drv d Outer obs "trig_start drv d True p"] trig_loop_inv [OF _ assms(1)]
    unfolding TriggerDMARead_def tr_done_def by blast
qed

definition running_obs :: tobs where
  "running_obs = \<lparr>o_running = True, o_segment = 2, o_basedir = ''/nvme1'', o_segment_locked = 2, o_opens = True\<rparr>"

theorem TriggerDMARead_lossless_witness:
  "\<exists>s. TriggerDMARead test_driver sample_dh True ([running_obs, running_obs] @ replicate 3 (running_obs\<lparr>o_running := False\<rparr>)) closed_pcie = Some s
     \<and> concat (map snd (raw_writes s)) = raw_taken s"
  using TriggerDMARead_lossless [of "[running_obs, running_obs]" "running_obs\<lparr>o_running := False\<rparr>" test_driver sample_dh closed_pcie]
  by (auto simp: running_obs_def numeral_3_eq_3)

section \<open>PPS samples are the changes of the latched time stamp\<close>

definition sample_ts :: "u64 \<Rightarrow> PPSSample \<Rightarrow> u64" where
  "sample_ts fspan x = ucast (pps_frame x) * fspan + ucast (pps_sample x)"

definition valid_ts :: "u64 \<Rightarrow> (u32 \<times> u32) list \<Rightarrow> u64 list" where
  "valid_ts fspan ws = map (pps_ts fspan) (filter pps_valid ws)"

lemma remdups_adj_snoc:
  "remdups_adj (xs @ [x]) = (if xs \<noteq> [] \<and> last xs = x then remdups_adj xs else remdups_adj xs @ [x])"
  by (induction xs rule: remdups_adj.induct) auto

definition pp_all :: "pp \<Rightarrow> PPSSample list" where
  "pp_all s = concat (map snd (pps_writes s)) @ pps_buffer s"

definition pp_inv :: "u64 \<Rightarrow> nat \<Rightarrow> pp \<Rightarrow> bool" where
  "pp_inv fspan n s \<longleftrightarrow> (let rs = valid_ts fspan (pps_reads s) in
     map (sample_ts fspan) (pp_all s) = tl (remdups_adj rs) \<and> (have_last s \<longleftrightarrow> rs \<noteq> []) \<and> (rs \<noteq> [] \<longrightarrow> last_ts s = last rs)
     \<and> pps_number s = n + length (pp_all s) \<and> pps_file s \<noteq> None)"

lemma pp_inv_cong:
  assumes "pp_inv fspan n s" and "pp_all s' = pp_all s" "pps_reads s' = pps_reads s" "have_last s' = have_last s" "last_ts s' = last_ts s"
    "pps_number s' = pps_number s" "pps_file s' \<noteq> None"
  shows "pp_inv fspan n s'"
  using assms by (auto simp: pp_inv_def Let_def)

lemma reopen_pps_file_inv:
  assumes "pp_inv fspan n s" and "o_opens ob"
  shows "pp_inv fspan n ((reopen_pps_file d ob s)\<lparr>pps_segment := m\<rparr>)"
proof (rule pp_inv_cong [OF assms(1)])
  obtain f where f: "pps_file s = Some f" using assms(1) by (auto simp: pp_inv_def Let_def)
  then show "pp_all ((reopen_pps_file d ob s)\<lparr>pps_segment := m\<rparr>) = pp_all s"
    using assms(2) by (simp add: reopen_pps_file_def pps_open_def pps_write_def pp_all_def Let_def)
qed (use assms(2) in \<open>simp_all add: reopen_pps_file_def pps_open_def pps_write_def Let_def split: option.splits\<close>)

lemma pps_record_facts:
  assumes "pps_file s \<noteq> None"
  shows "pp_all (pps_record t w s) = pp_all s @ [\<lparr>timestamp = t, pps_frame = fst w AND 0xFFFFFF, pps_sample = snd w AND 0xFFF,
       pps_div = drop_bit 16 (snd w AND 0x70000)\<rparr>]"
    and "pps_number (pps_record t w s) = Suc (pps_number s)" and "pps_file (pps_record t w s) \<noteq> None"
    and "pps_reads (pps_record t w s) = pps_reads s" "have_last (pps_record t w s) = have_last s" "last_ts (pps_record t w s) = last_ts s"
  using assms by (auto simp: pps_record_def pps_write_def pp_all_def Let_def)

lemma pps_accept_inv:
  assumes "pp_inv fspan n s"
  shows "pp_inv fspan n (pps_accept fspan t w (s\<lparr>pp_pcie := p, read_array := a, pps_reads := pps_reads s @ [w]\<rparr>))"
proof -
  let ?rs = "valid_ts fspan (pps_reads s)" and ?s = "s\<lparr>pp_pcie := p, read_array := a, pps_reads := pps_reads s @ [w]\<rparr>"
  have all: "pp_all (s\<lparr>pp_pcie := p, read_array := a, pps_reads := r, last_ts := l, have_last := h\<rparr>) = pp_all s"
    "pp_all (s\<lparr>pp_pcie := p, read_array := a, pps_reads := r\<rparr>) = pp_all s" "pp_all (s\<lparr>pp_pcie := p, read_array := a, pps_reads := r, last_ts := l\<rparr>) = pp_all s" for r l h
    by (simp_all add: pp_all_def)
  have snoc: "valid_ts fspan (pps_reads s @ [w]) = (if pps_valid w then ?rs @ [pps_ts fspan w] else ?rs)"
    by (simp add: valid_ts_def)
  show ?thesis
  proof (cases "pps_valid w")
    case False
    then show ?thesis using assms by (simp add: pps_accept_def pp_inv_def snoc all)
  next
    case True
    have i: "map (sample_ts fspan) (pp_all s) = tl (remdups_adj ?rs)" "have_last s \<longleftrightarrow> ?rs \<noteq> []" "?rs \<noteq> [] \<Longrightarrow> last_ts s = last ?rs"
      "pps_number s = n + length (pp_all s)" "pps_file s \<noteq> None"
      using assms by (simp_all add: pp_inv_def Let_def)
    consider (first) "?rs = []" | (same) "?rs \<noteq> []" "pps_ts fspan w = last ?rs" | (change) "?rs \<noteq> []" "pps_ts fspan w \<noteq> last ?rs" by blast
    then show ?thesis
    proof cases
      case first
      then show ?thesis using True i by (simp add: pps_accept_def pp_inv_def snoc all)
    next
      case same
      then show ?thesis using True i by (simp add: pps_accept_def pp_inv_def snoc all remdups_adj_snoc)
    next
      case change
      let ?q = "?s\<lparr>last_ts := pps_ts fspan w\<rparr>"
      have "pps_accept fspan t w ?s = pps_record t w ?q" using change True i(2,3) by (simp add: pps_accept_def)
      moreover have "pps_file ?q \<noteq> None" using i(5) by simp
      note r = pps_record_facts [OF this, of t w]
      moreover have "sample_ts fspan \<lparr>timestamp = t, pps_frame = fst w AND 0xFFFFFF, pps_sample = snd w AND 0xFFF,
         pps_div = drop_bit 16 (snd w AND 0x70000)\<rparr> = pps_ts fspan w" by (simp add: sample_ts_def pps_ts_def)
      moreover have "remdups_adj ?rs \<noteq> []" using change(1) by simp
      ultimately show ?thesis using change True i by (simp add: pp_inv_def snoc all remdups_adj_snoc)
    qed
  qed
qed

lemma pps_loop_inv:
  assumes "pp_inv fspan n s" and "list_all o_opens obs" and "pps_loop drv d fspan obs s = Some s'"
  shows "\<exists>s1. pp_inv fspan n s1 \<and> s' = pps_finish s1"
  using assms
proof (induction obs arbitrary: s)
  case (Cons ob obs)
  let ?r = "if o_segment ob \<noteq> pps_segment s then (reopen_pps_file d ob s)\<lparr>pps_segment := o_segment ob\<rparr> else s"
  have "pp_inv fspan n ?r" using Cons.prems reopen_pps_file_inv by simp
  then have "pp_inv fspan n (pps_pass drv d fspan ob s)"
    using pps_accept_inv [of fspan n ?r] by (simp add: pps_pass_def Let_def case_prod_beta)
  then show ?case using Cons by (auto split: if_splits)
qed simp

lemma pps_loop_returns: "\<not> o_running ob \<Longrightarrow> \<exists>s'. pps_loop drv d fspan (obs @ [ob]) s = Some s'"
  by (induction obs arbitrary: s) simp_all


definition stopped_pobs :: pobs where
  "stopped_pobs = \<lparr>o_running = False, o_segment = 0, o_basedir = [], o_segment_locked = 0, o_opens = True, o_time = 0\<rparr>"


end
