(* ===== verification/Collect_Data.thy ===== *)
theory Collect_Data
  imports Readout_Pipeline Trigger_Readout
begin

text \<open>
  The collection thread, \<^verbatim>\<open>CollectData\<close> of \<^verbatim>\<open>data_handler.cpp\<close>: it starts the four threads of a run, sends the pulse train and
  joins the threads in a fixed order.  What the threads do with the data is the subject of the other theories;
  here they are reduced to the flags they test and set, in every interleaving with each other, with the
  collection thread and with the stop of the run.
\<close>

section \<open>Threads and their flags\<close>

datatype thread_state = Unborn | Active | Ended

datatype cact = SpawnWrite | SpawnRead | SpawnPps | SpawnTrigger | PulseTrain | JoinPps | JoinWrite | JoinRead | JoinTrigger

record coll =
  cd_dh :: dh
  writer :: thread_state
  reader :: thread_state
  pps_poller :: thread_state
  trigger_reader :: thread_state
  todo :: "cact list"

definition CollectData :: "dh \<Rightarrow> coll" where
  "CollectData d = \<lparr>cd_dh = d, writer = Unborn, reader = Unborn, pps_poller = Unborn, trigger_reader = Unborn,
     todo = [SpawnWrite, SpawnRead, SpawnPps, SpawnTrigger, PulseTrain, JoinPps, JoinWrite, JoinRead, JoinTrigger]\<rparr>"

definition join_when :: "thread_state \<Rightarrow> coll \<Rightarrow> coll option" where
  "join_when t c = (if t = Ended then Some c else None)"

text \<open>One action of the collection thread; \<^verbatim>\<open>ret\<close> is the return value of the pulse train command, \<^term>\<open>None\<close> means it waits.\<close>

fun perform :: "int \<Rightarrow> cact \<Rightarrow> coll \<Rightarrow> coll option" where
  "perform ret SpawnWrite c = Some (c\<lparr>writer := Active\<rparr>)"
| "perform ret SpawnRead c = Some (c\<lparr>reader := Active\<rparr>)"
| "perform ret SpawnPps c = Some (c\<lparr>pps_poller := Active\<rparr>)"
| "perform ret SpawnTrigger c = Some (c\<lparr>trigger_reader := Active\<rparr>)"
| "perform ret PulseTrain c = Some (if ret \<noteq> 0 then c\<lparr>cd_dh := (cd_dh c)\<lparr>send_pulse_train_error := True\<rparr>\<rparr> else c)"
| "perform ret JoinPps c = join_when (pps_poller c) c"
| "perform ret JoinWrite c = join_when (writer c) c"
| "perform ret JoinRead c = join_when (reader c) c"
| "perform ret JoinTrigger c = join_when (trigger_reader c) c"

text \<open>The regular course: the read thread ends when the run flag is cleared and sets the stop flag for the write thread, which then
  ends; the other two end after the run flag; the collection thread goes on with its next action.\<close>

inductive cgo :: "coll \<Rightarrow> coll \<Rightarrow> bool" where
  collector: "todo c = a # rest \<Longrightarrow> perform ret a c = Some c' \<Longrightarrow> cgo c (c'\<lparr>todo := rest\<rparr>)"
| read_ends: "reader c = Active \<Longrightarrow> \<not> is_running (cd_dh c) \<Longrightarrow> cgo c (c\<lparr>reader := Ended, cd_dh := (cd_dh c)\<lparr>stop_write := True\<rparr>\<rparr>)"
| write_ends: "writer c = Active \<Longrightarrow> stop_write (cd_dh c) \<Longrightarrow> cgo c (c\<lparr>writer := Ended\<rparr>)"
| pps_ends: "pps_poller c = Active \<Longrightarrow> \<not> is_running (cd_dh c) \<Longrightarrow> cgo c (c\<lparr>pps_poller := Ended\<rparr>)"
| trigger_ends: "trigger_reader c = Active \<Longrightarrow> \<not> is_running (cd_dh c) \<Longrightarrow> cgo c (c\<lparr>trigger_reader := Ended\<rparr>)"

text \<open>What else can happen: the read thread reaches the wanted number of events or gets no DMA buffers; the write thread stops the
  run for lack of space or gives up after a file that does not open; the controller stops the run.\<close>

inductive cstep :: "coll \<Rightarrow> coll \<Rightarrow> bool" where
  go: "cgo c c' \<Longrightarrow> cstep c c'"
| read_limit: "reader c = Active \<Longrightarrow> cstep c (c\<lparr>reader := Ended, cd_dh := (cd_dh c)\<lparr>stop_write := True\<rparr>\<rparr>)"
| read_fails: "reader c = Active \<Longrightarrow>
    cstep c (c\<lparr>reader := Ended, cd_dh := (cd_dh c)\<lparr>failed_locking_dma_buffers := True, is_running := False, stop_write := True\<rparr>\<rparr>)"
| disk_stop: "writer c = Active \<Longrightarrow> \<not> disk_stop_requested (cd_dh c) \<Longrightarrow> cstep c (c\<lparr>cd_dh := RequestDiskStop (cd_dh c)\<rparr>)"
| switch_fails: "writer c = Active \<Longrightarrow> \<not> stop_write (cd_dh c) \<Longrightarrow> cstep c (c\<lparr>cd_dh := (cd_dh c)\<lparr>stop_write := True\<rparr>\<rparr>)"
| stop_run: "is_running (cd_dh c) \<Longrightarrow> cstep c (c\<lparr>cd_dh := SetRun False (cd_dh c)\<rparr>)"

inductive_cases cgoE: "cgo c c'"
inductive_cases cstepE: "cstep c c'"

section \<open>Progress\<close>

text \<open>A thread is born, active, ended, in this order; the weight is what it still has to do.\<close>

definition weight :: "thread_state \<Rightarrow> nat" where
  "weight t = (case t of Unborn \<Rightarrow> 2 | Active \<Rightarrow> 1 | Ended \<Rightarrow> 0)"

instantiation thread_state :: linorder
begin

definition less_eq_thread_state :: "thread_state \<Rightarrow> thread_state \<Rightarrow> bool" where
  "less_eq_thread_state s t \<longleftrightarrow> weight t \<le> weight s"

definition less_thread_state :: "thread_state \<Rightarrow> thread_state \<Rightarrow> bool" where
  "less_thread_state s t \<longleftrightarrow> weight t < weight s"

instance
  by intro_classes (auto simp: less_eq_thread_state_def less_thread_state_def weight_def split: thread_state.splits)

end

text \<open>Actions are done in the order of the program; a thread is born when its action is done; the threads that are joined have
  ended; an ended read thread has set the stop flag, and threads end only after their flags.\<close>

definition coll_inv :: "coll \<Rightarrow> bool" where
  "coll_inv c \<longleftrightarrow> suffix (todo c) [SpawnWrite, SpawnRead, SpawnPps, SpawnTrigger, PulseTrain, JoinPps, JoinWrite, JoinRead, JoinTrigger]
     \<and> (SpawnWrite \<in> set (todo c) \<longleftrightarrow> writer c = Unborn) \<and> (SpawnRead \<in> set (todo c) \<longleftrightarrow> reader c = Unborn)
     \<and> (SpawnPps \<in> set (todo c) \<longleftrightarrow> pps_poller c = Unborn) \<and> (SpawnTrigger \<in> set (todo c) \<longleftrightarrow> trigger_reader c = Unborn)
     \<and> (JoinPps \<in> set (todo c) \<or> pps_poller c = Ended) \<and> (JoinWrite \<in> set (todo c) \<or> writer c = Ended)
     \<and> (JoinRead \<in> set (todo c) \<or> reader c = Ended) \<and> (JoinTrigger \<in> set (todo c) \<or> trigger_reader c = Ended)
     \<and> (reader c = Ended \<longrightarrow> stop_write (cd_dh c)) \<and> (pps_poller c = Ended \<longrightarrow> \<not> is_running (cd_dh c))"

definition load :: "coll \<Rightarrow> nat" where
  "load c = length (todo c) + weight (writer c) + weight (reader c) + weight (pps_poller c) + weight (trigger_reader c)
     + of_bool (is_running (cd_dh c)) + of_bool (\<not> stop_write (cd_dh c)) + of_bool (\<not> disk_stop_requested (cd_dh c))"

lemma suffix_script:
  assumes "suffix xs [SpawnWrite, SpawnRead, SpawnPps, SpawnTrigger, PulseTrain, JoinPps, JoinWrite, JoinRead, JoinTrigger]"
  obtains "xs = [SpawnWrite, SpawnRead, SpawnPps, SpawnTrigger, PulseTrain, JoinPps, JoinWrite, JoinRead, JoinTrigger]"
  | "xs = [SpawnRead, SpawnPps, SpawnTrigger, PulseTrain, JoinPps, JoinWrite, JoinRead, JoinTrigger]"
  | "xs = [SpawnPps, SpawnTrigger, PulseTrain, JoinPps, JoinWrite, JoinRead, JoinTrigger]"
  | "xs = [SpawnTrigger, PulseTrain, JoinPps, JoinWrite, JoinRead, JoinTrigger]"
  | "xs = [PulseTrain, JoinPps, JoinWrite, JoinRead, JoinTrigger]"
  | "xs = [JoinPps, JoinWrite, JoinRead, JoinTrigger]" | "xs = [JoinWrite, JoinRead, JoinTrigger]"
  | "xs = [JoinRead, JoinTrigger]" | "xs = [JoinTrigger]" | "xs = []"
  using assms by (auto simp: suffix_Cons)

lemma perform_inv:
  assumes "coll_inv c" and "todo c = a # rest" and "perform ret a c = Some c'"
  shows "coll_inv (c'\<lparr>todo := rest\<rparr>)"
proof -
  have "suffix (a # rest) [SpawnWrite, SpawnRead, SpawnPps, SpawnTrigger, PulseTrain, JoinPps, JoinWrite, JoinRead, JoinTrigger]"
    using assms(1,2) by (simp add: coll_inv_def)
  then show ?thesis
    by (cases rule: suffix_script) (use assms in \<open>auto simp: coll_inv_def suffix_Cons join_when_def split: if_splits\<close>)
qed

lemma cgo_inv:
  assumes "cgo c c'" and "coll_inv c"
  shows "coll_inv c'"
  using assms(1)
proof cases
  case (collector a rest ret d)
  then show ?thesis using perform_inv [OF assms(2)] by simp
qed (use assms(2) in \<open>simp_all add: coll_inv_def\<close>)

lemma cstep_inv:
  assumes "cstep c c'" and "coll_inv c"
  shows "coll_inv c'"
  using assms(1)
proof cases
  case go
  then show ?thesis using cgo_inv assms(2) by simp
qed ((use assms(2) in \<open>simp_all add: coll_inv_def RequestDiskStop_def SetRun_def\<close>), blast+)

lemma inv_spawn:
  assumes "coll_inv c"
  shows "SpawnWrite \<in> set (todo c) \<longleftrightarrow> writer c = Unborn" "SpawnRead \<in> set (todo c) \<longleftrightarrow> reader c = Unborn"
    "SpawnPps \<in> set (todo c) \<longleftrightarrow> pps_poller c = Unborn" "SpawnTrigger \<in> set (todo c) \<longleftrightarrow> trigger_reader c = Unborn"
  using assms unfolding coll_inv_def by blast+

lemma perform_load:
  assumes "coll_inv c" and "todo c = a # rest" and "perform ret a c = Some c'"
  shows "load (c'\<lparr>todo := rest\<rparr>) < load c"
proof -
  have "a = SpawnWrite \<Longrightarrow> writer c = Unborn" "a = SpawnRead \<Longrightarrow> reader c = Unborn" "a = SpawnPps \<Longrightarrow> pps_poller c = Unborn"
    "a = SpawnTrigger \<Longrightarrow> trigger_reader c = Unborn"
    using inv_spawn [OF assms(1)] assms(2) by simp_all
  moreover have "c' = the (perform ret a c)" "perform ret a c \<noteq> None" using assms(3) by simp_all
  ultimately show ?thesis using assms(2)
    by (cases a) (simp_all add: load_def weight_def join_when_def split: if_split_asm)
qed

lemma cgo_load:
  assumes "cgo c c'" and "coll_inv c"
  shows "load c' < load c"
  using assms(1)
proof cases
  case (collector a rest ret d)
  then show ?thesis using perform_load [OF assms(2)] by simp
qed (simp_all add: load_def weight_def)

lemma cstep_load:
  assumes "cstep c c'" and "coll_inv c"
  shows "load c' < load c"
  using assms(1)
proof cases
  case go
  then show ?thesis using cgo_load assms(2) by simp
qed (simp_all add: load_def weight_def RequestDiskStop_def SetRun_def)

text \<open>No thread goes back.\<close>

lemma cstep_forward:
  assumes "cstep c c'" and "coll_inv c"
  shows "writer c \<le> writer c' \<and> reader c \<le> reader c' \<and> pps_poller c \<le> pps_poller c' \<and> trigger_reader c \<le> trigger_reader c'"
proof -
  have up: "s \<le> Ended" "Unborn \<le> s" for s by (cases s; simp add: less_eq_thread_state_def weight_def)+
  have "writer c \<le> writer c' \<and> reader c \<le> reader c' \<and> pps_poller c \<le> pps_poller c' \<and> trigger_reader c \<le> trigger_reader c'" if "cgo c c'"
    using that
  proof cases
    case (collector a rest ret d)
    moreover have "d = the (perform ret a c)" "perform ret a c \<noteq> None" using collector(3) by simp_all
    ultimately show ?thesis using inv_spawn [OF assms(2)] up
      by (cases a) (simp_all add: join_when_def split: if_split_asm)
  qed (simp_all add: up)
  with assms(1) show ?thesis by (cases rule: cstep.cases) (simp_all add: up)
qed

lemma steps_bounded:
  assumes "(cstep ^^ n) c c'" and "coll_inv c"
  shows "coll_inv c' \<and> load c' + n \<le> load c"
  using assms
proof (induction n arbitrary: c')
  case (Suc n)
  then obtain b where b: "(cstep ^^ n) c b" "cstep b c'" by auto
  then show ?case using Suc.IH [OF b(1) Suc.prems(2)] cstep_inv [OF b(2)] cstep_load [OF b(2)] by auto
qed simp

text \<open>Without the run flag the regular course goes on until the collection thread has joined everybody.\<close>

lemma collector_goes: "todo c = a # rest \<Longrightarrow> perform 0 a c \<noteq> None \<Longrightarrow> \<exists>c'. cgo c c'"
  using cgo.collector by (metis not_None_eq)

lemma not_stuck:
  assumes "coll_inv c" and "\<not> is_running (cd_dh c)" and "todo c \<noteq> []"
  shows "\<exists>c'. cgo c c'"
proof -
  obtain a rest where a: "todo c = a # rest" using assms(3) by (cases "todo c") auto
  have stages: "t = Unborn \<or> t = Active \<or> t = Ended" for t :: thread_state by (cases t) simp_all
  show ?thesis
  proof (cases "reader c = Active \<or> pps_poller c = Active \<or> trigger_reader c = Active \<or> writer c = Active \<and> stop_write (cd_dh c)")
    case True
    then show ?thesis using assms(2) cgo.read_ends [of c] cgo.pps_ends [of c] cgo.trigger_ends [of c] cgo.write_ends [of c] by blast
  next
    case False
    have "suffix (a # rest) [SpawnWrite, SpawnRead, SpawnPps, SpawnTrigger, PulseTrain, JoinPps, JoinWrite, JoinRead, JoinTrigger]"
      using assms(1) a by (simp add: coll_inv_def)
    then have "perform 0 a c \<noteq> None"
      by (cases rule: suffix_script) (use False assms(1) a stages [of "writer c"] stages [of "reader c"] stages [of "pps_poller c"]
          stages [of "trigger_reader c"] in \<open>auto simp: coll_inv_def join_when_def\<close>)
    then show ?thesis using collector_goes [OF a] by blast
  qed
qed

lemma start_inv: "coll_inv (CollectData d)"
  by (simp add: coll_inv_def CollectData_def)

lemma reach_inv: "cstep\<^sup>*\<^sup>* c c' \<Longrightarrow> coll_inv c \<Longrightarrow> coll_inv c'"
  by (induction rule: rtranclp_induct) (auto intro: cstep_inv)



end
