(* ===== verification/Status.thy ===== *)
theory Status
  imports Data_Handler_Config Hardware_Device
begin

text \<open>
  \<^verbatim>\<open>src/status/status.cpp\<close>: the status words of the boards and the metrics that go into the telemetry
  packet.  The packet class \<^verbatim>\<open>TpcReadoutMonitor\<close> belongs to another repository; what the readout does with it is
  the list of the setters it calls, with their arguments.
\<close>

section \<open>The monitor\<close>

datatype mon_call =
    setRunNumber nat | setNumEvents nat | setNumDmaLoops nat | setReceivedMbytes nat | setAvgEventSize nat
  | setNumFiles nat | setNumRwBufferOverflow nat | setStartMarker nat | setEndMarker nat | setPpsCount nat
  | updateErrorBitWord nat u64
  | setErrorBitWord u32
  | setBoardStatus "u32 list"
  | setReadoutState u32
  | setLastCommand u16
  | setLastCommandStatus nat

section \<open>The boards\<close>

definition fem_status_chip :: u32 where "fem_status_chip = 3"
definition fem_status_num_word :: u32 where "fem_status_num_word = 1"

text \<open>The two receive words are uninitialized in the code; the read of one word stores both halves.\<close>

definition GetFemStatus :: "driver \<Rightarrow> u32 \<Rightarrow> pcie \<Rightarrow> u32 list \<times> pcie" where
  "GetFemStatus drv board_number p =
     (let (r, read_array, p) = PCIeRecvBuffer drv 1 0 1 fem_status_num_word 0 [0, 0] p;
          w = push_bit 11 board_number + push_bit 8 fem_status_chip + 20 + push_bit 16 0;
          (i, p) = PCIeSendBuffer drv 1 0 1 [w, 0] p;
          (r, read_array, p) = PCIeRecvBuffer drv 1 0 2 fem_status_num_word 0 read_array p
      in (take (unat fem_status_num_word) read_array, p))"

definition CheckFemStatus :: "u32 list \<Rightarrow> u32 \<Rightarrow> bool" where
  "CheckFemStatus status_vec board_num = (let read_word = status_vec ! 0 in
     read_word AND 0xFF = 20 \<and>
     drop_bit 11 read_word AND 0x1F = board_num \<and>
     drop_bit 16 read_word AND 1 = 0 \<and>
     drop_bit 17 read_word AND 1 = 1 \<and>
     drop_bit 18 read_word AND 1 = 1 \<and>
     drop_bit 19 read_word AND 1 = 0 \<and>
     drop_bit 21 read_word AND 1 = 1 \<and>
     drop_bit 22 read_word AND 1 = 1 \<and>
     drop_bit 23 read_word AND 1 = 1 \<and>
     drop_bit 24 read_word AND 1 = 1 \<and>
     drop_bit 25 read_word AND 1 = 1 \<and>
     drop_bit 26 read_word AND 1 = 1 \<and>
     drop_bit 27 read_word AND 1 = 1 \<and>
     drop_bit 28 read_word AND 0xF = 7)"

definition CheckXmitStatus :: "u32 list \<Rightarrow> bool" where
  "CheckXmitStatus status_vec = (let read_word = status_vec ! 0 in
     drop_bit 16 read_word AND 1 = 1 \<and>
     drop_bit 17 read_word AND 1 = 1 \<and>
     drop_bit 18 read_word AND 1 = 1 \<and>
     drop_bit 19 read_word AND 1 = 1 \<and>
     drop_bit 20 read_word AND 1 = 1 \<and>
     drop_bit 22 read_word AND 1 = 0 \<and>
     drop_bit 23 read_word AND 1 = 0 \<and>
     drop_bit 24 read_word AND 1 = 0 \<and>
     drop_bit 25 read_word AND 1 = 0 \<and>
     drop_bit 26 read_word AND 1 = 1 \<and>
     drop_bit 27 read_word AND 1 = 1 \<and>
     drop_bit 28 read_word AND 1 = 0 \<and>
     drop_bit 29 read_word AND 1 = 0 \<and>
     drop_bit 30 read_word AND 1 = 0 \<and>
     drop_bit 31 read_word AND 0xF = 0)"

definition GetMinimalStatus :: "driver \<Rightarrow> u32 \<Rightarrow> bool \<Rightarrow> pcie \<Rightarrow> bool \<times> pcie" where
  "GetMinimalStatus drv board_number is_fem p = (let (status, p) = GetFemStatus drv board_number p in
     (if is_fem then CheckFemStatus status board_number else CheckXmitStatus status, p))"

definition GetBoardStatus :: "driver \<Rightarrow> u32 \<Rightarrow> pcie \<Rightarrow> u32 \<times> pcie" where
  "GetBoardStatus drv board_number p = (let (status, p) = GetFemStatus drv board_number p in
     (if status = [] then 0 else status ! 0 AND 0x7FFFFFFF, p))"

section \<open>The status packet\<close>

record stat =
  data_handler_metrics :: "(string \<times> nat) list"
  print_status_ :: bool

definition SetPrintStatus :: "bool \<Rightarrow> stat \<Rightarrow> stat" where
  "SetPrintStatus print s = s\<lparr>print_status_ := print\<rparr>"

definition SetDataHandlerStatus :: "dh_params \<Rightarrow> dh \<Rightarrow> stat \<Rightarrow> dh \<times> stat" where
  "SetDataHandlerStatus P d s = (let (ms, d) = GetMetrics P d in (d, s\<lparr>data_handler_metrics := ms\<rparr>))"

text \<open>The metrics are sampled, but the dump is that of the previous sample.\<close>

definition JsonHandlerStatus :: "dh_params \<Rightarrow> dh \<Rightarrow> stat \<Rightarrow> json \<times> dh" where
  "JsonHandlerStatus P d s = (let (metrics, d) = GetMetrics P d in
     (case data_handler_metrics s of [] \<Rightarrow> JNull
      | ms \<Rightarrow> JObject (fold (\<lambda>(k, v). alist_set k (JInt (int v))) ms []), d))"

definition metric :: "string \<Rightarrow> stat \<Rightarrow> nat" where
  "metric k s = (case map_of (data_handler_metrics s) k of None \<Rightarrow> 0 | Some v \<Rightarrow> v)"

definition metric_calls :: "dh_params \<Rightarrow> stat \<Rightarrow> mon_call list" where
  "metric_calls P s =
     [setRunNumber (metric ''run_number'' s), setNumEvents (metric ''num_events'' s),
      setNumDmaLoops (metric ''num_dma_loops'' s), setReceivedMbytes (metric ''mega_bytes_received'' s),
      setAvgEventSize (metric ''event_size_words'' s), setNumFiles (metric ''num_files'' s),
      setNumRwBufferOverflow (metric ''num_rw_buffer_overflow'' s),
      setStartMarker (metric ''event_start_markers'' s), setEndMarker (metric ''event_end_markers'' s),
      setEndMarker (metric ''event_end_markers'' s), setPpsCount (metric ''pps_count'' s)]
     @ map (\<lambda>bit. updateErrorBitWord bit (of_nat (metric ''datahandler_error_bitword'' s))) (error_bits P)"

fun board_words :: "driver \<Rightarrow> int list \<Rightarrow> pcie \<Rightarrow> u32 list \<times> pcie" where
  "board_words drv [] p = ([], p)"
| "board_words drv (board # boards) p =
     (let (res, p) = GetBoardStatus drv (word_of_int board) p; (rest, p) = board_words drv boards p
      in (res # rest, p))"

fun minimal_word :: "driver \<Rightarrow> int list \<Rightarrow> nat \<Rightarrow> bool \<Rightarrow> u32 \<Rightarrow> pcie \<Rightarrow> u32 \<times> pcie" where
  "minimal_word drv [] b is_fem status_res p = (status_res, p)"
| "minimal_word drv (board # boards) b is_fem status_res p =
     (let (res, p) = GetMinimalStatus drv (word_of_int board) is_fem p
      in minimal_word drv boards (Suc b) True (status_res + push_bit b (of_bool res)) p)"

definition ReadStatus :: "dh_params \<Rightarrow> driver \<Rightarrow> int list \<Rightarrow> bool \<Rightarrow> stat \<Rightarrow> pcie \<Rightarrow> mon_call list \<times> pcie" where
  "ReadStatus P drv boards minimal_status s p =
     (let (status_vec, p) =
        (if \<not> is_initialized p then (replicate (length boards) 0, p)
         else if minimal_status then (let (status_res, p) = minimal_word drv boards 0 False 0 p in ([status_res], p))
         else board_words drv boards p)
      in (metric_calls P s @ [setBoardStatus status_vec], p))"

section \<open>The checks as masks\<close>

text \<open>Two fields of a word can be compared at once when their masks are disjoint.\<close>

lemma masked_conj:
  fixes w :: "'a :: len word"
  assumes "m AND m' = 0" and "v AND m = v" and "v' AND m' = v'"
  shows "w AND (m OR m') = v OR v' \<longleftrightarrow> w AND m = v \<and> w AND m' = v'"
proof
  assume eq: "w AND (m OR m') = v OR v'"
  have "v' AND m = 0" using assms(1,3) by (metis and.assoc and.commute and_zero_eq)
  moreover have "v AND m' = 0" using assms(1,2) by (metis and.assoc and_zero_eq)
  moreover have "w AND m = (w AND (m OR m')) AND m" "w AND m' = (w AND (m OR m')) AND m'"
    by (simp_all add: bit_eq_iff bit_simps) blast+
  ultimately show "w AND m = v \<and> w AND m' = v'"
    using eq assms(2,3) by (simp add: bit.conj_disj_distrib2)
qed (simp add: bit.conj_disj_distrib)

lemma field_mask:
  fixes w :: "'a :: len word"
  assumes "drop_bit k (push_bit k m) = m" and "drop_bit k (push_bit k v) = v"
  shows "drop_bit k w AND m = v \<longleftrightarrow> w AND push_bit k m = push_bit k v"
proof -
  have "drop_bit k (w AND push_bit k m) = drop_bit k w AND m" using assms(1) by (simp add: drop_bit_and)
  moreover have "push_bit k (drop_bit k w AND m) = w AND push_bit k m"
    by (auto simp: bit_eq_iff bit_simps)
  ultimately show ?thesis using assms(2) by metis
qed

lemma bit_field:
  fixes w :: u32
  assumes "k < 32"
  shows "drop_bit k w AND 1 = 1 \<longleftrightarrow> w AND push_bit k 1 = push_bit k 1"
    and "drop_bit k w AND 1 = 0 \<longleftrightarrow> w AND push_bit k 1 = 0"
proof -
  have one: "drop_bit k (push_bit k (1 :: u32)) = 1"
    using assms by (intro bit_word_eqI) (auto simp: bit_simps)
  show "drop_bit k w AND 1 = 1 \<longleftrightarrow> w AND push_bit k 1 = push_bit k 1" using field_mask [OF one one] .
  show "drop_bit k w AND 1 = 0 \<longleftrightarrow> w AND push_bit k 1 = 0" using field_mask [OF one, of 0] by simp
qed

text \<open>The field-by-field checks of a status word are single masked comparisons: a front-end module must show
  its own slot, command 20 and the pattern 0x7FE6 in the upper half (bit 20, a buffer error, is ignored), the
  XMIT board the pattern 0x0C1F (bit 21 ignored).  The word that the setup of the charge modules announces as
  the expected one, 0xFFE67814, is never accepted.\<close>
theorem CheckStatus_masks:
  assumes "board AND 0x1F = board"
  shows "(CheckFemStatus (w # ws) board \<longleftrightarrow> w AND 0xFFEFF8FF = push_bit 11 board OR 0x7FE60014)
    \<and> (CheckXmitStatus (w # ws) \<longleftrightarrow> w AND 0xFFDF0000 = 0x0C1F0000)
    \<and> \<not> CheckFemStatus [0xFFE67814] board"
proof -
  have board: "drop_bit 11 w AND 0x1F = board \<longleftrightarrow> w AND 0xF800 = push_bit 11 board"
  proof -
    have "drop_bit 11 (push_bit 11 board) = board"
    proof (rule bit_word_eqI)
      fix n :: nat assume "n < LENGTH(32)"
      have "bit board n \<longleftrightarrow> bit board n \<and> bit (0x1F :: u32) n" using assms by (metis bit_and_iff)
      moreover have "bit (mask 5 :: u32) n \<longleftrightarrow> n < 5" by (subst bit_mask_iff) auto
      then have "bit (0x1F :: u32) n \<longleftrightarrow> n < 5" by (simp add: mask_eq_exp_minus_1)
      ultimately show "bit (drop_bit 11 (push_bit 11 board)) n = bit board n" by (auto simp: bit_simps)
    qed
    then show ?thesis using field_mask [of 11 "0x1F" board w] by simp
  qed
  have fem: "CheckFemStatus (w # ws) board \<longleftrightarrow> w AND 0xFFEFF8FF = push_bit 11 board OR 0x7FE60014"
  proof -
    have board2: "push_bit 11 board AND 0xF800 = push_bit 11 board"
      using assms push_bit_and [of 11 board "0x1F"] by simp
    have "w AND 0xFFEFF8FF = push_bit 11 board OR 0x7FE60014 \<longleftrightarrow> w AND (0xF800 OR 0xFFEF00FF) = push_bit 11 board OR 0x7FE60014" by simp
    also have "\<dots> \<longleftrightarrow> w AND 0xF800 = push_bit 11 board \<and> w AND 0xFFEF00FF = 0x7FE60014"
      by (rule masked_conj) (simp_all add: board2)
    also have "w AND 0xFFEF00FF = 0x7FE60014 \<longleftrightarrow> w AND 0xFF = 20 \<and> w AND 0xFFEF0000 = 0x7FE60000"
      using masked_conj [of "0xFF" "0xFFEF0000" 20 "0x7FE60000" w] by simp
    finally have "w AND 0xFFEFF8FF = push_bit 11 board OR 0x7FE60014
        \<longleftrightarrow> w AND 0xFF = 20 \<and> w AND 0xF800 = push_bit 11 board \<and> w AND 0xFFEF0000 = 0x7FE60000" by blast
    then show ?thesis using field_mask [of 28 "0xF" 7 w]
      by (simp add: CheckFemStatus_def board bit_field masked_conj [symmetric])
  qed
  have "CheckXmitStatus (w # ws) \<longleftrightarrow> w AND 0xFFDF0000 = 0x0C1F0000"
  proof -
    have "bit (drop_bit 31 w) n \<longleftrightarrow> bit (of_bool (bit w 31) :: u32) n" for n
      using bit_imp_le_length [of w "31 + n"] by (cases n) (auto simp: bit_simps)
    then have "drop_bit 31 w = of_bool (bit w 31)" by (simp add: bit_eq_iff)
    then have "drop_bit 31 w AND 0xF = 0 \<longleftrightarrow> drop_bit 31 w AND 1 = 0" by simp
    then show ?thesis by (simp add: CheckXmitStatus_def bit_field masked_conj [symmetric])
  qed
  then show ?thesis using fem by (simp add: CheckFemStatus_def)
qed


theorem CheckStatus_masks_witness:
  "CheckFemStatus [0x7FE67814] 15 \<and> CheckXmitStatus [0x0C1F0000]"
  using CheckStatus_masks [of 15 "0x7FE67814" "[]"] CheckStatus_masks [of 15 "0x0C1F0000" "[]"] by simp

section \<open>What is reported\<close>

text \<open>The words written to the transmit FIFO of a card.\<close>

definition fifo_words :: "bus_event list \<Rightarrow> u32 list" where
  "fifo_words es = concat (map (\<lambda>e. case e of Wr32 _ bar _ w \<Rightarrow> if bar = 0 then [w] else [] | _ \<Rightarrow> []) es)"

lemma fifo_words_simps [simp]:
  "fifo_words [] = []" "fifo_words (xs @ ys) = fifo_words xs @ fifo_words ys"
  "fifo_words (Wr32 h bar off w # xs) = (if bar = 0 then w # fifo_words xs else fifo_words xs)"
  "fifo_words (Rd64 h bar off # xs) = fifo_words xs" "fifo_words (replicate k (Rd32 h bar off)) = []"
  by (simp_all add: fifo_words_def)

lemma poll_dma_fields:
  "dev_handle_1 (snd (poll_dma drv h n i p)) = dev_handle_1 p \<and> bus_clock p \<le> bus_clock (snd (poll_dma drv h n i p))"
proof (induction n arbitrary: i p)
  case (Suc n)
  then show ?case using Suc.IH [of "i + 1" "bus (Rd32 h 2 cs_dma_cntrl) p"] by (simp add: Let_def)
qed simp

definition answer :: "driver \<Rightarrow> nat option \<Rightarrow> nat \<Rightarrow> u32" where
  "answer drv h t = ucast (drv_read64 drv t h 0 cs_dma_add_low_reg AND 0xffffffff) AND 0x7FFFFFFF"

lemma GetBoardStatus_spec:
  assumes "GetBoardStatus drv board p = (st, p')"
  obtains t where "st = answer drv (dev_handle_1 p) t" "bus_clock p \<le> t" "t < bus_clock p'"
    "dev_handle_1 p' = dev_handle_1 p"
    "fifo_words (bus_log p') = fifo_words (bus_log p) @ [push_bit 11 board + push_bit 8 3 + 20]"
proof -
  let ?h = "dev_handle_1 p" and ?w = "push_bit 11 board + push_bit 8 fem_status_chip + 20 + push_bit 16 0"
  define q where "q = fold bus [Wr32 ?h 2 tx_md_reg 0xf0000008, Wr32 ?h 2 r1_cs_reg cs_init,
    Wr32 ?h 2 r1_cs_reg (cs_start + 4), Wr32 ?h 2 t1_cs_reg cs_init, Wr32 ?h 2 t1_cs_reg (cs_start + 4),
    Wr32 ?h 0 cs_dma_add_low_reg ?w] p"
  obtain i r where poll: "poll_dma drv ?h 20000 0 q = (i, r)" by fastforce
  obtain k where k: "bus_log r = bus_log q @ replicate k (Rd32 ?h 2 cs_dma_cntrl)"
    using poll_dma_trace [of 20000 drv ?h 0 q] poll by auto
  have r: "dev_handle_1 r = ?h" "bus_clock q \<le> bus_clock r"
    using poll_dma_fields [where drv = drv and h = ?h and n = 20000 and i = 0 and p = q] poll by (simp_all add: q_def)
  have sends: "PCIeSendBuffer drv 1 0 1 [?w, 0] (fold bus [Wr32 ?h 2 tx_md_reg 0xf0000008, Wr32 ?h 2 r1_cs_reg cs_init,
      Wr32 ?h 2 r1_cs_reg (cs_start + 4)] p) = (i, r)"
    using poll by (simp add: PCIeSendBuffer_def Let_def GetDeviceHandle_def q_def)
  have st: "st = answer drv ?h (bus_clock r)" "p' = bus (Rd64 ?h 0 cs_dma_add_low_reg) r"
    using assms sends r
    by (simp_all add: GetBoardStatus_def GetFemStatus_def PCIeRecvBuffer_def fem_status_num_word_def Let_def
        GetDeviceHandle_def print_status_def answer_def)
  show ?thesis
  proof (rule that [of "bus_clock r"])
    show "fifo_words (bus_log p') = fifo_words (bus_log p) @ [push_bit 11 board + push_bit 8 3 + 20]"
      by (simp add: st k q_def fem_status_chip_def)
  qed (use st r in \<open>simp_all add: q_def\<close>)
qed

lemma board_words_spec:
  assumes "board_words drv boards p = (ws, p')"
  shows "(\<exists>ts. ws = map (answer drv (dev_handle_1 p)) ts \<and> length ts = length boards \<and> sorted_wrt (<) ts
      \<and> (\<forall>t \<in> set ts. bus_clock p \<le> t))
    \<and> fifo_words (bus_log p') = fifo_words (bus_log p) @ map (\<lambda>b. cmd_word b 3 20 0) boards"
  using assms
proof (induction boards arbitrary: p ws)
  case (Cons board boards)
  obtain st q where st: "GetBoardStatus drv (word_of_int board) p = (st, q)" by fastforce
  obtain rest where rest: "board_words drv boards q = (rest, p')" "ws = st # rest"
    using Cons.prems st by (auto simp: Let_def split: prod.splits)
  obtain t where t: "st = answer drv (dev_handle_1 p) t" "bus_clock p \<le> t" "t < bus_clock q"
    "dev_handle_1 q = dev_handle_1 p"
    "fifo_words (bus_log q) = fifo_words (bus_log p) @ [push_bit 11 (word_of_int board) + push_bit 8 3 + 20]"
    by (rule GetBoardStatus_spec [OF st])
  obtain ts where ts: "rest = map (answer drv (dev_handle_1 q)) ts" "length ts = length boards" "sorted_wrt (<) ts"
    "\<forall>t \<in> set ts. bus_clock q \<le> t" "fifo_words (bus_log p') = fifo_words (bus_log q) @ map (\<lambda>b. cmd_word b 3 20 0) boards"
    using Cons.IH [OF rest(1)] by blast
  have "\<exists>ts. ws = map (answer drv (dev_handle_1 p)) ts \<and> length ts = length (board # boards) \<and> sorted_wrt (<) ts
      \<and> (\<forall>t \<in> set ts. bus_clock p \<le> t)"
    using t rest ts by (intro exI [of _ "t # ts"]) force
  then show ?case
    using ts(5) t(5) by (simp add: cmd_word_def ConstructSendWord_def add.commute add.left_commute)
qed simp

text \<open>A status packet carries the counters and the error word of the data handler as sampled by the preceding
  call, and one status word per board: the answer of the card to the status command for that slot, read in
  the order of the boards, without its top bit.  While the cards are not open nothing is sent to them and
  every board reports zero.\<close>
theorem ReadStatus_reports:
  "let (d', s') = SetDataHandlerStatus P d s; (calls, p') = ReadStatus P drv boards False s' p in
    \<exists>ws. calls = [setRunNumber (run_number d), setNumEvents (event_count d), setNumDmaLoops (dma_loop_count d),
        setReceivedMbytes (num_recv_mB d), setAvgEventSize (num_event_chunk_words d), setNumFiles (file_count d),
        setNumRwBufferOverflow (unat (num_rw_buffer_overflow d)), setStartMarker (event_start_markers d),
        setEndMarker (event_end_markers d), setEndMarker (event_end_markers d), setPpsCount (pps_count d)]
      @ map (\<lambda>bit. updateErrorBitWord bit (error_bitword P d)) (error_bits P) @ [setBoardStatus ws]
    \<and> (if is_initialized p
       then (\<exists>ts. ws = map (answer drv (dev_handle_1 p)) ts \<and> length ts = length boards \<and> sorted_wrt (<) ts)
         \<and> fifo_words (bus_log p') = fifo_words (bus_log p) @ map (\<lambda>b. cmd_word b 3 20 0) boards
       else ws = replicate (length boards) 0 \<and> p' = p)"
proof -
  obtain ws p' where bw: "board_words drv boards p = (ws, p')" by fastforce
  show ?thesis
    using board_words_spec [OF bw] bw
    by (auto simp: SetDataHandlerStatus_def ReadStatus_def GetMetrics_def metric_calls_def metric_def)
qed

end
