(* ===== verification/Controller_Config.thy ===== *)
theory Controller_Config
  imports Trigger_Control Xmit_Control Status
begin

text \<open>
  The first half of \<^verbatim>\<open>src/control/controller.cpp\<close>: the members of \<^verbatim>\<open>Controller\<close>, the run number file, the choice
  of the data disk, and \<^verbatim>\<open>Configure\<close> with the assembly of the configuration from the local file, the
  parameters sent from the ground and the setup file.
\<close>

section \<open>Parameters\<close>

text \<open>What \<^verbatim>\<open>TpcConfigs\<close> (another repository) yields for the words received from the ground.\<close>

record tpc_cfg =
  getSummedPeakThresh :: u32
  getChannelMultiplicity :: u32
  getRoiDelay0 :: u32
  getRoiDelay1 :: u32
  getRoiPrecount :: u32
  getRoiPeakWindow :: u32
  getEnableTop :: u32
  getEnableMiddle :: u32
  getEnableBottom :: u32
  getNumRoiWords :: u32
  getRoiDeadtime :: u32
  getUnbiasedLightSamples :: u32
  getFifoBlocksize :: u32
  getDiscThreshold0 :: "u32 list"
  getDiscThreshold1 :: "u32 list"
  triggerSourceString :: string
  getSoftwareTriggerRateHz :: u32
  getTpcDeadTime :: u32
  getDriftSize :: u32
  getDmaBufferkB :: u32
  getPrescale :: "u32 list"
  getLightTrigPrescale :: u32

text \<open>The devices, the operating system and the libraries that the controller runs on: \<^verbatim>\<open>read_file\<close> and
  \<^verbatim>\<open>json_parse\<close> answer \<^term>\<open>None\<close> for a file that does not open or a text that does not parse, \<^verbatim>\<open>deserialize\<close> for
  words that are rejected.\<close>

record ctl_env =
  ce_hw :: hw_params
  ce_dh :: dh_params
  ce_drv :: driver
  ce_io :: io_env
  ce_disk_full :: u32
  read_file :: "nat \<Rightarrow> string \<Rightarrow> string option"
  json_parse :: "string \<Rightarrow> json option"
  deserialize :: "u32 list \<Rightarrow> tpc_cfg option"
  runid_writable :: "nat \<Rightarrow> bool"
  thread_starts :: "nat \<Rightarrow> bool"
  TPC_Configure :: u16
  TPC_Start_Run :: u16
  TPC_Stop_Run :: u16
  TPC_Reset_Run :: u16
  TPC_Query_Hardware_Status :: u16
  TPC_Hardware_Status :: u16
  COM_HeartBeat :: u16

section \<open>The members of Controller\<close>

datatype State = kIdle | kConfigured | kRunning | kStopped

datatype RunStopReason = kNone | kDiskFull

text \<open>\<^verbatim>\<open>packets\<close> are the telemetry packets: the code and the setter calls that the packet is built from.
  \<^verbatim>\<open>runid_file\<close> is the content of the run number file, \<^verbatim>\<open>saved_configs\<close> and \<^verbatim>\<open>base_dir_conf\<close> what is written for
  reference and for the other services, \<^verbatim>\<open>data_thread\<close> whether \<^verbatim>\<open>data_thread_\<close> is joinable.\<close>

record ctl =
  current_state :: State
  is_configured :: bool
  run_id :: u32
  ctl_running :: bool
  readout_basedir :: string
  ctl_data_basedir :: string
  setup_config :: json
  config :: json
  board_slots :: "int list"
  ctl_print :: bool
  handler :: dh
  pcie_interface :: pcie
  bufs :: buffers
  charge_static :: u32
  trigger_ctrl :: trig
  status_m :: stat
  data_thread :: bool
  pending_reason :: RunStopReason
  monitor :: "mon_call list"
  packets :: "(u16 \<times> mon_call list) list"
  runid_file :: "string option"
  base_dir_conf :: "string list"
  saved_configs :: "(string \<times> json) list"
  scripts_run :: "string list"

text \<open>A call returns, raises an exception to its caller, or ends the process (\<^verbatim>\<open>std::terminate\<close>).\<close>

datatype 'a result = Done 'a | Raise | Terminate

definition now :: "ctl \<Rightarrow> nat" where "now c = clock (handler c)"

definition call_monitor :: "mon_call \<Rightarrow> ctl \<Rightarrow> ctl" where
  "call_monitor m c = c\<lparr>monitor := monitor c @ [m]\<rparr>"

section \<open>Run number\<close>

text \<open>Extraction of an unsigned 32-bit number from a stream.\<close>

definition read_u32 :: "string \<Rightarrow> u32 option" where
  "read_u32 s = (let t = dropWhile isspace s;
       neg = (t \<noteq> [] \<and> hd t = CHR ''-'');
       t = (if t \<noteq> [] \<and> (hd t = CHR ''-'' \<or> hd t = CHR ''+'') then tl t else t);
       ds = takeWhile isdigit t; v = digits_val ds in
     if ds = [] \<or> v \<ge> 2 ^ 32 then None else Some (if neg then - of_nat v else of_nat v))"

definition PersistRunId :: "ctl_env \<Rightarrow> ctl \<Rightarrow> bool \<times> ctl" where
  "PersistRunId E c = (case runid_file c of
     None \<Rightarrow> (False, c\<lparr>run_id := 0\<rparr>)
   | Some text \<Rightarrow>
       let c = c\<lparr>run_id := (case read_u32 text of None \<Rightarrow> 0 | Some prev \<Rightarrow> prev + 1)\<rparr> in
       if runid_writable E (now c) then (True, c\<lparr>runid_file := Some (to_string (unat (run_id c)) @ [CHR 0x0A])\<rparr>)
       else (False, c\<lparr>run_id := 0\<rparr>))"

section \<open>Data disk of a run\<close>

definition WriteDataBaseDirConf :: "ctl_env \<Rightarrow> string \<Rightarrow> ctl \<Rightarrow> bool \<times> ctl" where
  "WriteDataBaseDirConf E path c =
     (if env_append (ce_io E) (now c) ''/run_number/data_ssd.conf''
      then (True, c\<lparr>base_dir_conf := [''DATA_BASE_DIR='' @ path @ [CHR 0x0A]]\<rparr>) else (False, c))"

definition take_pick :: "ctl_env \<Rightarrow> PickResult \<Rightarrow> ctl \<Rightarrow> bool \<times> ctl" where
  "take_pick E disk_pick c =
     (if \<not> pick_ok disk_pick then (False, call_monitor (setErrorBitWord (ce_disk_full E)) c)
      else (True, snd (WriteDataBaseDirConf E (pick_path disk_pick) (c\<lparr>ctl_data_basedir := pick_path disk_pick\<rparr>))))"

definition SelectNvmeDataDirForRun :: "ctl_env \<Rightarrow> ctl \<Rightarrow> bool \<times> ctl" where
  "SelectNvmeDataDirForRun E c = (let os = env_os (ce_io E) (now c) in
     if PickMaxFreeEnabled os then take_pick E (SelectNvmeDataDir os True kDiskRunStartMinFreeBytes) c
     else let current_free = GetFreeBytes os (ctl_data_basedir c) in
     if (case current_free of Some fb \<Rightarrow> fb \<ge> kDiskRunStartMinFreeBytes | None \<Rightarrow> False) then (True, c)
     else let candidates = GetNvmeCandidatesFromEnv os in
     if length candidates \<ge> 2
     then take_pick E (PickSsd0First os (candidates ! 0) (candidates ! 1) kDiskRunStartMinFreeBytes) c
     else if (case current_free of Some fb \<Rightarrow> fb < kDiskRunStartMinFreeBytes | None \<Rightarrow> True)
     then (False, call_monitor (setErrorBitWord (ce_disk_full E)) c)
     else (True, c))"

section \<open>Assembling the configuration\<close>

definition LoadConfig :: "ctl_env \<Rightarrow> nat \<Rightarrow> string \<Rightarrow> json" where
  "LoadConfig E t config_file = (case read_file E t config_file of
     None \<Rightarrow> JNull
   | Some text \<Rightarrow> (case json_parse E text of None \<Rightarrow> JNull | Some j \<Rightarrow> j))"

definition ju :: "u32 \<Rightarrow> json" where "ju w = JInt (uint w)"
definition jvec :: "u32 list \<Rightarrow> json" where "jvec ws = JArray (map ju ws)"

fun set_all :: "(string \<times> string \<times> json) list \<Rightarrow> json \<Rightarrow> json option" where
  "set_all [] j = Some j"
| "set_all ((a, b, v) # xs) j = do { j \<leftarrow> set_path2 a b v j; set_all xs j }"

text \<open>The thresholds are padded to the number of light channels with the largest threshold.  With more thresholds
  than channels the unsigned difference wraps and the padding ends in an allocation failure.\<close>

definition pad_thresholds :: "hw_params \<Rightarrow> tpc_cfg \<Rightarrow> (u32 list \<times> u32 list) option" where
  "pad_thresholds P t = (let n = length (getDiscThreshold0 t) in
     if n > TOTAL_LIGHT_CHANNELS P then None
     else let extra = replicate (TOTAL_LIGHT_CHANNELS P - n) 0xFFF in
       Some (getDiscThreshold0 t @ extra, getDiscThreshold1 t @ extra))"

definition light_assignments :: "hw_params \<Rightarrow> tpc_cfg \<Rightarrow> (string \<times> string \<times> json) list" where
  "light_assignments P t =
     [(''light_fem'', ''cosmic_summed_adc_thresh'', ju (getSummedPeakThresh t)),
      (''light_fem'', ''cosmic_multiplicity'', ju (getChannelMultiplicity t)),
      (''light_fem'', ''pmt_delay_0'', ju (getRoiDelay0 t)),
      (''light_fem'', ''pmt_delay_1'', ju (getRoiDelay1 t)),
      (''light_fem'', ''pmt_precount'', jvec (replicate (TOTAL_LIGHT_CHANNELS P) (getRoiPrecount t))),
      (''light_fem'', ''pmt_window'', ju (getRoiPeakWindow t)),
      (''light_fem'', ''pmt_enable_top'', ju (getEnableTop t)),
      (''light_fem'', ''pmt_enable_middle'', ju (getEnableMiddle t)),
      (''light_fem'', ''pmt_enable_lower'', ju (getEnableBottom t)),
      (''light_fem'', ''sipm_words'', ju (getNumRoiWords t)),
      (''light_fem'', ''sipm_deadtime'', jvec (replicate (TOTAL_LIGHT_CHANNELS P) (getRoiDeadtime t))),
      (''light_fem'', ''pmt_gate_size'', ju (getUnbiasedLightSamples t)),
      (''light_fem'', ''pmt_beam_size'', ju (getUnbiasedLightSamples t)),
      (''light_fem'', ''pmt_blocksize'', ju (getFifoBlocksize t))]"

definition trigger_assignments :: "tpc_cfg \<Rightarrow> u32 list \<Rightarrow> (string \<times> string \<times> json) list" where
  "trigger_assignments t prescales =
     [(''trigger'', ''trigger_source'', JString (triggerSourceString t)),
      (''trigger'', ''software_trigger_rate_hz'', ju (getSoftwareTriggerRateHz t)),
      (''trigger'', ''dead_time'', ju (getTpcDeadTime t)),
      (''readout_windows'', ''timesize'', ju (getDriftSize t)),
      (''data_handler'', ''dma_buffer_size_kb'', ju (getDmaBufferkB t)),
      (''trigger'', ''prescale'', jvec prescales)]"

text \<open>\<^verbatim>\<open>prescales.at(1)\<close> and \<^verbatim>\<open>.at(7)\<close> receive the light trigger prescale; a short vector throws.\<close>

definition set_at :: "nat \<Rightarrow> 'a \<Rightarrow> 'a list \<Rightarrow> 'a list option" where
  "set_at i v xs = (if i < length xs then Some (xs[i := v]) else None)"

text \<open>Every exception inside is caught and answered by null.\<close>

definition SetConfigFromComm :: "ctl_env \<Rightarrow> json \<Rightarrow> u32 list \<Rightarrow> json" where
  "SetConfigFromComm E cfg config_vec = (case deserialize E config_vec of
     None \<Rightarrow> JNull
   | Some t \<Rightarrow>
       let r = do {
         cfg \<leftarrow> set_all (light_assignments (ce_hw E) t) cfg;
         (thresh0, thresh1) \<leftarrow> pad_thresholds (ce_hw E) t;
         cfg \<leftarrow> set_all [(''light_fem'', ''channel_thresh0'', jvec thresh0), (''light_fem'', ''channel_thresh1'', jvec thresh1)] cfg;
         prescales \<leftarrow> set_at 1 (getLightTrigPrescale t) (getPrescale t);
         prescales \<leftarrow> set_at 7 (getLightTrigPrescale t) prescales;
         set_all (trigger_assignments t prescales) cfg }
       in case r of None \<Rightarrow> JNull | Some cfg \<Rightarrow> cfg)"

text \<open>Without ground parameters the scalars of the file become vectors over the light channels; here a thrown
  exception is not caught.\<close>

definition replicate_field :: "hw_params \<Rightarrow> string \<Rightarrow> json \<Rightarrow> json option" where
  "replicate_field P k j = do {
     x \<leftarrow> cfg_u32 ''light_fem'' k j;
     set_path2 ''light_fem'' k (jvec (replicate (TOTAL_LIGHT_CHANNELS P) x)) j }"

fun json_set_at :: "nat \<Rightarrow> json \<Rightarrow> json \<Rightarrow> json option" where
  "json_set_at i v (JArray xs) = map_option JArray (set_at i v xs)"
| "json_set_at i v _ = None"

definition set_prescale :: "nat \<Rightarrow> json \<Rightarrow> json option" where
  "set_prescale i j = do {
     v \<leftarrow> path2 ''trigger'' ''light_trig_prescale'' j;
     ps \<leftarrow> path2 ''trigger'' ''prescale'' j;
     ps \<leftarrow> json_set_at i v ps;
     set_path2 ''trigger'' ''prescale'' ps j }"

definition local_config :: "hw_params \<Rightarrow> json \<Rightarrow> json option" where
  "local_config P j = do {
     j \<leftarrow> replicate_field P ''pmt_precount'' j;
     j \<leftarrow> replicate_field P ''sipm_deadtime'' j;
     j \<leftarrow> replicate_field P ''channel_thresh0'' j;
     j \<leftarrow> replicate_field P ''channel_thresh1'' j;
     j \<leftarrow> set_prescale 1 j;
     set_prescale 7 j }"

section \<open>Configure\<close>

text \<open>\<^verbatim>\<open>Configure\<close> is a sequence of stages; a stage that answers false or raises ends it.\<close>

fun run_stages :: "(ctl \<Rightarrow> bool result \<times> ctl) list \<Rightarrow> ctl \<Rightarrow> bool result \<times> ctl" where
  "run_stages [] c = (Done True, c)"
| "run_stages (f # fs) c = (case f c of (Done True, c') \<Rightarrow> run_stages fs c' | r \<Rightarrow> r)"

definition choose_disk :: "ctl_env \<Rightarrow> ctl \<Rightarrow> bool result \<times> ctl" where
  "choose_disk E c = (case SelectNvmeDataDirForRun E (snd (PersistRunId E c)) of (ok, c) \<Rightarrow> (Done ok, c))"

definition load_stage :: "ctl_env \<Rightarrow> u32 list \<Rightarrow> ctl \<Rightarrow> bool result \<times> ctl" where
  "load_stage E args c =
     (if args = [] then (Done False, c)
      else let config_file = readout_basedir c @ ''/tpc_configs/data_config/test_'' @ to_string (unat (args ! 0)) @ ''.json'';
               c = c\<lparr>config := LoadConfig E (now c) config_file\<rparr> in
      if is_null (config c) then (Done False, c)
      else if length args > 1
      then let c = c\<lparr>config := SetConfigFromComm E (config c) args\<rparr> in (Done (\<not> is_null (config c)), c)
      else case local_config (ce_hw E) (config c) of None \<Rightarrow> (Raise, c) | Some j \<Rightarrow> (Done True, c\<lparr>config := j\<rparr>))"

definition merge_stage :: "ctl_env \<Rightarrow> ctl \<Rightarrow> bool result \<times> ctl" where
  "merge_stage E c = (case update_json (config c) (setup_config c) of None \<Rightarrow> (Raise, c) | Some j \<Rightarrow>
     let c = c\<lparr>config := j\<rparr>;
         filename = ctl_data_basedir c @ ''/config_logs/run_'' @ to_string (unat (run_id c)) @ ''.json'';
         c = (if env_append (ce_io E) (now c) filename
              then c\<lparr>saved_configs := saved_configs c @ [(filename, config c)]\<rparr> else c) in
     case set_all [(''data_handler'', ''data_basedir'', JString (ctl_data_basedir c)),
                   (''hardware'', ''readout_basedir'', JString (readout_basedir c)),
                   (''data_handler'', ''subrun'', ju (run_id c))] (config c) of
       None \<Rightarrow> (Raise, c) | Some j \<Rightarrow> (Done True, c\<lparr>config := j\<rparr>))"

fun push_slots :: "(string \<times> int) list \<Rightarrow> ctl \<Rightarrow> bool result \<times> ctl" where
  "push_slots [] c = (Done True, c)"
| "push_slots ((k, off) # ks) c = (case cfg_int ''crate'' k (config c) of None \<Rightarrow> (Raise, c)
     | Some slot \<Rightarrow> push_slots ks (c\<lparr>board_slots := board_slots c @ [slot + off]\<rparr>))"

definition crate_stage :: "ctl \<Rightarrow> bool result \<times> ctl" where
  "crate_stage c = (case cfg_bool ''controller'' ''print_status'' (config c) of None \<Rightarrow> (Raise, c) | Some b \<Rightarrow>
     push_slots [(''xmit_slot'', 0), (''charge_fem_slot'', 0), (''charge_fem_slot'', 1), (''last_charge_slot'', 0),
       (''light_fem_slot'', 0)] (c\<lparr>ctl_print := b, status_m := SetPrintStatus b (status_m c)\<rparr>))"

definition slot_ids :: "json \<Rightarrow> (int \<times> int) option" where
  "slot_ids j = do {
     ctl \<leftarrow> field ''controller'' j;
     if contains_key ''slot_id_0'' ctl \<and> contains_key ''slot_id_1'' ctl
     then do { s0 \<leftarrow> cfg_int ''controller'' ''slot_id_0'' j; s1 \<leftarrow> cfg_int ''controller'' ''slot_id_1'' j;
               Some (if s0 > 0 \<or> s1 > 0 then (s0, s1) else (1, 1)) }
     else Some (1, 1) }"

definition pcie_ids :: "json \<Rightarrow> (int \<times> int \<times> int \<times> int) option" where
  "pcie_ids j = do {
     d0 \<leftarrow> cfg_int ''controller'' ''device_id_0'' j;
     d1 \<leftarrow> cfg_int ''controller'' ''device_id_1'' j;
     (s0, s1) \<leftarrow> slot_ids j;
     Some (d0, d1, s0, s1) }"

definition pcie_stage :: "ctl_env \<Rightarrow> ctl \<Rightarrow> bool result \<times> ctl" where
  "pcie_stage E c = (case pcie_ids (config c) of None \<Rightarrow> (Raise, c) | Some (d0, d1, s0, s1) \<Rightarrow>
     (case InitPCIeDevices (ce_drv E) (word_of_int d0) (word_of_int d1) s0 s1 (pcie_interface c) of (ret, p) \<Rightarrow>
       let c = c\<lparr>pcie_interface := p\<rparr> in
       if ret \<noteq> 0 then (Done False, call_monitor (setErrorBitWord ret) c) else (Done True, c)))"

text \<open>A device issues its program on the shared buffers; an error number is only recorded.\<close>

definition run_program :: "ctl_env \<Rightarrow> hw_instr list \<Rightarrow> ctl \<Rightarrow> ctl" where
  "run_program E is c = (case exec is (bufs c) of (ops, b) \<Rightarrow>
     c\<lparr>bufs := b, pcie_interface := run_trace (ce_drv E) ops (pcie_interface c)\<rparr>)"

definition note_ret :: "outcome \<Rightarrow> ctl \<Rightarrow> bool result \<times> ctl" where
  "note_ret r c = (case r of Throw \<Rightarrow> (Raise, c)
     | Ret v \<Rightarrow> (Done True, if v \<noteq> 0 then call_monitor (setErrorBitWord v) c else c))"

definition pcie_ctrl_stage :: "ctl_env \<Rightarrow> ctl \<Rightarrow> bool result \<times> ctl" where
  "pcie_ctrl_stage E c = (case PcieControl_Configure (config c) () of (r, is, _) \<Rightarrow> note_ret r (run_program E is c))"

definition xmit_stage :: "ctl_env \<Rightarrow> ctl \<Rightarrow> bool result \<times> ctl" where
  "xmit_stage E c = (case XmitControl_Configure (ce_hw E) (config c) () of (r, is, _) \<Rightarrow> note_ret r (run_program E is c))"

definition light_stage :: "ctl_env \<Rightarrow> ctl \<Rightarrow> bool result \<times> ctl" where
  "light_stage E c = (case LightFem_Configure (ce_hw E) (config c) () of (r, is, _) \<Rightarrow> note_ret r (run_program E is c))"

definition charge_stage :: "ctl_env \<Rightarrow> ctl \<Rightarrow> bool result \<times> ctl" where
  "charge_stage E c = (case ChargeFem_Configure (ce_hw E) (config c) (charge_static c) of (r, is, s) \<Rightarrow>
     note_ret r ((run_program E is c)\<lparr>charge_static := s\<rparr>))"

definition trigger_stage :: "ctl_env \<Rightarrow> ctl \<Rightarrow> bool result \<times> ctl" where
  "trigger_stage E c = (case TriggerControl_Configure (ce_hw E) (config c) (trigger_ctrl c) of (r, is, t) \<Rightarrow>
     note_ret r ((run_program E is c)\<lparr>trigger_ctrl := t\<rparr>))"

definition handler_stage :: "ctl_env \<Rightarrow> ctl \<Rightarrow> bool result \<times> ctl" where
  "handler_stage E c = (case DataHandler_Configure (ce_dh E) (ce_io E) (config c) (handler c) of (v, d) \<Rightarrow>
     note_ret (Ret v) (c\<lparr>handler := d\<rparr>))"

definition Configure :: "ctl_env \<Rightarrow> u32 list \<Rightarrow> ctl \<Rightarrow> bool result \<times> ctl" where
  "Configure E args = run_stages
     [choose_disk E, load_stage E args, merge_stage E, crate_stage, pcie_stage E, pcie_ctrl_stage E, xmit_stage E,
      light_stage E, charge_stage E, trigger_stage E, handler_stage E, \<lambda>c. (Done True, c\<lparr>is_configured := True\<rparr>)]"

section \<open>Run numbers\<close>

lemma takeWhile_digits: "takeWhile isdigit (to_string n @ [CHR 0x0A]) = to_string n"
proof -
  have "\<forall>x \<in> set (to_string n). isdigit x" using to_string_digits [of n] by (simp add: list_all_iff)
  moreover have "\<not> isdigit (CHR 0x0A)" by (simp add: isdigit_def)
  ultimately show ?thesis by (simp add: takeWhile_append)
qed

lemma digit_not_special: "isdigit x \<Longrightarrow> \<not> isspace x \<and> x \<noteq> CHR ''-'' \<and> x \<noteq> CHR ''+''"
  by (auto simp: isdigit_def isspace_def)

text \<open>What is written is read back.\<close>

lemma read_u32_written: "read_u32 (to_string (unat w) @ [CHR 0x0A]) = Some w"
proof -
  obtain x xs where x: "to_string (unat w) = x # xs" by (cases "to_string (unat w)") auto
  then have "isdigit x" using to_string_digits [of "unat w"] by simp
  then have sp: "\<not> isspace x" "x \<noteq> CHR ''-''" "x \<noteq> CHR ''+''" using digit_not_special by blast+
  have "dropWhile isspace (to_string (unat w) @ [CHR 0x0A]) = to_string (unat w) @ [CHR 0x0A]" using x sp by simp
  moreover have "hd (to_string (unat w) @ [CHR 0x0A]) = x" using x by simp
  moreover have "unat w < 2 ^ 32" using unsigned_less [of w, where ?'a = nat] by simp
  ultimately show ?thesis using sp by (simp add: read_u32_def Let_def takeWhile_digits)
qed

lemma PersistRunId_step:
  assumes "runid_file c = Some t" "read_u32 t = Some prev" "\<And>n. runid_writable E n"
  obtains t' where "snd (PersistRunId E c) = c\<lparr>run_id := prev + 1, runid_file := Some t'\<rparr>" "read_u32 t' = Some (prev + 1)"
    "fst (PersistRunId E c)"
proof -
  let ?t = "to_string (unat (prev + 1)) @ [CHR 0x0A]"
  have "PersistRunId E c = (True, c\<lparr>run_id := prev + 1, runid_file := Some ?t\<rparr>)"
    using assms by (simp add: PersistRunId_def)
  then show ?thesis using that [of ?t] read_u32_written [of "prev + 1"] by simp
qed

text \<open>Every configuration and every reset takes the next run number: as long as the number file can be read and
  written, the n-th call of \<^verbatim>\<open>PersistRunId\<close> yields the stored number plus n (modulo 32 bits), and the file
  holds the number last used.\<close>
theorem PersistRunId_increments:
  assumes "runid_file c = Some t" and "read_u32 t = Some prev" and "\<And>n. runid_writable E n"
  shows "run_id (((\<lambda>c. snd (PersistRunId E c)) ^^ Suc n) c) = prev + of_nat (Suc n)
    \<and> (runid_file (((\<lambda>c. snd (PersistRunId E c)) ^^ Suc n) c) \<bind> read_u32) = Some (prev + of_nat (Suc n))"
proof -
  let ?f = "\<lambda>c. snd (PersistRunId E c)"
  have stored: "\<exists>t. runid_file ((?f ^^ n) c) = Some t \<and> read_u32 t = Some (prev + of_nat n)" for n
  proof (induction n)
    case (Suc n)
    then obtain t where "runid_file ((?f ^^ n) c) = Some t" "read_u32 t = Some (prev + of_nat n)" by blast
    from PersistRunId_step [OF this assms(3)] obtain t' where
      "snd (PersistRunId E ((?f ^^ n) c)) = (?f ^^ n) c\<lparr>run_id := prev + of_nat n + 1, runid_file := Some t'\<rparr>"
      "read_u32 t' = Some (prev + of_nat n + 1)" by metis
    then show ?case by (simp add: add.commute add.left_commute)
  qed (use assms in simp)
  obtain t where "runid_file ((?f ^^ n) c) = Some t" "read_u32 t = Some (prev + of_nat n)" using stored by blast
  from PersistRunId_step [OF this assms(3)] obtain t' where
    "snd (PersistRunId E ((?f ^^ n) c)) = (?f ^^ n) c\<lparr>run_id := prev + of_nat n + 1, runid_file := Some t'\<rparr>" by metis
  then have "run_id ((?f ^^ Suc n) c) = prev + of_nat (Suc n)" by (simp add: add.commute add.left_commute)
  then show ?thesis using stored [of "Suc n"] by auto
qed

section \<open>The assembled configuration\<close>

lemma path2_set_all:
  assumes "set_all xs j = Some j'"
  shows "path2 a b j' = (case map_of (rev (map (\<lambda>(a, b, v). ((a, b), v)) xs)) (a, b) of Some v \<Rightarrow> Some v | None \<Rightarrow> path2 a b j)"
  using assms
proof (induction xs arbitrary: j)
  case (Cons x xs)
  obtain a' b' v where x: "x = (a', b', v)" by (cases x)
  then obtain j1 where j1: "set_path2 a' b' v j = Some j1" "set_all xs j1 = Some j'"
    using Cons.prems by (auto split: Option.bind_splits)
  then show ?case
    using Cons.IH [OF j1(2)] path2_set_path2 [OF j1(1), of a b] x by (auto simp: map_add_def split: option.splits)
qed simp

lemma fold_alist_set_other: "k \<notin> fst ` set ups \<Longrightarrow> map_of (fold (\<lambda>(k, v). alist_set k v) ups kvs) k = map_of kvs k"
  by (induction ups arbitrary: kvs) auto

lemma path2_update_json:
  assumes "update_json j s = Some j'" and "\<not> contains_key a s"
  shows "path2 a b j' = path2 a b j"
proof -
  obtain ups where s: "s = JObject ups" using assms(1) by (cases j; cases s) auto
  then have "a \<notin> fst ` set ups" using assms(2) by (simp add: map_of_eq_None_iff)
  then show ?thesis using assms(1) s by (cases j) (auto simp: path2_def fold_alist_set_other)
qed

lemma get_int_vec_jvec: "get_int_vec (jvec ws) = Some (map (\<lambda>w. int32 (uint w)) ws)"
proof -
  have "map_option_list get_int (map ju ws) = Some (map (\<lambda>w. int32 (uint w)) ws)"
    by (induction ws) (simp_all add: ju_def)
  then show ?thesis by (simp add: jvec_def)
qed

text \<open>The configuration has vectors for all light channels.\<close>

definition vector_ok :: "hw_params \<Rightarrow> json \<Rightarrow> string \<Rightarrow> bool" where
  "vector_ok P j k \<longleftrightarrow> (\<exists>ws. path2 ''light_fem'' k j = Some (jvec ws) \<and> TOTAL_LIGHT_CHANNELS P \<le> length ws)"

definition vectors_ok :: "hw_params \<Rightarrow> json \<Rightarrow> bool" where
  "vectors_ok P j \<longleftrightarrow> list_all (vector_ok P j) [''pmt_precount'', ''sipm_deadtime'', ''channel_thresh0'', ''channel_thresh1'']"

lemma vector_okI: "path2 ''light_fem'' k j = Some (jvec ws) \<Longrightarrow> TOTAL_LIGHT_CHANNELS P \<le> length ws \<Longrightarrow> vector_ok P j k"
  unfolding vector_ok_def by blast

lemma light_read_vectors:
  assumes "light_read j = Some cf"
  shows "cfg_int_vec ''light_fem'' ''pmt_precount'' j = Some (li_precount cf)
    \<and> cfg_int_vec ''light_fem'' ''sipm_deadtime'' j = Some (li_deadtime cf)
    \<and> cfg_int_vec ''light_fem'' ''channel_thresh0'' j = Some (li_thresh0 cf)
    \<and> cfg_int_vec ''light_fem'' ''channel_thresh1'' j = Some (li_thresh1 cf)"
  using assms unfolding light_read_def bind_eq_Some_conv by (elim exE conjE) clarsimp

lemma vectors_ok_channels:
  assumes "vectors_ok P j" and "light_read j = Some cf"
  shows "channels_ok P cf"
proof -
  have len: "TOTAL_LIGHT_CHANNELS P \<le> length xs" if "vector_ok P j k" "cfg_int_vec ''light_fem'' k j = Some xs" for k xs
    using that by (auto simp: vector_ok_def cfg_int_vec_def get_int_vec_jvec)
  show ?thesis
    using assms(1) light_read_vectors [OF assms(2)] len [of "''pmt_precount''"] len [of "''sipm_deadtime''"]
      len [of "''channel_thresh0''"] len [of "''channel_thresh1''"]
    by (simp add: vectors_ok_def channels_ok_def)
qed

lemma vectors_ok_never_throws: "vectors_ok P j \<Longrightarrow> fst (LightFem_Configure P j s) \<noteq> Throw"
  using light_fem.unreadable [of j P s] LightFem_result [of j _ P s] vectors_ok_channels [of P j]
  by (cases "light_read j") auto

lemma replicate_field_path2:
  assumes "replicate_field P k j = Some j'"
  shows "\<exists>x. path2 ''light_fem'' k' j' = (if k' = k then Some (jvec (replicate (TOTAL_LIGHT_CHANNELS P) x)) else path2 ''light_fem'' k' j)"
  using assms path2_set_path2 [of "''light_fem''" k _ j j' "''light_fem''" k']
  by (auto simp: replicate_field_def split: Option.bind_splits)

lemma set_prescale_path2:
  assumes "set_prescale i j = Some j'"
  shows "path2 ''light_fem'' k j' = path2 ''light_fem'' k j"
  using assms path2_set_path2 [of "''trigger''" "''prescale''" _ j j' "''light_fem''" k]
  by (auto simp: set_prescale_def split: Option.bind_splits)

lemma local_config_vectors:
  assumes "local_config P j = Some j'"
  shows "vectors_ok P j'"
proof -
  obtain j1 j2 j3 j4 j5 where s: "replicate_field P ''pmt_precount'' j = Some j1"
    "replicate_field P ''sipm_deadtime'' j1 = Some j2" "replicate_field P ''channel_thresh0'' j2 = Some j3"
    "replicate_field P ''channel_thresh1'' j3 = Some j4" "set_prescale 1 j4 = Some j5" "set_prescale 7 j5 = Some j'"
    using assms unfolding local_config_def bind_eq_Some_conv by blast
  have keep: "vector_ok P b k" if "replicate_field P k' a = Some b" "vector_ok P a k \<or> k = k'" for a b k k'
  proof (cases "k = k'")
    case True
    then show ?thesis using replicate_field_path2 [OF that(1), of k] by (auto intro: vector_okI)
  next
    case False
    then show ?thesis using replicate_field_path2 [OF that(1), of k] that(2) by (simp add: vector_ok_def)
  qed
  have keep2: "vector_ok P j' k" if "vector_ok P j4 k" for k
    using that set_prescale_path2 [OF s(5), of k] set_prescale_path2 [OF s(6), of k] by (simp add: vector_ok_def)
  have "vector_ok P j1 ''pmt_precount''" "vector_ok P j2 ''sipm_deadtime''" "vector_ok P j3 ''channel_thresh0''"
    "vector_ok P j4 ''channel_thresh1''" using s by (auto intro: keep)
  then show ?thesis unfolding vectors_ok_def list.pred_inject
    using keep [OF s(2)] keep [OF s(3)] keep [OF s(4)] keep2 by simp
qed

lemma SetConfigFromComm_deserialized:
  assumes "SetConfigFromComm E j args \<noteq> JNull"
  obtains t where "deserialize E args = Some t"
  using assms by (cases "deserialize E args") (auto simp: SetConfigFromComm_def)

lemma SetConfigFromComm_parts:
  assumes "SetConfigFromComm E j args \<noteq> JNull" and t: "deserialize E args = Some t"
  obtains t0 t1 j1 j2 where "set_all (light_assignments (ce_hw E) t) j = Some j1"
    "pad_thresholds (ce_hw E) t = Some (t0, t1)"
    "set_all [(''light_fem'', ''channel_thresh0'', jvec t0), (''light_fem'', ''channel_thresh1'', jvec t1)] j1 = Some j2"
    "7 < length (getPrescale t)"
    "set_all (trigger_assignments t ((getPrescale t)[1 := getLightTrigPrescale t, 7 := getLightTrigPrescale t])) j2
       = Some (SetConfigFromComm E j args)"
  using assms that unfolding SetConfigFromComm_def
  by (auto simp: Let_def set_at_def split: Option.bind_splits if_splits option.splits prod.splits)

lemma SetConfigFromComm_vectors:
  assumes "SetConfigFromComm E j args \<noteq> JNull" and "deserialize E args = Some t"
    and "length (getDiscThreshold0 t) \<le> length (getDiscThreshold1 t)"
  shows "vectors_ok (ce_hw E) (SetConfigFromComm E j args)"
proof -
  obtain t0 t1 j1 j2 where s: "set_all (light_assignments (ce_hw E) t) j = Some j1"
    "pad_thresholds (ce_hw E) t = Some (t0, t1)"
    "set_all [(''light_fem'', ''channel_thresh0'', jvec t0), (''light_fem'', ''channel_thresh1'', jvec t1)] j1 = Some j2"
    "set_all (trigger_assignments t ((getPrescale t)[1 := getLightTrigPrescale t, 7 := getLightTrigPrescale t])) j2
       = Some (SetConfigFromComm E j args)"
    by (rule SetConfigFromComm_parts [OF assms(1,2)])
  have len: "TOTAL_LIGHT_CHANNELS (ce_hw E) \<le> length t0" "TOTAL_LIGHT_CHANNELS (ce_hw E) \<le> length t1"
    using s(2) assms(3) by (auto simp: pad_thresholds_def Let_def split: if_splits)
  have rest: "path2 ''light_fem'' k (SetConfigFromComm E j args) = path2 ''light_fem'' k j2" for k
    using path2_set_all [OF s(4), of "''light_fem''" k] by (simp add: trigger_assignments_def)
  note thr = path2_set_all [OF s(3), of "''light_fem''"] and light = path2_set_all [OF s(1), of "''light_fem''"]
  let ?j = "SetConfigFromComm E j args" and ?n = "TOTAL_LIGHT_CHANNELS (ce_hw E)"
  have "path2 ''light_fem'' ''pmt_precount'' ?j = Some (jvec (replicate ?n (getRoiPrecount t)))"
    "path2 ''light_fem'' ''sipm_deadtime'' ?j = Some (jvec (replicate ?n (getRoiDeadtime t)))"
    "path2 ''light_fem'' ''channel_thresh0'' ?j = Some (jvec t0)" "path2 ''light_fem'' ''channel_thresh1'' ?j = Some (jvec t1)"
    by (simp_all add: rest thr light light_assignments_def)
  from this [THEN vector_okI] show ?thesis using len by (simp add: vectors_ok_def)
qed


text \<open>The drift length that the ground sends has no effect: it is stored as \<^verbatim>\<open>timesize\<close>, while the charge boards,
  the trigger board and the data handler read \<^verbatim>\<open>drift_size\<close>, which keeps the value of the local file.  The DMA
  buffer size and both light prescales do arrive.\<close>
theorem SetConfigFromComm_drift_ignored:
  assumes "SetConfigFromComm E j args \<noteq> JNull"
  shows "\<exists>t. deserialize E args = Some t \<and> (let j' = SetConfigFromComm E j args in
      path2 ''readout_windows'' ''drift_size'' j' = path2 ''readout_windows'' ''drift_size'' j
    \<and> path2 ''readout_windows'' ''timesize'' j' = Some (ju (getDriftSize t))
    \<and> cfg_size ''data_handler'' ''dma_buffer_size_kb'' j' = Some (unat (getDmaBufferkB t))
    \<and> (\<exists>ps. path2 ''trigger'' ''prescale'' j' = Some (jvec ps) \<and> ps ! 1 = getLightTrigPrescale t \<and> ps ! 7 = getLightTrigPrescale t))"
proof -
  obtain t where t: "deserialize E args = Some t" by (rule SetConfigFromComm_deserialized [OF assms])
  define ps where "ps = (getPrescale t)[1 := getLightTrigPrescale t, 7 := getLightTrigPrescale t]"
  obtain t0 t1 j1 j2 where s: "set_all (light_assignments (ce_hw E) t) j = Some j1"
    "set_all [(''light_fem'', ''channel_thresh0'', jvec t0), (''light_fem'', ''channel_thresh1'', jvec t1)] j1 = Some j2"
    "7 < length (getPrescale t)" "set_all (trigger_assignments t ps) j2 = Some (SetConfigFromComm E j args)"
    unfolding ps_def by (rule SetConfigFromComm_parts [OF assms t])
  note p3 = path2_set_all [OF s(4)] and p2 = path2_set_all [OF s(2)] and p1 = path2_set_all [OF s(1)]
  have "unat (word_of_int (uint (getDmaBufferkB t)) :: u64) = unat (getDmaBufferkB t)"
    by (simp add: unat_ucast_widen flip: unsigned_ucast_eq)
  moreover let ?j = "SetConfigFromComm E j args"
  have "path2 ''readout_windows'' ''drift_size'' ?j = path2 ''readout_windows'' ''drift_size'' j"
    "path2 ''readout_windows'' ''timesize'' ?j = Some (ju (getDriftSize t))"
    "path2 ''data_handler'' ''dma_buffer_size_kb'' ?j = Some (ju (getDmaBufferkB t))"
    "path2 ''trigger'' ''prescale'' ?j = Some (jvec ps)"
    by (simp_all add: p3 p2 p1 trigger_assignments_def light_assignments_def)
  moreover have "ps ! 1 = getLightTrigPrescale t" "ps ! 7 = getLightTrigPrescale t" using s(3) by (simp_all add: ps_def)
  ultimately show ?thesis using t unfolding Let_def by (auto simp: cfg_size_def ju_def)
qed

section \<open>The outcome of Configure\<close>

text \<open>What the contract of a device means for the controller: an accepted stage reports the error number of the
  device exactly when the device could not read its configuration.\<close>

definition report :: "bool \<Rightarrow> u32 \<Rightarrow> mon_call list" where
  "report readable err = (if readable \<or> err = 0 then [] else [setErrorBitWord err])"

context configurable
begin

lemma noted:
  assumes "note_ret (fst (configure cfg s)) c = (Done ok, c')"
  shows "ok" and "c' = c\<lparr>monitor := monitor c @ report (readable cfg) err\<rparr>"
  using assms readable [of cfg s] unreadable [of cfg s]
  by (cases "readable cfg"; auto simp: note_ret_def report_def call_monitor_def split: outcome.splits)+

end

lemma fold_bus_initialized [simp]: "is_initialized (fold (\<lambda>w. bus (f w)) ws p) = is_initialized p"
  by (induction ws arbitrary: p) simp_all

lemma poll_dma_initialized [simp]: "is_initialized (snd (poll_dma drv h n i p)) = is_initialized p"
  by (induction n arbitrary: i p) (simp_all add: Let_def)

lemma recv_words_initialized [simp]: "is_initialized (snd (recv_words drv h js buff p)) = is_initialized p"
  by (induction js arbitrary: buff p) (simp_all add: Let_def)

lemma run_op_initialized: "is_initialized (run_op drv op p) = is_initialized p"
  by (cases op) (simp_all add: PCIeSendBuffer_def PCIeRecvBuffer_def print_status_def WriteReg32_def Let_def case_prod_beta)

lemma run_trace_initialized [simp]: "is_initialized (run_trace drv ops p) = is_initialized p"
proof -
  have "is_initialized (fold (run_op drv) ops p) = is_initialized p"
    by (induction ops arbitrary: p) (simp_all add: run_op_initialized)
  then show ?thesis by (simp add: run_trace_def)
qed

lemma run_program_frame:
  "run_program E is c = c\<lparr>bufs := bufs (run_program E is c), pcie_interface := pcie_interface (run_program E is c)\<rparr>"
  "is_initialized (pcie_interface (run_program E is c)) = is_initialized (pcie_interface c)"
  by (simp_all add: run_program_def case_prod_beta)

text \<open>What the device stages leave alone.\<close>

definition frame :: "ctl \<Rightarrow> ctl \<Rightarrow> bool" where
  "frame c c' \<longleftrightarrow> current_state c' = current_state c \<and> is_configured c' = is_configured c
     \<and> run_id c' = run_id c \<and> ctl_running c' = ctl_running c
     \<and> readout_basedir c' = readout_basedir c \<and> ctl_data_basedir c' = ctl_data_basedir c
     \<and> setup_config c' = setup_config c \<and> config c' = config c
     \<and> board_slots c' = board_slots c \<and> ctl_print c' = ctl_print c
     \<and> status_m c' = status_m c \<and> data_thread c' = data_thread c
     \<and> pending_reason c' = pending_reason c \<and> packets c' = packets c
     \<and> runid_file c' = runid_file c \<and> base_dir_conf c' = base_dir_conf c
     \<and> saved_configs c' = saved_configs c \<and> scripts_run c' = scripts_run c
     \<and> is_initialized (pcie_interface c') = is_initialized (pcie_interface c)"

lemma frame_fields:
  assumes "frame c c'"
  shows "config c' = config c" "is_configured c' = is_configured c" "current_state c' = current_state c"
    "data_thread c' = data_thread c" "is_initialized (pcie_interface c') = is_initialized (pcie_interface c)"
    "runid_file c' = runid_file c" "pending_reason c' = pending_reason c" "run_id c' = run_id c"
  using assms by (simp_all add: frame_def)

lemma run_program_fields [simp]:
  "monitor (run_program E is c) = monitor c" "trigger_ctrl (run_program E is c) = trigger_ctrl c"
  "handler (run_program E is c) = handler c" "charge_static (run_program E is c) = charge_static c"
  "config (run_program E is c) = config c"
  by (simp_all add: run_program_def case_prod_beta)

lemma frame_trans: "frame a b \<Longrightarrow> frame b c \<Longrightarrow> frame a c"
  by (auto simp: frame_def)

lemma run_program_frame0: "frame c (run_program E is c)"
  using run_program_frame(2) [of E "is" c] by (simp add: frame_def run_program_def case_prod_beta)

lemma run_program_frame1: "frame c ((run_program E is c)\<lparr>monitor := m\<rparr>)"
  using run_program_frame0 [of c E "is"] by (simp add: frame_def)

lemma run_program_frame2: "frame c ((run_program E is c)\<lparr>charge_static := s, monitor := m\<rparr>)"
  using run_program_frame0 [of c E "is"] by (simp add: frame_def)

lemma run_program_frame3: "frame c ((run_program E is c)\<lparr>trigger_ctrl := t, monitor := m\<rparr>)"
  using run_program_frame0 [of c E "is"] by (simp add: frame_def)

text \<open>An accepted device stage appends its report and changes nothing outside the frame.\<close>

lemma pcie_ctrl_stage_done:
  assumes a: "pcie_ctrl_stage E c = (Done ok, c')"
  shows "ok \<and> frame c c' \<and> monitor c' = monitor c \<and> trigger_ctrl c' = trigger_ctrl c \<and> handler c' = handler c"
proof -
  obtain "is" where "is": "PcieControl_Configure (config c) () = (Ret 0, is, ())" by (simp add: PcieControl_Configure_def)
  then have "c' = run_program E is c" "ok" using a by (simp_all add: pcie_ctrl_stage_def note_ret_def)
  then show ?thesis by (simp add: run_program_frame0)
qed

lemma xmit_stage_done:
  assumes a: "xmit_stage E c = (Done ok, c')"
  shows "ok \<and> frame c c' \<and> trigger_ctrl c' = trigger_ctrl c \<and> handler c' = handler c
     \<and> monitor c' = monitor c @ report (xmit_read (config c) \<noteq> None) (xmit_get_config (ce_hw E))"
proof -
  obtain r "is" s where "is": "XmitControl_Configure (ce_hw E) (config c) () = (r, is, s)" by (metis prod_cases3)
  then have "note_ret (fst (XmitControl_Configure (ce_hw E) (config c) ())) (run_program E is c) = (Done ok, c')"
    using a by (simp add: xmit_stage_def)
  from xmit_control.noted [OF this] show ?thesis by (simp add: run_program_frame1)
qed

lemma light_stage_done:
  assumes a: "light_stage E c = (Done ok, c')"
  shows "ok \<and> frame c c' \<and> trigger_ctrl c' = trigger_ctrl c \<and> handler c' = handler c
     \<and> monitor c' = monitor c @ report (light_read (config c) \<noteq> None) (lightfem_get_config (ce_hw E))"
proof -
  obtain r "is" s where "is": "LightFem_Configure (ce_hw E) (config c) () = (r, is, s)" by (metis prod_cases3)
  then have "note_ret (fst (LightFem_Configure (ce_hw E) (config c) ())) (run_program E is c) = (Done ok, c')"
    using a by (simp add: light_stage_def)
  from light_fem.noted [OF this] show ?thesis by (simp add: run_program_frame1)
qed

lemma charge_stage_done:
  assumes a: "charge_stage E c = (Done ok, c')"
  shows "ok \<and> frame c c' \<and> trigger_ctrl c' = trigger_ctrl c \<and> handler c' = handler c
     \<and> monitor c' = monitor c @ report (charge_read (config c) \<noteq> None) (chargefem_get_config (ce_hw E))"
proof -
  obtain r "is" s where "is": "ChargeFem_Configure (ce_hw E) (config c) (charge_static c) = (r, is, s)" by (metis prod_cases3)
  then have "note_ret (fst (ChargeFem_Configure (ce_hw E) (config c) (charge_static c)))
      ((run_program E is c)\<lparr>charge_static := s\<rparr>) = (Done ok, c')"
    using a by (simp add: charge_stage_def)
  from charge_fem.noted [OF this] show ?thesis by (simp add: run_program_frame2)
qed

lemma trigger_stage_done:
  assumes a: "trigger_stage E c = (Done ok, c')"
  shows "ok \<and> frame c c' \<and> handler c' = handler c
     \<and> monitor c' = monitor c @ report (\<forall>t. fst (trigger_read (config c) t) \<noteq> None) (trigger_get_config (ce_hw E))"
proof -
  obtain r "is" s where "is": "TriggerControl_Configure (ce_hw E) (config c) (trigger_ctrl c) = (r, is, s)" by (metis prod_cases3)
  then have "note_ret (fst (TriggerControl_Configure (ce_hw E) (config c) (trigger_ctrl c)))
      ((run_program E is c)\<lparr>trigger_ctrl := s\<rparr>) = (Done ok, c')"
    using a by (simp add: trigger_stage_def)
  from trigger_control.noted [OF this] show ?thesis by (simp add: run_program_frame3)
qed

lemmas device_stages = pcie_ctrl_stage_done xmit_stage_done light_stage_done charge_stage_done trigger_stage_done

lemma run_stages_Cons_Done:
  "run_stages (f # fs) c = (Done ok, c') \<longleftrightarrow>
     (\<exists>c1. f c = (Done True, c1) \<and> run_stages fs c1 = (Done ok, c')) \<or> \<not> ok \<and> f c = (Done False, c')"
  by (auto split: prod.splits result.splits bool.splits)

text \<open>The stages before the devices are programmed.\<close>

definition early :: "ctl \<Rightarrow> ctl \<Rightarrow> bool" where
  "early c c' \<longleftrightarrow> current_state c' = current_state c \<and> is_configured c' = is_configured c \<and> data_thread c' = data_thread c
     \<and> pending_reason c' = pending_reason c \<and> handler c' = handler c \<and> trigger_ctrl c' = trigger_ctrl c \<and> bufs c' = bufs c
     \<and> charge_static c' = charge_static c \<and> setup_config c' = setup_config c \<and> packets c' = packets c"

lemma early_trans: "early a b \<Longrightarrow> early b c \<Longrightarrow> early a c"
  by (simp add: early_def)

lemma PersistRunId_early:
  "early c (snd (PersistRunId E c)) \<and> monitor (snd (PersistRunId E c)) = monitor c \<and> pcie_interface (snd (PersistRunId E c)) = pcie_interface c"
  by (simp add: PersistRunId_def early_def Let_def split: option.splits)

lemma take_pick_early:
  "early c (snd (take_pick E pick c)) \<and> pcie_interface (snd (take_pick E pick c)) = pcie_interface c
   \<and> monitor (snd (take_pick E pick c)) = monitor c @ (if fst (take_pick E pick c) then [] else [setErrorBitWord (ce_disk_full E)])"
  by (simp add: take_pick_def WriteDataBaseDirConf_def early_def call_monitor_def)

lemma SelectNvmeDataDirForRun_early:
  "early c (snd (SelectNvmeDataDirForRun E c)) \<and> pcie_interface (snd (SelectNvmeDataDirForRun E c)) = pcie_interface c
   \<and> monitor (snd (SelectNvmeDataDirForRun E c))
     = monitor c @ (if fst (SelectNvmeDataDirForRun E c) then [] else [setErrorBitWord (ce_disk_full E)])"
proof -
  have "early c c" "early c (call_monitor m c)" for m by (simp_all add: early_def call_monitor_def)
  then show ?thesis
    unfolding SelectNvmeDataDirForRun_def Let_def
    by (simp add: take_pick_early call_monitor_def)
qed

lemma choose_disk_Done:
  assumes "choose_disk E c = (Done ok, c')"
  shows "early c c'" and "monitor c' = monitor c @ (if ok then [] else [setErrorBitWord (ce_disk_full E)])"
    and "pcie_interface c' = pcie_interface c"
  using assms PersistRunId_early [of c E] SelectNvmeDataDirForRun_early [of "snd (PersistRunId E c)" E]
  by (auto simp: choose_disk_def intro: early_trans split: prod.splits)

lemma load_stage_Done:
  assumes "load_stage E args c = (Done ok, c')"
  shows "early c c'" and "monitor c' = monitor c" and "pcie_interface c' = pcie_interface c"
  using assms by (auto simp: load_stage_def early_def Let_def split: if_splits option.splits)

lemma merge_stage_Done:
  assumes "merge_stage E c = (Done ok, c')"
  shows "early c c'" and "monitor c' = monitor c" and "pcie_interface c' = pcie_interface c" and ok
  using assms by (auto simp: merge_stage_def early_def Let_def split: if_splits option.splits)

lemma crate_stage_Done:
  assumes "crate_stage c = (Done ok, c')"
  shows "early c c' \<and> monitor c' = monitor c \<and> pcie_interface c' = pcie_interface c \<and> config c' = config c \<and> ok"
  using assms by (auto simp: crate_stage_def early_def split: option.splits)

lemma pcie_stage_Done:
  assumes "pcie_stage E c = (Done ok, c')"
  shows "early c c'" and "config c' = config c"
    and "if ok then is_initialized (pcie_interface c') \<and> monitor c' = monitor c
      else \<exists>e \<in> {1, 4, 5, 6}. monitor c' = monitor c @ [setErrorBitWord e]"
proof -
  obtain d0 d1 s0 s1 ret p where i: "InitPCIeDevices (ce_drv E) d0 d1 s0 s1 (pcie_interface c) = (ret, p)"
    "ok \<longleftrightarrow> ret = 0" "c' = (if ret \<noteq> 0 then call_monitor (setErrorBitWord ret) (c\<lparr>pcie_interface := p\<rparr>) else c\<lparr>pcie_interface := p\<rparr>)"
    using assms by (auto simp: pcie_stage_def Let_def split: option.splits prod.splits if_splits)
  have "ret \<in> {1, 4, 5, 6} \<or> ret = 0 \<and> is_initialized p"
    using i(1) by (auto simp: InitPCIeDevices_def lock_config_buffers_def Let_def split: if_splits option.splits)
  then show "if ok then is_initialized (pcie_interface c') \<and> monitor c' = monitor c
      else \<exists>e \<in> {1, 4, 5, 6}. monitor c' = monitor c @ [setErrorBitWord e]"
    using i by (auto simp: call_monitor_def)
  show "early c c'" "config c' = config c" using i(3) by (simp_all add: early_def call_monitor_def)
qed

text \<open>The error numbers that a configuration reports, in the order of the devices.\<close>

definition configure_reports :: "ctl_env \<Rightarrow> json \<Rightarrow> dh \<Rightarrow> mon_call list" where
  "configure_reports E cfg d = (let v = fst (DataHandler_Configure (ce_dh E) (ce_io E) cfg d) in
     report (xmit_read cfg \<noteq> None) (xmit_get_config (ce_hw E))
     @ report (light_read cfg \<noteq> None) (lightfem_get_config (ce_hw E))
     @ report (charge_read cfg \<noteq> None) (chargefem_get_config (ce_hw E))
     @ report (\<forall>t. fst (trigger_read cfg t) \<noteq> None) (trigger_get_config (ce_hw E)) @ report (v = 0) v)"

lemma handler_stage_Done:
  assumes "handler_stage E c = (Done ok, c')"
  shows "ok \<and> frame c c' \<and> handler c' = snd (DataHandler_Configure (ce_dh E) (ce_io E) (config c) (handler c))
    \<and> monitor c' = monitor c @ (let v = fst (DataHandler_Configure (ce_dh E) (ce_io E) (config c) (handler c)) in report (v = 0) v)"
proof -
  obtain v d where "DataHandler_Configure (ce_dh E) (ce_io E) (config c) (handler c) = (v, d)" by fastforce
  then have "ok" "c' = (if v \<noteq> 0 then call_monitor (setErrorBitWord v) (c\<lparr>handler := d\<rparr>) else c\<lparr>handler := d\<rparr>)"
    "DataHandler_Configure (ce_dh E) (ce_io E) (config c) (handler c) = (v, d)"
    using assms by (simp_all add: handler_stage_def note_ret_def)
  then show ?thesis by (simp add: call_monitor_def frame_def report_def)
qed

lemma run_stages_sure:
  assumes "\<And>d ok' d'. f d = (Done ok', d') \<Longrightarrow> ok'" and "run_stages (f # fs) c = (Done ok, c')"
  obtains c1 where "f c = (Done True, c1)" "run_stages fs c1 = (Done ok, c')"
  using assms by (auto simp: run_stages_Cons_Done simp del: run_stages.simps)

lemma devices_Done:
  assumes "run_stages [pcie_ctrl_stage E, xmit_stage E, light_stage E, charge_stage E, trigger_stage E, handler_stage E,
    \<lambda>c. (Done True, c\<lparr>is_configured := True\<rparr>)] c = (Done ok, c')"
  shows "ok \<and> frame c (c'\<lparr>is_configured := is_configured c\<rparr>) \<and> is_configured c'
    \<and> handler c' = snd (DataHandler_Configure (ce_dh E) (ce_io E) (config c) (handler c))
    \<and> monitor c' = monitor c @ configure_reports E (config c) (handler c)"
proof -
  note sure = device_stages [THEN conjunct1] handler_stage_Done [THEN conjunct1]
  obtain c1 where 1: "pcie_ctrl_stage E c = (Done True, c1)" and r1: "run_stages [xmit_stage E, light_stage E, charge_stage E,
      trigger_stage E, handler_stage E, \<lambda>c. (Done True, c\<lparr>is_configured := True\<rparr>)] c1 = (Done ok, c')"
    by (rule run_stages_sure [OF sure(1) assms])
  obtain c2 where 2: "xmit_stage E c1 = (Done True, c2)" and r2: "run_stages [light_stage E, charge_stage E,
      trigger_stage E, handler_stage E, \<lambda>c. (Done True, c\<lparr>is_configured := True\<rparr>)] c2 = (Done ok, c')"
    by (rule run_stages_sure [OF sure(2) r1])
  obtain c3 where 3: "light_stage E c2 = (Done True, c3)" and r3: "run_stages [charge_stage E,
      trigger_stage E, handler_stage E, \<lambda>c. (Done True, c\<lparr>is_configured := True\<rparr>)] c3 = (Done ok, c')"
    by (rule run_stages_sure [OF sure(3) r2])
  obtain c4 where 4: "charge_stage E c3 = (Done True, c4)" and r4: "run_stages [trigger_stage E, handler_stage E,
      \<lambda>c. (Done True, c\<lparr>is_configured := True\<rparr>)] c4 = (Done ok, c')"
    by (rule run_stages_sure [OF sure(4) r3])
  obtain c5 where 5: "trigger_stage E c4 = (Done True, c5)" and r5: "run_stages [handler_stage E,
      \<lambda>c. (Done True, c\<lparr>is_configured := True\<rparr>)] c5 = (Done ok, c')"
    by (rule run_stages_sure [OF sure(5) r4])
  obtain c6 where 6: "handler_stage E c5 = (Done True, c6)"
    and r6: "run_stages [\<lambda>c. (Done True, c\<lparr>is_configured := True\<rparr>)] c6 = (Done ok, c')"
    by (rule run_stages_sure [OF sure(6) r5])
  have "ok" "c' = c6\<lparr>is_configured := True\<rparr>" using r6 by simp_all
  moreover note device_stages(1) [OF 1] device_stages(2) [OF 2] device_stages(3) [OF 3] device_stages(4) [OF 4]
    device_stages(5) [OF 5] handler_stage_Done [OF 6]
  ultimately show ?thesis by (simp add: frame_def configure_reports_def Let_def)
qed

lemma early_stages_Done:
  assumes "run_stages [choose_disk E, load_stage E args, merge_stage E, crate_stage, pcie_stage E] c = (Done ok, c')"
  shows "early c c'" and "if ok then is_initialized (pcie_interface c') \<and> monitor c' = monitor c
    else \<exists>e \<in> {[], [ce_disk_full E], [1], [4], [5], [6]}. monitor c' = monitor c @ map setErrorBitWord e"
proof -
  let ?P = "\<lambda>ok c'. early c c' \<and> (if ok then is_initialized (pcie_interface c') \<and> monitor c' = monitor c
    else \<exists>e \<in> {[], [ce_disk_full E], [1], [4], [5], [6]}. monitor c' = monitor c @ map setErrorBitWord e)"
  have "?P ok c'"
  proof (cases "fst (choose_disk E c) = Done True")
    case False
    then have "choose_disk E c = (Done False, c')" "\<not> ok"
      using assms by (auto simp: run_stages_Cons_Done simp del: run_stages.simps)
    then show ?thesis using choose_disk_Done [of E c False c'] by simp
  next
    case True
    then obtain c1 where 1: "choose_disk E c = (Done True, c1)" by (metis prod.collapse)
    then have r1: "run_stages [load_stage E args, merge_stage E, crate_stage, pcie_stage E] c1 = (Done ok, c')" using assms by simp
    have e1: "early c c1" "monitor c1 = monitor c" using choose_disk_Done [OF 1] by simp_all
    show ?thesis
    proof (cases "fst (load_stage E args c1) = Done True")
      case False
      then have "load_stage E args c1 = (Done False, c')" "\<not> ok"
        using r1 by (auto simp: run_stages_Cons_Done simp del: run_stages.simps)
      then show ?thesis using load_stage_Done [of E args c1 False c'] e1 early_trans [OF e1(1)] by simp
    next
      case True
      then obtain c2 where 2: "load_stage E args c1 = (Done True, c2)" by (metis prod.collapse)
      then have r2: "run_stages [merge_stage E, crate_stage, pcie_stage E] c2 = (Done ok, c')" using r1 by simp
      obtain c3 where 3: "merge_stage E c2 = (Done True, c3)" and r3: "run_stages [crate_stage, pcie_stage E] c3 = (Done ok, c')"
        by (rule run_stages_sure [OF merge_stage_Done(4) r2])
      obtain c4 where 4: "crate_stage c3 = (Done True, c4)" and r4: "run_stages [pcie_stage E] c4 = (Done ok, c')"
        by (rule run_stages_sure [OF crate_stage_Done [THEN conjunct2, THEN conjunct2, THEN conjunct2, THEN conjunct2] r3])
      have 5: "pcie_stage E c4 = (Done ok, c')" using r4 by (auto simp: run_stages_Cons_Done simp del: run_stages.simps(2))
      have "early c c4" "monitor c4 = monitor c"
        using e1 load_stage_Done [OF 2] merge_stage_Done [OF 3] crate_stage_Done [OF 4] by (simp_all add: early_def)
      then show ?thesis using pcie_stage_Done [OF 5] early_trans [of c c4 c'] by (auto split: if_splits)
    qed
  qed
  then show "early c c'" and "if ok then is_initialized (pcie_interface c') \<and> monitor c' = monitor c
    else \<exists>e \<in> {[], [ce_disk_full E], [1], [4], [5], [6]}. monitor c' = monitor c @ map setErrorBitWord e" by blast+
qed

lemma run_stages_append:
  "run_stages (fs @ gs) c = (case run_stages fs c of (Done True, c') \<Rightarrow> run_stages gs c' | r \<Rightarrow> r)"
  by (induction fs arbitrary: c) (auto split: prod.splits result.splits bool.splits)

lemma DataHandler_Configure_running [simp]: "is_running (snd (DataHandler_Configure P env c d)) = is_running d"
proof -
  have a: "is_running (snd (cfg_run c d)) = is_running d" "is_running (snd (cfg_source c d)) = is_running d"
    "is_running (snd (cfg_limits c d)) = is_running d" for d
    by (simp_all add: cfg_run_def cfg_source_def cfg_limits_def Let_def split: option.splits)
  have b: "is_running (clamp_dma (AppendStorageSegmentLog env r (InitNvmePathsFromEnv env d))) = is_running d" for r d
    by (simp add: clamp_dma_def AppendStorageSegmentLog_def InitNvmePathsFromEnv_def log_io_def tick_def Let_def)
  obtain o1 d1 where 1: "cfg_run c d = (o1, d1)" by fastforce
  obtain o2 d2 where 2: "cfg_source c d1 = (o2, d2)" by fastforce
  obtain o3 d3 where 3: "cfg_limits c d2 = (o3, d3)" by fastforce
  show ?thesis using a(1) [of d] a(2) [of d1] a(3) [of d2] b [of _ d3] 1 2 3
    by (cases o1; cases o2; cases o3) (simp_all add: DataHandler_Configure_def)
qed

lemma Configure_Done:
  assumes "Configure E args c = (Done ok, c')"
  shows "current_state c' = current_state c \<and> data_thread c' = data_thread c \<and> pending_reason c' = pending_reason c
    \<and> is_running (handler c') = is_running (handler c)"
    and "if ok then is_configured c' \<and> is_initialized (pcie_interface c')
        \<and> monitor c' = monitor c @ configure_reports E (config c') (handler c)
        \<and> handler c' = snd (DataHandler_Configure (ce_dh E) (ce_io E) (config c') (handler c))
      else early c c' \<and> (\<exists>e \<in> {[], [ce_disk_full E], [1], [4], [5], [6]}. monitor c' = monitor c @ map setErrorBitWord e)"
proof -
  let ?early = "run_stages [choose_disk E, load_stage E args, merge_stage E, crate_stage, pcie_stage E] c"
  let ?devices = "[pcie_ctrl_stage E, xmit_stage E, light_stage E, charge_stage E, trigger_stage E, handler_stage E,
    \<lambda>c. (Done True, c\<lparr>is_configured := True\<rparr>)]"
  have r: "(case ?early of (Done True, c') \<Rightarrow> run_stages ?devices c' | r \<Rightarrow> r) = (Done ok, c')"
    using assms run_stages_append [of "[choose_disk E, load_stage E args, merge_stage E, crate_stage, pcie_stage E]" ?devices c]
    unfolding Configure_def append_Cons append_Nil by (simp only:)
  have "(current_state c' = current_state c \<and> data_thread c' = data_thread c \<and> pending_reason c' = pending_reason c
    \<and> is_running (handler c') = is_running (handler c)) \<and>
    (if ok then is_configured c' \<and> is_initialized (pcie_interface c')
        \<and> monitor c' = monitor c @ configure_reports E (config c') (handler c)
        \<and> handler c' = snd (DataHandler_Configure (ce_dh E) (ce_io E) (config c') (handler c))
      else early c c' \<and> (\<exists>e \<in> {[], [ce_disk_full E], [1], [4], [5], [6]}. monitor c' = monitor c @ map setErrorBitWord e))"
  proof (cases "fst ?early = Done True")
    case True
    then obtain d where d: "?early = (Done True, d)" by (metis prod.collapse)
    have "run_stages ?devices d = (Done ok, c')" using r unfolding d by simp
    from devices_Done [OF this] show ?thesis
      using early_stages_Done [OF d] by (simp add: early_def frame_def)
  next
    case False
    have "?early = (Done ok, c')" "\<not> ok"
      using r False by (cases ?early; auto split: result.splits bool.splits)+
    then show ?thesis using early_stages_Done [of E args c ok c'] by (simp add: early_def)
  qed
  then show "current_state c' = current_state c \<and> data_thread c' = data_thread c \<and> pending_reason c' = pending_reason c
    \<and> is_running (handler c') = is_running (handler c)"
    and "if ok then is_configured c' \<and> is_initialized (pcie_interface c')
        \<and> monitor c' = monitor c @ configure_reports E (config c') (handler c)
        \<and> handler c' = snd (DataHandler_Configure (ce_dh E) (ce_io E) (config c') (handler c))
      else early c c' \<and> (\<exists>e \<in> {[], [ce_disk_full E], [1], [4], [5], [6]}. monitor c' = monitor c @ map setErrorBitWord e)"
    by blast+
qed


section \<open>Concrete controllers\<close>

definition sparse_json :: json where
  "sparse_json = JObject [(''light_fem'', JObject [(''pmt_precount'', JInt 2), (''sipm_deadtime'', JInt 3),
       (''channel_thresh0'', JInt 4), (''channel_thresh1'', JInt 5)]),
     (''trigger'', JObject [(''prescale'', JArray (replicate 9 (JInt 1))), (''light_trig_prescale'', JInt 6)])]"

definition sample_setup :: json where
  "sample_setup = JObject [(''controller'', JObject [(''log_to_file'', JBool False), (''print_status'', JBool False), (''device_id_0'', JInt 1), (''device_id_1'', JInt 2)]),
     (''crate'', JObject [(''xmit_slot'', JInt 11), (''charge_fem_slot'', JInt 13), (''last_charge_slot'', JInt 15), (''light_fem_slot'', JInt 16)])]"

definition sample_cfg :: tpc_cfg where
  "sample_cfg = \<lparr>getSummedPeakThresh = 1, getChannelMultiplicity = 2, getRoiDelay0 = 3, getRoiDelay1 = 4, getRoiPrecount = 5,
     getRoiPeakWindow = 6, getEnableTop = 7, getEnableMiddle = 8, getEnableBottom = 9, getNumRoiWords = 10, getRoiDeadtime = 11,
     getUnbiasedLightSamples = 12, getFifoBlocksize = 13, getDiscThreshold0 = [20], getDiscThreshold1 = [30],
     triggerSourceString = ''light'', getSoftwareTriggerRateHz = 14, getTpcDeadTime = 15, getDriftSize = 511,
     getDmaBufferkB = 300, getPrescale = [0, 0, 0, 0, 0, 0, 0, 0, 0], getLightTrigPrescale = 16\<rparr>"

definition sample_ctl_env :: ctl_env where
  "sample_ctl_env = \<lparr>ce_hw = sample_params, ce_dh = sample_dh_params, ce_drv = test_driver, ce_io = quiet_env,
     ce_disk_full = 9, read_file = (\<lambda>_ file_name. Some file_name),
     json_parse = (\<lambda>t. Some (if t = ''/opt/tpc_configs/setup_config/setup_params.json'' then sample_setup else sparse_json)),
     deserialize = (\<lambda>_. Some sample_cfg),
     runid_writable = (\<lambda>_. True), thread_starts = (\<lambda>_. True), TPC_Configure = 1, TPC_Start_Run = 2, TPC_Stop_Run = 3,
     TPC_Reset_Run = 4, TPC_Query_Hardware_Status = 5, TPC_Hardware_Status = 6, COM_HeartBeat = 7\<rparr>"

definition sample_trig :: trig where
  "sample_trig = \<lparr>software_trigger_rate_m = 0, trigger_module_m = 0, prescale_vec = [], ext_trig_m = False, light_trig_m = False,
     software_trig_m = False, trig_is_running = False, static_masks = None\<rparr>"

definition sample_ctl :: ctl where
  "sample_ctl = \<lparr>current_state = kIdle, is_configured = False, run_id = 0, ctl_running = True, readout_basedir = ''/opt'',
     ctl_data_basedir = ''/nvme0'', setup_config = sample_setup, config = JNull, board_slots = [], ctl_print = False,
     handler = sample_dh, pcie_interface = closed_pcie, bufs = \<lparr>buf_send = [], carray = []\<rparr>, charge_static = 0,
     trigger_ctrl = sample_trig, status_m = \<lparr>data_handler_metrics = [], print_status_ = False\<rparr>, data_thread = False,
     pending_reason = kNone, monitor = [], packets = [], runid_file = Some ''41'', base_dir_conf = [], saved_configs = [],
     scripts_run = []\<rparr>"

theorem PersistRunId_increments_witness:
  "run_id (((\<lambda>c. snd (PersistRunId sample_ctl_env c)) ^^ 2) sample_ctl) = 43"
proof -
  have "read_u32 ''41'' = Some 41"
    by (simp add: read_u32_def isspace_def isdigit_def digits_val_def digit_val_def Let_def)
  then show ?thesis
    using PersistRunId_increments [of sample_ctl "''41''" 41 sample_ctl_env 1]
    by (simp add: sample_ctl_def sample_ctl_env_def numeral_2_eq_2)
qed

definition sample_config :: json where
  "sample_config = the (local_config sample_params sparse_json)"

definition sample_merged :: json where
  "sample_merged = the (update_json sample_config sample_setup)"

definition sample_full :: json where
  "sample_full = the (set_all [(''data_handler'', ''data_basedir'', JString ''/nvme0''),
     (''hardware'', ''readout_basedir'', JString ''/opt''), (''data_handler'', ''subrun'', ju 42)] sample_merged)"

lemma sample_local: "local_config sample_params sparse_json = Some sample_config"
  unfolding sample_config_def by (rule option.collapse [symmetric]) code_simp

lemma sample_load:
  assumes "readout_basedir c = ''/opt''"
  shows "load_stage sample_ctl_env [1] c = (Done True, c\<lparr>config := sample_config\<rparr>)"
proof -
  have "\<not> is_null sparse_json" by (simp add: sparse_json_def)
  then show ?thesis using assms by (simp add: load_stage_def sample_ctl_env_def LoadConfig_def sample_local Let_def)
qed

definition sample_like :: "ctl \<Rightarrow> bool" where
  "sample_like c \<longleftrightarrow> runid_file c = Some ''41'' \<and> ctl_data_basedir c = ''/nvme0'' \<and> readout_basedir c = ''/opt''
     \<and> setup_config c = sample_setup \<and> pcie_interface c = closed_pcie"

lemma sample_ctl_like: "sample_like sample_ctl"
  by (simp add: sample_like_def sample_ctl_def)

lemma sample_choose:
  assumes "sample_like c0"
  shows "\<exists>c. choose_disk sample_ctl_env c0 = (Done True, c) \<and> ctl_data_basedir c = ''/nvme0''
    \<and> readout_basedir c = ''/opt'' \<and> setup_config c = sample_setup \<and> pcie_interface c = closed_pcie \<and> run_id c = 42"
proof -
  have "GetFreeBytes default_os p = Some 40960000000" for p
    by (simp add: GetFreeBytes_def QueryFreeBytes_def default_os_def)
  moreover have "\<not> PickMaxFreeEnabled default_os" by (simp add: PickMaxFreeEnabled_def EnvFlagTrue_def default_os_def)
  moreover have "read_u32 ''41'' = Some 41"
    by (simp add: read_u32_def isspace_def isdigit_def digits_val_def digit_val_def Let_def)
  ultimately show ?thesis
    using assms by (simp add: sample_like_def choose_disk_def SelectNvmeDataDirForRun_def sample_ctl_env_def quiet_env_def kDiskRunStartMinFreeBytes_def
        PersistRunId_def Let_def split: option.splits)
qed

lemma sample_merge_reads:
  "update_json sample_config sample_setup = Some sample_merged"
  "set_all [(''data_handler'', ''data_basedir'', JString ''/nvme0''),
     (''hardware'', ''readout_basedir'', JString ''/opt''), (''data_handler'', ''subrun'', ju 42)] sample_merged = Some sample_full"
  "cfg_bool ''controller'' ''print_status'' sample_full = Some False"
  "cfg_int ''crate'' ''xmit_slot'' sample_full = Some 11" "cfg_int ''crate'' ''charge_fem_slot'' sample_full = Some 13"
  "cfg_int ''crate'' ''last_charge_slot'' sample_full = Some 15" "cfg_int ''crate'' ''light_fem_slot'' sample_full = Some 16"
  "pcie_ids sample_full = Some (1, 2, 1, 1)"
  "xmit_read sample_full = None" "light_read sample_full = None" "charge_read sample_full = None"
  "cfg_int ''trigger'' ''software_trigger_rate_hz'' sample_full = None"
  "cfg_size ''data_handler'' ''dma_buffer_size_kb'' sample_full = None"
  by code_simp+

lemma note_ret_Ret: "\<exists>c'. note_ret (Ret v) c = (Done True, c') \<and> config c' = config c"
  by (simp add: note_ret_def call_monitor_def)

lemma sample_devices:
  assumes "config c = sample_full"
  shows "\<exists>c'. run_stages [pcie_ctrl_stage sample_ctl_env, xmit_stage sample_ctl_env, light_stage sample_ctl_env,
    charge_stage sample_ctl_env, trigger_stage sample_ctl_env, handler_stage sample_ctl_env,
    \<lambda>c. (Done True, c\<lparr>is_configured := True\<rparr>)] c = (Done True, c') \<and> config c' = sample_full"
proof -
  have tr: "trigger_read sample_full t = (None, t)" for t by (simp add: trigger_read_def sample_merge_reads)
  have step: "\<exists>c'. run_stages (f # fs) c = (Done True, c') \<and> config c' = sample_full"
    if c: "config c = sample_full" and f: "\<And>d. config d = sample_full \<Longrightarrow> \<exists>v e. f d = note_ret (Ret v) e \<and> config e = sample_full"
      and fs: "\<And>d. config d = sample_full \<Longrightarrow> \<exists>c'. run_stages fs d = (Done True, c') \<and> config c' = sample_full" for f fs c
  proof -
    obtain v e where "f c = note_ret (Ret v) e" "config e = sample_full" using f [OF c] by blast
    moreover obtain d where "note_ret (Ret v) e = (Done True, d)" "config d = config e" using note_ret_Ret by blast
    ultimately show ?thesis using fs [of d] by simp
  qed
  have last: "\<exists>c'. run_stages [\<lambda>c. (Done True, c\<lparr>is_configured := True\<rparr>)] d = (Done True, c') \<and> config c' = sample_full"
    if "config d = sample_full" for d using that by simp
  note stages = pcie_ctrl_stage_def PcieControl_Configure_def xmit_stage_def XmitControl_Configure_def light_stage_def
    LightFem_Configure_def charge_stage_def ChargeFem_Configure_def trigger_stage_def TriggerControl_Configure_def
    handler_stage_def sample_merge_reads tr
  have f: "config d = sample_full \<Longrightarrow> \<exists>v e. f d = note_ret (Ret v) e \<and> config e = sample_full"
    if "f \<in> {pcie_ctrl_stage sample_ctl_env, xmit_stage sample_ctl_env, light_stage sample_ctl_env,
      charge_stage sample_ctl_env, trigger_stage sample_ctl_env, handler_stage sample_ctl_env}" for f d
    using that by (fastforce simp: stages split: prod.splits)
  show ?thesis
    by (intro step [OF assms] step [OF _ f] last f) simp_all
qed

lemma sample_configure:
  assumes "sample_like c0"
  shows "\<exists>c'. Configure sample_ctl_env [1] c0 = (Done True, c') \<and> config c' = sample_full"
proof -
  obtain c1 where 1: "choose_disk sample_ctl_env c0 = (Done True, c1)" "ctl_data_basedir c1 = ''/nvme0''"
    "readout_basedir c1 = ''/opt''" "setup_config c1 = sample_setup" "pcie_interface c1 = closed_pcie" "run_id c1 = 42"
    using sample_choose [OF assms] by blast
  let ?c2 = "c1\<lparr>config := sample_config\<rparr>"
  obtain c3 where 3: "merge_stage sample_ctl_env ?c2 = (Done True, c3)" "config c3 = sample_full" "pcie_interface c3 = closed_pcie"
    using 1(2-6) by (simp add: merge_stage_def sample_merge_reads Let_def sample_ctl_env_def quiet_env_def del: set_all.simps)
  obtain c4 where 4: "crate_stage c3 = (Done True, c4)" "config c4 = sample_full" "pcie_interface c4 = closed_pcie"
    using 3 by (simp add: crate_stage_def sample_merge_reads)
  obtain c5 where 5: "pcie_stage sample_ctl_env c4 = (Done True, c5)" "config c5 = sample_full"
    using 4 by (simp add: pcie_stage_def sample_merge_reads InitPCIeDevices_def lock_config_buffers_def Let_def
        test_driver_def closed_pcie_def sample_ctl_env_def)
  obtain c' where "run_stages [pcie_ctrl_stage sample_ctl_env, xmit_stage sample_ctl_env, light_stage sample_ctl_env,
    charge_stage sample_ctl_env, trigger_stage sample_ctl_env, handler_stage sample_ctl_env,
    \<lambda>c. (Done True, c\<lparr>is_configured := True\<rparr>)] c5 = (Done True, c')" "config c' = sample_full"
    using sample_devices [OF 5(2)] by blast
  then show ?thesis unfolding Configure_def run_stages.simps(2) [of "choose_disk _"] run_stages.simps(2) [of "load_stage _ _"]
    run_stages.simps(2) [of "merge_stage _"] run_stages.simps(2) [of crate_stage] run_stages.simps(2) [of "pcie_stage _"]
    by (simp only: 1(1) sample_load [OF 1(3)] 3(1) 4(1) 5(1) prod.case result.case bool.case if_True) simp
qed



theorem SetConfigFromComm_drift_ignored_witness:
  "path2 ''readout_windows'' ''timesize'' (SetConfigFromComm sample_ctl_env sparse_json [1, 2]) = Some (JInt 511)
   \<and> path2 ''readout_windows'' ''drift_size'' (SetConfigFromComm sample_ctl_env sparse_json [1, 2]) = Some JNull"
proof -
  have "SetConfigFromComm sample_ctl_env sparse_json [1, 2] \<noteq> JNull" by code_simp
  moreover have "path2 ''readout_windows'' ''drift_size'' sparse_json = Some JNull" by code_simp
  ultimately show ?thesis
    using SetConfigFromComm_drift_ignored [of sample_ctl_env sparse_json "[1, 2]"]
    by (simp add: sample_ctl_env_def sample_cfg_def ju_def Let_def)
qed

end
