(* ===== verification/Controller.thy ===== *)
theory Controller
  imports Controller_Config
begin

text \<open>
  The second half of \<^verbatim>\<open>src/control/controller.cpp\<close> and \<^verbatim>\<open>src/control/run_stop_coordinator.cpp\<close>: the state machine
  of the data acquisition, its commands, the status loop and the automatic stop of a run.  The command
  thread and the status thread share the controller without a lock; the step relation interleaves whole
  commands with whole passes of the status loop and with the work of the collection thread, and a separate
  statement covers the one place where a finer interleaving matters.
\<close>

section \<open>Construction\<close>

definition GetEnvVariables :: "os_view \<Rightarrow> ctl \<Rightarrow> ctl" where
  "GetEnvVariables os c =
     (let c = (case getenv os ''TPC_DAQ_BASEDIR'' of Some d \<Rightarrow> c\<lparr>readout_basedir := d\<rparr> | None \<Rightarrow> c) in
      case getenv os ''DATA_BASE_DIR'' of Some d \<Rightarrow> c\<lparr>ctl_data_basedir := d\<rparr> | None \<Rightarrow> c)"

text \<open>The mirror daemon is started through the shell; a failure is ignored.\<close>

definition TryStartMirrorDaemon :: "os_view \<Rightarrow> ctl \<Rightarrow> ctl" where
  "TryStartMirrorDaemon os c = (if \<not> MirrorDaemonStartRequested os then c
     else c\<lparr>scripts_run := scripts_run c @ [''systemctl start data_mirror.service >/dev/null 2>&1'']\<rparr>)"

text \<open>The constructor on freshly constructed components (\<^verbatim>\<open>parts\<close>); without a setup file it raises an exception.\<close>

definition construct :: "ctl_env \<Rightarrow> os_view \<Rightarrow> bool \<Rightarrow> ctl \<Rightarrow> unit result \<times> ctl" where
  "construct E os running parts =
     (let c = parts\<lparr>is_configured := False, run_id := 0, ctl_running := running, current_state := kIdle,
                    readout_basedir := [], ctl_data_basedir := [], board_slots := [], data_thread := False,
                    pending_reason := kNone, monitor := [], packets := [], config := JNull\<rparr>;
          c = GetEnvVariables os c;
          c = c\<lparr>setup_config := LoadConfig E (now c) (readout_basedir c @ ''/tpc_configs/setup_config/setup_params.json'')\<rparr>
      in case cfg_bool ''controller'' ''log_to_file'' (setup_config c) of None \<Rightarrow> (Raise, c) | Some b \<Rightarrow> (Done (), TryStartMirrorDaemon os c))"

definition Init :: "ctl \<Rightarrow> bool \<times> ctl" where
  "Init c = (True, c\<lparr>current_state := kIdle\<rparr>)"

section \<open>Run control\<close>

definition InitPcieDriver :: "ctl \<Rightarrow> ctl" where
  "InitPcieDriver c = c\<lparr>scripts_run := scripts_run c @ [readout_basedir c @ ''/scripts/setup_windriver.sh'']\<rparr>"

text \<open>Starting a thread may fail with an exception, which is caught; assigning a new thread to a member that still
  holds a joinable one ends the process.\<close>

definition StartRun :: "ctl_env \<Rightarrow> ctl \<Rightarrow> bool result \<times> ctl" where
  "StartRun E c = (let c = c\<lparr>handler := SetRun True (handler c)\<rparr> in
     if \<not> thread_starts E (now c) then (Done False, c\<lparr>handler := SetRun False (handler c)\<rparr>)
     else if data_thread c then (Terminate, c)
     else (Done True, c\<lparr>data_thread := True\<rparr>))"

definition StopRun :: "ctl \<Rightarrow> bool \<times> ctl" where
  "StopRun c = (True, c\<lparr>handler := SetRun False (handler c), data_thread := False\<rparr>)"

definition GetStatus :: "ctl \<Rightarrow> bool" where
  "GetStatus c = True"

definition ResetRun :: "ctl_env \<Rightarrow> ctl \<Rightarrow> bool result \<times> ctl" where
  "ResetRun E c = (let c = snd (PersistRunId E c) in
     case set_path2 ''data_handler'' ''subrun'' (ju (run_id c)) (config c) of None \<Rightarrow> (Raise, c)
     | Some j \<Rightarrow> (Done True, c\<lparr>config := j, handler := snd (Reset (ce_io E) (unat (run_id c)) (handler c))\<rparr>))"

section \<open>Run stop coordinator\<close>

definition DiskStopRequested :: "dh \<Rightarrow> bool" where
  "DiskStopRequested d = disk_stop_requested d"

definition Poll :: "dh option \<Rightarrow> RunStopReason \<Rightarrow> RunStopReason" where
  "Poll dh pending = (case dh of None \<Rightarrow> pending | Some d \<Rightarrow> if DiskStopRequested d then kDiskFull else pending)"

definition ShouldStopRun :: "RunStopReason \<Rightarrow> bool" where
  "ShouldStopRun pending \<longleftrightarrow> pending \<noteq> kNone"

fun state_code :: "State \<Rightarrow> u32" where
  "state_code kIdle = 0"
| "state_code kConfigured = 1"
| "state_code kRunning = 2"
| "state_code kStopped = 3"

definition set_readout_state :: "ctl \<Rightarrow> ctl" where
  "set_readout_state c = call_monitor (setReadoutState (state_code (current_state c))) c"

text \<open>\<^verbatim>\<open>ApplyPendingRunStop\<close> in three parts: the decision, the change of state, and the stop itself.\<close>

definition poll_stop :: "ctl \<Rightarrow> bool \<times> ctl" where
  "poll_stop c = (if current_state c \<noteq> kRunning then (False, c)
     else let c = c\<lparr>pending_reason := Poll (Some (handler c)) (pending_reason c)\<rparr> in (ShouldStopRun (pending_reason c), c))"

definition mark_stopped :: "ctl \<Rightarrow> ctl" where
  "mark_stopped c = c\<lparr>current_state := kStopped\<rparr>"

definition finish_stop :: "ctl \<Rightarrow> ctl" where
  "finish_stop c = (let c = set_readout_state (snd (StopRun c)) in c\<lparr>pending_reason := kNone\<rparr>)"

definition ApplyPendingRunStop :: "ctl \<Rightarrow> ctl" where
  "ApplyPendingRunStop c = (case poll_stop c of (stop, c) \<Rightarrow> if stop then finish_stop (mark_stopped c) else c)"

section \<open>Status\<close>

definition publish :: "ctl_env \<Rightarrow> ctl \<Rightarrow> ctl" where
  "publish E c = (if \<not> ctl_print c then c\<lparr>packets := packets c @ [(TPC_Hardware_Status E, monitor c)]\<rparr> else c)"

definition Controller_ReadStatus :: "ctl_env \<Rightarrow> ctl \<Rightarrow> ctl" where
  "Controller_ReadStatus E c =
     (let (d, s) = SetDataHandlerStatus (ce_dh E) (handler c) (status_m c);
          (calls, p) = ReadStatus (ce_dh E) (ce_drv E) (board_slots c) False s (pcie_interface c)
      in publish E (c\<lparr>handler := d, status_m := s, pcie_interface := p, monitor := monitor c @ calls\<rparr>))"

text \<open>One pass of the loop in \<^verbatim>\<open>StatusControl\<close>.\<close>

definition StatusControl_pass :: "ctl_env \<Rightarrow> ctl \<Rightarrow> ctl" where
  "StatusControl_pass E c = Controller_ReadStatus E (ApplyPendingRunStop c)"

section \<open>Commands\<close>

definition GetStateName :: "ctl \<Rightarrow> string" where
  "GetStateName c = (case current_state c of kIdle \<Rightarrow> ''Idle'' | kConfigured \<Rightarrow> ''Configure'' | kRunning \<Rightarrow> ''Running''
     | kStopped \<Rightarrow> ''Stopped'')"

definition HandleCommand :: "ctl_env \<Rightarrow> u16 \<times> u32 list \<Rightarrow> ctl \<Rightarrow> bool result \<times> ctl" where
  "HandleCommand E command c = (case command of (cmd, arguments) \<Rightarrow>
     if cmd = TPC_Configure E \<and> current_state c = kIdle
     then (let c = InitPcieDriver c in
       case (if is_configured c then (Done True, c) else Configure E arguments c) of
         (Done status, c) \<Rightarrow> (Done status, set_readout_state (if status then c\<lparr>current_state := kConfigured\<rparr> else c))
       | (r, c) \<Rightarrow> (r, c))
     else if cmd = TPC_Start_Run E \<and> current_state c = kConfigured
     then (case StartRun E (c\<lparr>current_state := kRunning\<rparr>) of
         (Done _, c) \<Rightarrow> (Done True, set_readout_state c)
       | (r, c) \<Rightarrow> (r, c))
     else if cmd = TPC_Stop_Run E \<and> current_state c = kRunning
     then (Done True, set_readout_state (snd (StopRun (c\<lparr>current_state := kStopped\<rparr>))))
     else if cmd = TPC_Reset_Run E \<and> current_state c = kStopped
     then (case ResetRun E c of
         (Done _, c) \<Rightarrow> (Done True, set_readout_state (c\<lparr>current_state := kConfigured\<rparr>))
       | (r, c) \<Rightarrow> (r, c))
     else if cmd = TPC_Query_Hardware_Status E
     then (Done True, set_readout_state (if is_configured c then Controller_ReadStatus E c else c))
     else (Done False, set_readout_state c))"

definition SendCallback :: "u16 \<Rightarrow> bool \<Rightarrow> ctl \<Rightarrow> ctl" where
  "SendCallback command success c =
     (let acknowledge = (if success then 0xFAB else 0xDEAD);
          c = call_monitor (setLastCommandStatus acknowledge) (call_monitor (setLastCommand command) c)
      in c\<lparr>packets := packets c @ [(command, monitor c)]\<rparr>)"

definition SetRunning :: "bool \<Rightarrow> ctl \<Rightarrow> ctl" where
  "SetRunning run c = c\<lparr>ctl_running := run\<rparr>"

text \<open>One iteration of \<^verbatim>\<open>ReceiveCommand\<close>, and the loop over the commands that arrive.  The clock advances with every
  command, so that the environment may answer differently each time.\<close>

definition receive_one :: "ctl_env \<Rightarrow> u16 \<times> u32 list \<Rightarrow> ctl \<Rightarrow> unit result \<times> ctl" where
  "receive_one E command c = (case HandleCommand E command (c\<lparr>handler := tick (handler c)\<rparr>) of
     (Done response, c) \<Rightarrow> (Done (), if fst command = COM_HeartBeat E then c else SendCallback (fst command) response c)
   | (Raise, c) \<Rightarrow> (Raise, c)
   | (Terminate, c) \<Rightarrow> (Terminate, c))"

fun ReceiveCommand :: "ctl_env \<Rightarrow> (u16 \<times> u32 list) list \<Rightarrow> ctl \<Rightarrow> unit result \<times> ctl" where
  "ReceiveCommand E [] c = (Done (), c)"
| "ReceiveCommand E (command # commands) c =
     (if \<not> ctl_running c then (Done (), c)
      else case receive_one E command c of (Done _, c) \<Rightarrow> ReceiveCommand E commands c | r \<Rightarrow> r)"

definition Run :: "ctl_env \<Rightarrow> (u16 \<times> u32 list) list \<Rightarrow> ctl \<Rightarrow> unit result \<times> ctl" where
  "Run E commands c = ReceiveCommand E commands (c\<lparr>ctl_running := True\<rparr>)"

section \<open>Steps\<close>

text \<open>The collection thread works on the data handler while it exists; it may end the run by itself, it never starts
  one.\<close>

inductive ctl_step :: "ctl_env \<Rightarrow> ctl \<Rightarrow> ctl \<Rightarrow> bool" for E where
  command: "receive_one E command c = (Done (), c') \<Longrightarrow> ctl_step E c c'"
| status: "ctl_step E c (StatusControl_pass E c)"
| collect: "data_thread c \<Longrightarrow> (is_running d \<Longrightarrow> is_running (handler c)) \<Longrightarrow> ctl_step E c (c\<lparr>handler := d\<rparr>)"

inductive_cases ctl_stepE: "ctl_step E c c'"

inductive reachable :: "ctl_env \<Rightarrow> ctl \<Rightarrow> bool" for E where
  init: "construct E os running parts = (Done (), c) \<Longrightarrow> \<not> is_running (handler parts) \<Longrightarrow> reachable E c"
| step: "reachable E c \<Longrightarrow> ctl_step E c c' \<Longrightarrow> reachable E c'"

definition ctl_inv :: "ctl \<Rightarrow> bool" where
  "ctl_inv c \<longleftrightarrow> (is_configured c \<longleftrightarrow> current_state c \<noteq> kIdle) \<and> (is_configured c \<longrightarrow> is_initialized (pcie_interface c))
     \<and> (data_thread c \<longrightarrow> current_state c = kRunning) \<and> (is_running (handler c) \<longrightarrow> data_thread c)"

text \<open>The transitions that the commands and the automatic stop may take.\<close>

fun legal :: "State \<Rightarrow> State \<Rightarrow> bool" where
  "legal kIdle kConfigured = True"
| "legal kConfigured kRunning = True"
| "legal kRunning kStopped = True"
| "legal kStopped kConfigured = True"
| "legal s s' = (s = s')"

lemma legal_refl [simp]: "legal s s" by (cases s) simp_all

lemma is_initialized_GetFemStatus [simp]: "is_initialized (snd (GetFemStatus drv b p)) = is_initialized p"
  by (simp add: GetFemStatus_def PCIeSendBuffer_def PCIeRecvBuffer_def print_status_def fem_status_num_word_def Let_def case_prod_beta)

lemma is_initialized_board_words [simp]: "is_initialized (snd (board_words drv bs p)) = is_initialized p"
  by (induction bs arbitrary: p) (simp_all add: GetBoardStatus_def Let_def case_prod_beta)

lemma is_initialized_ReadStatus [simp]: "is_initialized (snd (ReadStatus P drv bs False s p)) = is_initialized p"
  by (simp add: ReadStatus_def Let_def case_prod_beta)

lemma Controller_ReadStatus_fields:
  "current_state (Controller_ReadStatus E c) = current_state c" "is_configured (Controller_ReadStatus E c) = is_configured c"
  "data_thread (Controller_ReadStatus E c) = data_thread c" "pending_reason (Controller_ReadStatus E c) = pending_reason c"
  "is_initialized (pcie_interface (Controller_ReadStatus E c)) = is_initialized (pcie_interface c)"
  "is_running (handler (Controller_ReadStatus E c)) = is_running (handler c)"
  "run_id (Controller_ReadStatus E c) = run_id c" "runid_file (Controller_ReadStatus E c) = runid_file c"
  "config (Controller_ReadStatus E c) = config c" "disk_stop_requested (handler (Controller_ReadStatus E c)) = disk_stop_requested (handler c)"
  by (simp_all add: Controller_ReadStatus_def publish_def SetDataHandlerStatus_def GetMetrics_def Let_def case_prod_beta)

lemma call_monitor_fields [simp]:
  "current_state (call_monitor m c) = current_state c" "is_configured (call_monitor m c) = is_configured c"
  "data_thread (call_monitor m c) = data_thread c" "pcie_interface (call_monitor m c) = pcie_interface c"
  "handler (call_monitor m c) = handler c" "pending_reason (call_monitor m c) = pending_reason c" "run_id (call_monitor m c) = run_id c"
  "runid_file (call_monitor m c) = runid_file c" "config (call_monitor m c) = config c" "monitor (call_monitor m c) = monitor c @ [m]"
  by (simp_all add: call_monitor_def)

lemma PersistRunId_fields:
  "current_state (snd (PersistRunId E c)) = current_state c" "is_configured (snd (PersistRunId E c)) = is_configured c"
  "data_thread (snd (PersistRunId E c)) = data_thread c" "pcie_interface (snd (PersistRunId E c)) = pcie_interface c"
  "handler (snd (PersistRunId E c)) = handler c" "config (snd (PersistRunId E c)) = config c"
  "pending_reason (snd (PersistRunId E c)) = pending_reason c" "monitor (snd (PersistRunId E c)) = monitor c"
  by (simp_all add: PersistRunId_def Let_def split: option.splits)

lemma is_running_Reset [simp]: "is_running (snd (Reset env run d)) = is_running d"
  by (simp add: Reset_def InitNvmePathsFromEnv_def Let_def)

lemma run_stages_no_terminate:
  assumes "\<And>f c. f \<in> set fs \<Longrightarrow> fst (f c) \<noteq> Terminate"
  shows "fst (run_stages fs c) \<noteq> Terminate"
  using assms
proof (induction fs arbitrary: c)
  case (Cons f fs)
  have "fst (f c) \<noteq> Terminate" "\<And>c. fst (run_stages fs c) \<noteq> Terminate" using Cons by simp_all
  then show ?case by (cases "f c") (auto split: result.splits bool.splits)
qed simp

lemma Configure_no_terminate: "fst (Configure E args c) \<noteq> Terminate"
proof -
  have "fst (note_ret r c) \<noteq> Terminate" for r c by (cases r) (simp_all add: note_ret_def)
  moreover have "fst (choose_disk E c) \<noteq> Terminate" "fst (load_stage E args c) \<noteq> Terminate"
    "fst (merge_stage E c) \<noteq> Terminate" "fst (crate_stage c) \<noteq> Terminate" "fst (pcie_stage E c) \<noteq> Terminate" for c
    by (simp_all add: choose_disk_def load_stage_def merge_stage_def crate_stage_def pcie_stage_def Let_def
        split: option.splits prod.splits)
  ultimately show ?thesis unfolding Configure_def
    by (intro run_stages_no_terminate)
      (auto simp: pcie_ctrl_stage_def xmit_stage_def light_stage_def charge_stage_def trigger_stage_def handler_stage_def
        split: prod.splits)
qed

lemma early_inv: "early c c' \<Longrightarrow> \<not> is_configured c \<Longrightarrow> ctl_inv c \<Longrightarrow> ctl_inv c'"
  by (auto simp: ctl_inv_def early_def)

lemmas run_defs = set_readout_state_def StartRun_def StopRun_def SetRun_def ctl_inv_def Let_def

lemma ResetRun_Done:
  assumes "ResetRun E c = (r, c')"
  shows "r \<noteq> Terminate" "current_state c' = current_state c" "is_configured c' = is_configured c" "data_thread c' = data_thread c"
    "pcie_interface c' = pcie_interface c" "is_running (handler c') = is_running (handler c)"
    "pending_reason c' = pending_reason c" "monitor c' = monitor c"
  using assms by (auto simp: ResetRun_def Let_def PersistRunId_fields split: option.splits)

lemma HandleCommand_configure:
  assumes "ctl_inv c" "current_state c = kIdle" "HandleCommand E (TPC_Configure E, args) c = (r, c')"
  shows "r \<noteq> Terminate \<and> (\<forall>ok. r = Done ok \<longrightarrow> ctl_inv c' \<and> current_state c' = (if ok then kConfigured else kIdle)
    \<and> last (monitor c') = setReadoutState (state_code (current_state c')))"
proof -
  let ?c = "InitPcieDriver c"
  have conf: "\<not> is_configured ?c" "ctl_inv ?c" "current_state ?c = kIdle"
    using assms(1,2) by (auto simp: ctl_inv_def InitPcieDriver_def)
  obtain q d where q: "Configure E args ?c = (q, d)" by fastforce
  have "q \<noteq> Terminate" using Configure_no_terminate [of E args ?c] q by simp
  then show ?thesis
  proof (cases q)
    case (Done ok)
    note D = Configure_Done [OF q [unfolded Done]]
    have "ctl_inv (if ok then d\<lparr>current_state := kConfigured\<rparr> else d)"
      using D early_inv [of ?c d] conf by (cases ok) (auto simp: ctl_inv_def)
    moreover have "r = Done ok" "c' = set_readout_state (if ok then d\<lparr>current_state := kConfigured\<rparr> else d)"
      using assms(2,3) q Done conf by (simp_all add: HandleCommand_def)
    ultimately show ?thesis using D(1) conf by (simp add: set_readout_state_def ctl_inv_def)
  qed (use assms(2,3) q conf in \<open>simp_all add: HandleCommand_def\<close>)
qed

text \<open>The state machine as a table: which command each state accepts, and where it leads.\<close>

definition accepted_in :: "ctl_env \<Rightarrow> State \<Rightarrow> u16" where
  "accepted_in E s = (case s of kIdle \<Rightarrow> TPC_Configure E | kConfigured \<Rightarrow> TPC_Start_Run E | kRunning \<Rightarrow> TPC_Stop_Run E
     | kStopped \<Rightarrow> TPC_Reset_Run E)"

fun next_state :: "State \<Rightarrow> State" where
  "next_state kIdle = kConfigured"
| "next_state kConfigured = kRunning"
| "next_state kRunning = kStopped"
| "next_state kStopped = kConfigured"

lemma HandleCommand_cases:
  obtains (configure) "fst command = TPC_Configure E" "current_state c = kIdle"
  | (start) "fst command = TPC_Start_Run E" "current_state c = kConfigured" "HandleCommand E command c =
      (case StartRun E (c\<lparr>current_state := kRunning\<rparr>) of (Done _, c) \<Rightarrow> (Done True, set_readout_state c) | (r, c) \<Rightarrow> (r, c))"
  | (stop) "fst command = TPC_Stop_Run E" "current_state c = kRunning"
      "HandleCommand E command c = (Done True, set_readout_state (snd (StopRun (c\<lparr>current_state := kStopped\<rparr>))))"
  | (reset) "fst command = TPC_Reset_Run E" "current_state c = kStopped" "HandleCommand E command c =
      (case ResetRun E c of (Done _, c) \<Rightarrow> (Done True, set_readout_state (c\<lparr>current_state := kConfigured\<rparr>)) | (r, c) \<Rightarrow> (r, c))"
  | (query) "fst command = TPC_Query_Hardware_Status E"
      "HandleCommand E command c = (Done True, set_readout_state (if is_configured c then Controller_ReadStatus E c else c))"
  | (invalid) "fst command \<noteq> accepted_in E (current_state c)" "HandleCommand E command c = (Done False, set_readout_state c)"
proof -
  obtain cmd args where cmd: "command = (cmd, args)" by (cases command)
  let ?A = "cmd = TPC_Configure E \<and> current_state c = kIdle" and ?B = "cmd = TPC_Start_Run E \<and> current_state c = kConfigured"
  let ?C = "cmd = TPC_Stop_Run E \<and> current_state c = kRunning" and ?D = "cmd = TPC_Reset_Run E \<and> current_state c = kStopped"
  let ?Q = "cmd = TPC_Query_Hardware_Status E"
  consider (A) ?A | (B) "\<not> ?A" ?B | (C) "\<not> ?A" "\<not> ?B" ?C | (D) "\<not> ?A" "\<not> ?B" "\<not> ?C" ?D
    | (Q) "\<not> ?A" "\<not> ?B" "\<not> ?C" "\<not> ?D" ?Q | (I) "\<not> ?A" "\<not> ?B" "\<not> ?C" "\<not> ?D" "\<not> ?Q" by argo
  then show ?thesis
  proof cases
    case A then show ?thesis by (intro configure) (simp_all add: cmd)
  next
    case B show ?thesis by (rule start) (use B in \<open>auto simp: cmd HandleCommand_def\<close>)
  next
    case C show ?thesis by (rule stop) (use C in \<open>auto simp: cmd HandleCommand_def\<close>)
  next
    case D show ?thesis by (rule reset) (use D in \<open>auto simp: cmd HandleCommand_def\<close>)
  next
    case Q
    then have "HandleCommand E command c = (Done True, set_readout_state (if is_configured c then Controller_ReadStatus E c else c))"
      unfolding HandleCommand_def cmd by (simp only: prod.case if_False if_True simp_thms)
    then show ?thesis using query Q(5) cmd by simp
  next
    case I
    then have "HandleCommand E command c = (Done False, set_readout_state c)"
      unfolding HandleCommand_def cmd by (simp only: prod.case if_False simp_thms)
    moreover have "fst command \<noteq> accepted_in E (current_state c)"
      using I cmd by (cases "current_state c") (auto simp: accepted_in_def)
    ultimately show ?thesis by (intro invalid)
  qed
qed

lemma HandleCommand_inv:
  assumes inv: "ctl_inv c" and h: "HandleCommand E command c = (r, c')"
  shows "r \<noteq> Terminate \<and> (\<forall>ok. r = Done ok \<longrightarrow> ctl_inv c' \<and> legal (current_state c) (current_state c')
    \<and> last (monitor c') = setReadoutState (state_code (current_state c')))"
proof (cases rule: HandleCommand_cases [of command E c])
  case configure
  obtain args where "command = (TPC_Configure E, args)" using configure by (cases command) auto
  then show ?thesis using HandleCommand_configure [OF inv configure(2)] h configure(2) by auto
next
  case start
  then have "\<not> data_thread c" using inv by (auto simp: ctl_inv_def)
  then show ?thesis using start h inv by (auto simp: run_defs split: if_splits)
next
  case reset
  obtain q d where "ResetRun E c = (q, d)" by fastforce
  with ResetRun_Done [OF this] reset h inv show ?thesis by (cases q) (auto simp: run_defs)
next
  case query
  then show ?thesis using h inv by (auto simp: run_defs Controller_ReadStatus_fields)
qed (use h inv in \<open>auto simp: run_defs\<close>)

lemma ApplyPendingRunStop_inv:
  "ctl_inv c \<Longrightarrow> ctl_inv (ApplyPendingRunStop c) \<and> legal (current_state c) (current_state (ApplyPendingRunStop c))"
  by (auto simp: ApplyPendingRunStop_def poll_stop_def mark_stopped_def finish_stop_def run_defs)

lemma StatusControl_pass_inv:
  assumes "ctl_inv c"
  shows "ctl_inv (StatusControl_pass E c) \<and> legal (current_state c) (current_state (StatusControl_pass E c))"
  using ApplyPendingRunStop_inv [OF assms]
  by (simp add: StatusControl_pass_def ctl_inv_def Controller_ReadStatus_fields)

lemma SendCallback_fields [simp]:
  "current_state (SendCallback m b c) = current_state c" "is_configured (SendCallback m b c) = is_configured c"
  "data_thread (SendCallback m b c) = data_thread c" "pcie_interface (SendCallback m b c) = pcie_interface c"
  "handler (SendCallback m b c) = handler c"
  by (simp_all add: SendCallback_def Let_def)

lemma receive_one_inv:
  assumes "ctl_inv c" and "receive_one E command c = (r, c')"
  shows "r \<noteq> Terminate \<and> (r = Done () \<longrightarrow> ctl_inv c' \<and> legal (current_state c) (current_state c'))"
proof -
  have inv: "ctl_inv (c\<lparr>handler := tick (handler c)\<rparr>)" using assms(1) by (simp add: ctl_inv_def tick_def)
  obtain q d where q: "HandleCommand E command (c\<lparr>handler := tick (handler c)\<rparr>) = (q, d)" by fastforce
  show ?thesis
    using HandleCommand_inv [OF inv q] assms(2) q by (cases q) (auto simp: receive_one_def ctl_inv_def split: if_splits)
qed

lemma ctl_step_inv:
  assumes "ctl_inv c" and "ctl_step E c c'"
  shows "ctl_inv c' \<and> legal (current_state c) (current_state c')"
  using assms(2)
proof cases
  case (command command)
  then show ?thesis using receive_one_inv [OF assms(1)] by blast
next
  case status
  then show ?thesis using StatusControl_pass_inv [OF assms(1)] by simp
next
  case (collect d)
  then show ?thesis using assms(1) by (auto simp: ctl_inv_def)
qed

lemma construct_inv:
  assumes "construct E os running parts = (Done (), c)" and "\<not> is_running (handler parts)"
  shows "ctl_inv c"
proof -
  have "current_state (GetEnvVariables os d) = current_state d" "is_configured (GetEnvVariables os d) = is_configured d"
    "data_thread (GetEnvVariables os d) = data_thread d" "handler (GetEnvVariables os d) = handler d" for d
    by (simp_all add: GetEnvVariables_def Let_def split: option.splits)
  then show ?thesis using assms by (auto simp: construct_def TryStartMirrorDaemon_def ctl_inv_def Let_def split: option.splits if_splits)
qed

lemma reachable_inv: "reachable E c \<Longrightarrow> ctl_inv c"
proof (induction rule: reachable.induct)
  case init
  then show ?case by (rule construct_inv)
next
  case step
  then show ?case using ctl_step_inv by blast
qed

section \<open>Properties\<close>


definition codes :: "ctl_env \<Rightarrow> u16 list" where
  "codes E = [TPC_Configure E, TPC_Start_Run E, TPC_Stop_Run E, TPC_Reset_Run E, TPC_Query_Hardware_Status E]"

text \<open>C5: A command that returns refines the table: it moves to the next state exactly when it is the command that the
  current state accepts and is acknowledged; any acknowledged command is that one or a status query; apart
  from the configuration the accepted command is always acknowledged; and every other command is refused and
  changes nothing but the reported state.\<close>
theorem HandleCommand_refines_table:
  assumes "distinct (codes E)" and "HandleCommand E (cmd, args) c = (Done ok, c')" and "reachable E c"
  shows "current_state c' = (if ok \<and> cmd = accepted_in E (current_state c) then next_state (current_state c) else current_state c)
    \<and> (ok \<longrightarrow> cmd \<in> {accepted_in E (current_state c), TPC_Query_Hardware_Status E})
    \<and> (cmd = accepted_in E (current_state c) \<longrightarrow> ok \<or> current_state c = kIdle)
    \<and> (cmd \<notin> {accepted_in E (current_state c), TPC_Query_Hardware_Status E} \<longrightarrow> \<not> ok \<and> c' = set_readout_state c)"
proof -
  have inv: "ctl_inv c" using assms(3) by (rule reachable_inv)
  show ?thesis
  proof (cases rule: HandleCommand_cases [of "(cmd, args)" E c])
    case configure
    then have "HandleCommand E (TPC_Configure E, args) c = (Done ok, c')" using assms(2) by simp
    from HandleCommand_configure [OF inv configure(2) this] show ?thesis
      using configure by (auto simp: accepted_in_def)
  next
    case start
    then have "cmd = accepted_in E (current_state c)" "ok" "current_state c' = kRunning"
      using assms(2) by (auto simp: accepted_in_def run_defs split: if_splits)
    then show ?thesis using start(2) by simp
  next
    case stop
    then show ?thesis using assms(2) by (auto simp: accepted_in_def run_defs)
  next
    case reset
    obtain q d where "ResetRun E c = (q, d)" by fastforce
    then show ?thesis using reset assms(2) by (cases q) (auto simp: accepted_in_def run_defs)
  next
    case query
    then have "cmd \<noteq> accepted_in E (current_state c)" using assms(1) by (cases "current_state c") (auto simp: accepted_in_def codes_def)
    then show ?thesis using query assms(2) by (auto simp: set_readout_state_def Controller_ReadStatus_fields)
  next
    case invalid
    have "ok = False" "c' = set_readout_state c" using invalid assms(2) by simp_all
    then show ?thesis using invalid(1) by (simp add: set_readout_state_def)
  qed
qed

text \<open>The run number can be stored in the configuration (it was stored there when the run was configured).\<close>

definition subrun_settable :: "ctl \<Rightarrow> bool" where
  "subrun_settable c \<longleftrightarrow> (\<forall>v. set_path2 ''data_handler'' ''subrun'' v (config c) \<noteq> None)"

lemma ResetRun_settable:
  assumes "subrun_settable c"
  shows "\<exists>c'. ResetRun E c = (Done True, c') \<and> handler c' = snd (Reset (ce_io E) (unat (run_id c')) (handler c))
    \<and> data_thread c' = data_thread c \<and> run_id c' = run_id (snd (PersistRunId E c))"
  using assms by (auto simp: ResetRun_def Let_def PersistRunId_fields subrun_settable_def split: option.splits)

lemma HandleCommand_reset:
  assumes "current_state c = kStopped" and "subrun_settable c"
  shows "\<exists>c'. HandleCommand E (TPC_Reset_Run E, args) c = (Done True, c') \<and> current_state c' = kConfigured
    \<and> handler c' = snd (Reset (ce_io E) (unat (run_id c')) (handler c)) \<and> data_thread c' = data_thread c
    \<and> run_id c' = run_id (snd (PersistRunId E c))"
  using assms ResetRun_settable [OF assms(2), of E] by (auto simp: HandleCommand_def set_readout_state_def)

lemma Reset_clears:
  "\<not> disk_stop_requested (snd (Reset env run d))" "\<not> disk_full (snd (Reset env run d))" "\<not> stop_write (snd (Reset env run d))"
  by (simp_all add: Reset_def InitNvmePathsFromEnv_def Let_def)

lemma poll_stop_disk:
  assumes "current_state c = kRunning" and "disk_stop_requested (handler c)"
  shows "poll_stop c = (True, c\<lparr>pending_reason := kDiskFull\<rparr>)"
  using assms by (simp add: poll_stop_def Poll_def DiskStopRequested_def ShouldStopRun_def)

lemma StatusControl_pass_disk:
  assumes "current_state c = kRunning" and "disk_stop_requested (handler c)"
  shows "let s = StatusControl_pass E c in current_state s = kStopped \<and> \<not> data_thread s \<and> \<not> is_running (handler s)
    \<and> pending_reason s = kNone \<and> config s = config c \<and> run_id s = run_id c \<and> runid_file s = runid_file c"
  using poll_stop_disk [OF assms]
  by (simp add: StatusControl_pass_def ApplyPendingRunStop_def mark_stopped_def finish_stop_def run_defs Controller_ReadStatus_fields)


text \<open>C38: The automatic stop is not atomic: after the status thread has marked the run as stopped and before it has
  joined the collection thread, the ground may send a reset and a start.  Both are accepted in that window,
  and the start assigns a new thread to the member that still holds the old one, which ends the process.\<close>
theorem auto_stop_race:
  assumes "reachable E c" and "current_state c = kRunning" and "data_thread c" and "disk_stop_requested (handler c)"
    and "subrun_settable c" and "\<And>t. thread_starts E t"
  shows "\<exists>c1 c2. poll_stop c = (True, c1) \<and> HandleCommand E (TPC_Reset_Run E, []) (mark_stopped c1) = (Done True, c2)
    \<and> fst (HandleCommand E (TPC_Start_Run E, []) c2) = Terminate"
proof -
  let ?c1 = "c\<lparr>pending_reason := kDiskFull\<rparr>"
  obtain c2 where c2: "HandleCommand E (TPC_Reset_Run E, []) (mark_stopped ?c1) = (Done True, c2)" "current_state c2 = kConfigured"
    "data_thread c2 = data_thread (mark_stopped ?c1)"
    using HandleCommand_reset [of "mark_stopped ?c1" E "[]"] assms(5) by (auto simp: mark_stopped_def subrun_settable_def)
  have "fst (HandleCommand E (TPC_Start_Run E, []) c2) = Terminate"
    using c2(2,3) assms(3,6) by (simp add: HandleCommand_def run_defs now_def mark_stopped_def)
  then show ?thesis using poll_stop_disk [OF assms(2,4)] c2(1) by blast
qed

section \<open>A concrete run\<close>

definition base_os :: os_view where
  "base_os = default_os\<lparr>getenv := (\<lambda>k. if k = ''TPC_DAQ_BASEDIR'' then Some ''/opt'' else if k = ''DATA_BASE_DIR'' then Some ''/nvme0'' else None)\<rparr>"

lemma sample_construct: "construct sample_ctl_env base_os True sample_ctl = (Done (), sample_ctl)"
proof -
  have "cfg_bool ''controller'' ''log_to_file'' sample_setup = Some False" by code_simp
  then show ?thesis
    by (simp add: construct_def TryStartMirrorDaemon_def MirrorDaemonStartRequested_def EnvFlagTrue_def GetEnvVariables_def base_os_def LoadConfig_def sample_ctl_def sample_ctl_env_def Let_def)
qed

lemma sample_constructed: "reachable sample_ctl_env sample_ctl"
  by (rule reachable.init [OF sample_construct]) (simp add: sample_ctl_def sample_dh_def)

lemma sample_full_settable: "set_path2 ''data_handler'' ''subrun'' v sample_full \<noteq> None"
proof -
  have "field ''data_handler'' sample_full \<bind> set_field ''x'' JNull \<noteq> None" "sample_full \<noteq> JNull" by code_simp+
  then obtain x where x: "field ''data_handler'' sample_full = Some x" "set_field ''x'' JNull x \<noteq> None"
    by (cases "field ''data_handler'' sample_full") auto
  then obtain y where "set_field ''subrun'' v x = Some y" by (cases x) auto
  moreover have "field k j = Some x \<Longrightarrow> set_field k y j \<noteq> None" for k j by (cases j) auto
  ultimately show ?thesis using x(1) by (simp add: set_path2_def)
qed

lemma sample_configured:
  "\<exists>c. reachable sample_ctl_env c \<and> current_state c = kConfigured \<and> config c = sample_full"
proof -
  let ?t = "sample_ctl\<lparr>handler := tick (handler sample_ctl)\<rparr>"
  have like: "sample_like (InitPcieDriver ?t)" using sample_ctl_like by (simp add: sample_like_def InitPcieDriver_def)
  obtain c where c: "Configure sample_ctl_env [1] (InitPcieDriver ?t) = (Done True, c)" "config c = sample_full"
    using sample_configure [OF like] by blast
  have "HandleCommand sample_ctl_env (TPC_Configure sample_ctl_env, [1]) ?t = (Done True, set_readout_state (c\<lparr>current_state := kConfigured\<rparr>))"
    using c by (simp add: HandleCommand_def sample_ctl_def InitPcieDriver_def)
  then have "receive_one sample_ctl_env (TPC_Configure sample_ctl_env, [1]) sample_ctl
      = (Done (), SendCallback (TPC_Configure sample_ctl_env) True (set_readout_state (c\<lparr>current_state := kConfigured\<rparr>)))"
    by (simp add: receive_one_def) (simp add: sample_ctl_env_def)
  from reachable.step [OF sample_constructed ctl_step.command [OF this]] c(2) show ?thesis
    by (intro exI [of _ "SendCallback (TPC_Configure sample_ctl_env) True (set_readout_state (c\<lparr>current_state := kConfigured\<rparr>))"])
      (simp add: set_readout_state_def SendCallback_def Let_def)
qed

lemma sample_running:
  "\<exists>c. reachable sample_ctl_env c \<and> current_state c = kRunning \<and> data_thread c \<and> disk_stop_requested (handler c) \<and> subrun_settable c"
proof -
  obtain c where c: "reachable sample_ctl_env c" "current_state c = kConfigured" "config c = sample_full"
    using sample_configured by blast
  have dt: "\<not> data_thread c" using reachable_inv [OF c(1)] c(2) by (auto simp: ctl_inv_def)
  let ?t = "c\<lparr>handler := tick (handler c)\<rparr>"
  obtain g where g: "HandleCommand sample_ctl_env (TPC_Start_Run sample_ctl_env, []) ?t = (Done True, g)" "current_state g = kRunning"
    "data_thread g" "config g = sample_full"
    using c(2,3) dt by (simp add: HandleCommand_def run_defs sample_ctl_env_def)
  have "receive_one sample_ctl_env (TPC_Start_Run sample_ctl_env, []) c = (Done (), SendCallback (TPC_Start_Run sample_ctl_env) True g)"
    using g(1) by (simp add: receive_one_def) (simp add: sample_ctl_env_def)
  from reachable.step [OF c(1) ctl_step.command [OF this]]
  have r: "reachable sample_ctl_env (SendCallback (TPC_Start_Run sample_ctl_env) True g)" .
  let ?g = "SendCallback (TPC_Start_Run sample_ctl_env) True g"
  let ?d = "(handler ?g)\<lparr>disk_stop_requested := True\<rparr>"
  have "ctl_step sample_ctl_env ?g (?g\<lparr>handler := ?d\<rparr>)" by (rule ctl_step.collect) (use g(3) in simp_all)
  from reachable.step [OF r this] show ?thesis
    using g sample_full_settable
    by (intro exI [of _ "?g\<lparr>handler := ?d\<rparr>"]) (simp add: subrun_settable_def SendCallback_def Let_def)
qed


theorem HandleCommand_refines_table_witness:
  "HandleCommand sample_ctl_env (2, []) sample_ctl = (Done False, set_readout_state sample_ctl)"
proof -
  have "HandleCommand sample_ctl_env (2, []) sample_ctl = (Done False, snd (HandleCommand sample_ctl_env (2, []) sample_ctl))"
    by (simp add: HandleCommand_def sample_ctl_env_def sample_ctl_def)
  from HandleCommand_refines_table [OF _ this sample_constructed] this show ?thesis
    by (simp add: codes_def accepted_in_def sample_ctl_env_def sample_ctl_def)
qed


theorem auto_stop_race_witness:
  "\<exists>c c2. reachable sample_ctl_env c \<and> fst (HandleCommand sample_ctl_env (TPC_Start_Run sample_ctl_env, []) c2) = Terminate"
proof -
  obtain c where c: "reachable sample_ctl_env c" "current_state c = kRunning" "data_thread c" "disk_stop_requested (handler c)"
    "subrun_settable c" using sample_running by blast
  have "\<And>t. thread_starts sample_ctl_env t" by (simp add: sample_ctl_env_def)
  then show ?thesis using auto_stop_race [OF c] c(1) by blast
qed

end
