(* ===== verification/Tpc_Service.thy ===== *)
theory Tpc_Service
  imports Controller
begin

text \<open>
  The readout service of \<^verbatim>\<open>daemon/tpc_daq.cpp\<close>: one thread constructs the controller and runs its command loop, the main
  thread waits for a signal and then stops the controller and joins the thread.  The network threads of asio are
  not modelled: they are stopped and joined without condition.
\<close>

section \<open>The controller thread\<close>

text \<open>The destructor joins the status thread and releases the devices and the data handler, but neither stops the run nor joins
  the collection thread: destroying a thread that is still joinable ends the process.\<close>

definition Controller_destroy :: "ctl \<Rightarrow> unit result" where
  "Controller_destroy c = (if data_thread c then Terminate else Done ())"

text \<open>Exceptions of the constructor and of the command loop are caught and only logged; the controller is released.  When
  the constructor throws there is no object to release.\<close>

definition TpcRunController :: "ctl_env \<Rightarrow> os_view \<Rightarrow> (u16 \<times> u32 list) list \<Rightarrow> ctl \<Rightarrow> unit result \<times> ctl" where
  "TpcRunController E os commands parts = (case construct E os True parts of
     (Terminate, c) \<Rightarrow> (Terminate, c)
   | (Raise, c) \<Rightarrow> (Done (), c)
   | (Done _, c) \<Rightarrow> (case Init c of
       (False, c) \<Rightarrow> (Controller_destroy c, c)
     | (True, c) \<Rightarrow> (case Run E commands c of (Terminate, c) \<Rightarrow> (Terminate, c) | (_, c) \<Rightarrow> (Controller_destroy c, c))))"

text \<open>A command that throws leaves no collection thread behind: configuration and reset are the only ones that can, and neither
  is accepted during a run.\<close>

lemma run_stages_thread:
  assumes "\<And>f c. f \<in> set fs \<Longrightarrow> data_thread (snd (f c)) = data_thread c"
  shows "data_thread (snd (run_stages fs c)) = data_thread c"
  using assms
proof (induction fs arbitrary: c)
  case (Cons f fs)
  have "data_thread (snd (f c)) = data_thread c" "\<And>c. data_thread (snd (run_stages fs c)) = data_thread c" using Cons by simp_all
  then show ?case by (cases "f c") (auto split: result.splits bool.splits)
qed simp

lemma note_ret_thread [simp]: "data_thread (snd (note_ret r c)) = data_thread c"
  by (cases r) (simp_all add: note_ret_def call_monitor_def)

lemma run_program_thread [simp]: "data_thread (run_program E is c) = data_thread c"
  by (simp add: run_program_def case_prod_beta)

lemma push_slots_thread [simp]: "data_thread (snd (push_slots ks c)) = data_thread c"
  by (induction ks c rule: push_slots.induct) (simp_all split: option.split)

lemma Configure_thread: "data_thread (snd (Configure E args c)) = data_thread c"
proof -
  have updates: "data_thread (c\<lparr>charge_static := w\<rparr>) = data_thread c" "data_thread (c\<lparr>trigger_ctrl := t\<rparr>) = data_thread c"
    "data_thread (c\<lparr>handler := d\<rparr>) = data_thread c" for c w t d by simp_all
  have "data_thread (snd (choose_disk E c)) = data_thread c" for c
    using PersistRunId_early [of c E] SelectNvmeDataDirForRun_early [of "snd (PersistRunId E c)" E]
    by (simp add: choose_disk_def early_def case_prod_beta)
  moreover have "data_thread (snd (load_stage E args c)) = data_thread c" for c
    by (simp add: load_stage_def Let_def split: option.split)
  moreover have "data_thread (snd (merge_stage E c)) = data_thread c" for c
    by (simp add: merge_stage_def Let_def split: option.split)
  moreover have "data_thread (snd (crate_stage c)) = data_thread c" for c
    by (simp add: crate_stage_def del: push_slots.simps split: option.split)
  moreover have "data_thread (snd (pcie_stage E c)) = data_thread c" for c
    by (simp add: pcie_stage_def call_monitor_def Let_def case_prod_beta split: option.split)
  moreover have "data_thread (snd (pcie_ctrl_stage E c)) = data_thread c" "data_thread (snd (xmit_stage E c)) = data_thread c"
    "data_thread (snd (light_stage E c)) = data_thread c" "data_thread (snd (charge_stage E c)) = data_thread c"
    "data_thread (snd (trigger_stage E c)) = data_thread c" "data_thread (snd (handler_stage E c)) = data_thread c" for c
    unfolding pcie_ctrl_stage_def xmit_stage_def light_stage_def charge_stage_def trigger_stage_def handler_stage_def
    by (simp_all only: note_ret_thread run_program_thread updates case_prod_beta)
  moreover have "data_thread (snd (Done True, c\<lparr>is_configured := True\<rparr>)) = data_thread c" for c by simp
  ultimately have "list_all (\<lambda>f. \<forall>c. data_thread (snd (f c)) = data_thread c)
     [choose_disk E, load_stage E args, merge_stage E, crate_stage, pcie_stage E, pcie_ctrl_stage E, xmit_stage E,
      light_stage E, charge_stage E, trigger_stage E, handler_stage E, \<lambda>c. (Done True, c\<lparr>is_configured := True\<rparr>)]"
    by (simp only: list.pred_inject simp_thms) simp
  then show ?thesis unfolding Configure_def by (intro run_stages_thread) (simp only: list_all_iff)
qed

lemma raise_without_thread:
  assumes inv: "ctl_inv c" and h: "HandleCommand E command c = (Raise, c')"
  shows "\<not> data_thread c'"
proof (cases rule: HandleCommand_cases [of command E c])
  case configure
  then show ?thesis using Configure_thread [of E "snd command" "InitPcieDriver c"] h inv
    by (auto simp: HandleCommand_def ctl_inv_def InitPcieDriver_def split: prod.splits result.splits if_splits)
next
  case start
  then show ?thesis using h inv by (auto simp: run_defs split: if_splits)
next
  case reset
  obtain q d where "ResetRun E c = (q, d)" by fastforce
  with ResetRun_Done [OF this] reset h inv show ?thesis by (cases q) (auto simp: run_defs)
qed (use h inv in \<open>auto simp: run_defs\<close>)

lemma ReceiveCommand_ends:
  assumes "ctl_inv c" and "ReceiveCommand E commands c = (r, c')"
  shows "r \<noteq> Terminate \<and> (data_thread c' \<longrightarrow> current_state c' = kRunning)"
  using assms
proof (induction commands arbitrary: c)
  case Nil
  then show ?case by (auto simp: ctl_inv_def)
next
  case (Cons command commands)
  show ?case
  proof (cases "ctl_running c")
    case True
    obtain q c1 where q: "receive_one E command c = (q, c1)" by fastforce
    have "ctl_inv (c\<lparr>handler := tick (handler c)\<rparr>)" using Cons.prems(1) by (simp add: ctl_inv_def tick_def)
    from raise_without_thread [OF this, of E command] have "q = Raise \<Longrightarrow> \<not> data_thread c1"
      using q by (auto simp: receive_one_def split: prod.splits result.splits)
    then show ?thesis using receive_one_inv [OF Cons.prems(1) q] Cons q True by (cases q) auto
  qed (use Cons.prems in \<open>auto simp: ctl_inv_def\<close>)
qed

lemma construct_idle:
  assumes "construct E os running parts = (Done (), c)"
  shows "current_state c = kIdle"
proof -
  have "current_state (GetEnvVariables os d) = current_state d" for d by (simp add: GetEnvVariables_def Let_def split: option.splits)
  then show ?thesis using assms by (auto simp: construct_def TryStartMirrorDaemon_def Let_def split: option.splits if_splits)
qed

lemma construct_no_thread: "fst (construct E os running parts) \<noteq> Terminate \<and> \<not> data_thread (snd (construct E os running parts))"
proof -
  have "data_thread (GetEnvVariables os d) = data_thread d" for d by (simp add: GetEnvVariables_def Let_def split: option.splits)
  then show ?thesis by (auto simp: construct_def TryStartMirrorDaemon_def Let_def split: option.splits if_splits)
qed


section \<open>Stopping the service\<close>

text \<open>\<^verbatim>\<open>Fresh\<close>: the thread has not constructed the controller; \<^verbatim>\<open>Built\<close>: it is constructed, its loop not entered; \<^verbatim>\<open>Looping\<close>: it
  reads commands; \<^verbatim>\<open>Finished\<close>: the thread function has returned.  \<^verbatim>\<open>sv_flag\<close> is \<^verbatim>\<open>is_running_\<close> of the controller,
  \<^verbatim>\<open>sv_collecting\<close> whether its collection thread is joinable.  Releasing the controller then ends the process
  (\<^verbatim>\<open>Main_killed\<close>).\<close>

datatype thread_stage = Fresh | Built | Looping | Finished

datatype main_stage = Main_waits | Main_joins | Main_done | Main_killed

record svc =
  sv_running :: bool
  sv_flag :: bool
  sv_thread :: thread_stage
  sv_collecting :: bool
  sv_main :: main_stage

definition service_start :: svc where
  "service_start = \<lparr>sv_running = True, sv_flag = False, sv_thread = Fresh, sv_collecting = False, sv_main = Main_waits\<rparr>"

definition main_wakes :: "svc \<Rightarrow> svc" where
  "main_wakes s = s\<lparr>sv_main := Main_joins, sv_flag := (if sv_thread s \<in> {Built, Looping} then False else sv_flag s)\<rparr>"

definition release :: "svc \<Rightarrow> svc" where
  "release s = s\<lparr>sv_thread := Finished, sv_main := (if sv_collecting s then Main_killed else sv_main s)\<rparr>"

inductive svc_step :: "svc \<Rightarrow> svc \<Rightarrow> bool" where
  signal: "svc_step s (s\<lparr>sv_running := False\<rparr>)"
| build: "sv_thread s = Fresh \<Longrightarrow> svc_step s (s\<lparr>sv_thread := Built, sv_flag := True\<rparr>)"
| build_throws: "sv_thread s = Fresh \<Longrightarrow> svc_step s (s\<lparr>sv_thread := Finished\<rparr>)"
| enter_loop: "sv_thread s = Built \<Longrightarrow> svc_step s (s\<lparr>sv_thread := Looping, sv_flag := True\<rparr>)"
| run: "sv_thread s = Looping \<Longrightarrow> svc_step s (s\<lparr>sv_collecting := collecting\<rparr>)"
| loop_throws: "sv_thread s = Looping \<Longrightarrow> \<not> sv_collecting s \<Longrightarrow> svc_step s (s\<lparr>sv_thread := Finished\<rparr>)"
| leave_loop: "sv_thread s = Looping \<Longrightarrow> \<not> sv_flag s \<Longrightarrow> svc_step s (release s)"
| wake: "sv_main s = Main_waits \<Longrightarrow> \<not> sv_running s \<Longrightarrow> svc_step s (main_wakes s)"
| join: "sv_main s = Main_joins \<Longrightarrow> sv_thread s = Finished \<Longrightarrow> svc_step s (s\<lparr>sv_main := Main_done\<rparr>)"

inductive_cases svc_stepE: "svc_step s s'"

text \<open>The main thread waits for a thread that was never told to stop.\<close>

definition hung :: svc where
  "hung = \<lparr>sv_running = False, sv_flag = True, sv_thread = Looping, sv_collecting = False, sv_main = Main_joins\<rparr>"

lemma hung_until_exception:
  assumes "svc_step s s'" and "sv_thread s = Looping" "sv_flag s" "sv_main s = Main_joins"
  shows "sv_main s' = Main_joins \<and> (sv_thread s' = Looping \<and> sv_flag s' \<or> sv_thread s' = Finished \<and> \<not> sv_collecting s)"
  using assms by (auto elim!: svc_stepE)

text \<open>A signal that arrives before the controller has entered its command loop is lost for the controller: either it does not exist
  yet, or its loop sets the flag again.  The service then hangs in the join until an exception ends the loop.\<close>

lemma early_signal_hangs: "svc_step\<^sup>*\<^sup>* service_start hung"
proof -
  let ?a = "service_start\<lparr>sv_running := False\<rparr>"
  have "svc_step service_start ?a" by (rule svc_step.signal)
  moreover have "svc_step ?a (main_wakes ?a)" by (rule svc_step.wake) (simp_all add: service_start_def)
  moreover have "svc_step (main_wakes ?a) ((main_wakes ?a)\<lparr>sv_thread := Built, sv_flag := True\<rparr>)"
    by (rule svc_step.build) (simp add: main_wakes_def service_start_def)
  moreover have "svc_step ((main_wakes ?a)\<lparr>sv_thread := Built, sv_flag := True\<rparr>) hung"
    using svc_step.enter_loop [of "(main_wakes ?a)\<lparr>sv_thread := Built, sv_flag := True\<rparr>"] by (simp add: hung_def main_wakes_def service_start_def)
  ultimately show ?thesis by (meson converse_rtranclp_into_rtranclp rtranclp.rtrancl_refl)
qed

text \<open>A signal during the command loop ends the service; during a run it ends it abnormally, without the handler being told
  to finish the file.\<close>

lemma late_signal:
  assumes "sv_thread s = Looping" and "sv_main s = Main_waits" and "\<not> sv_running s"
  shows "\<exists>s'. svc_step\<^sup>*\<^sup>* s s' \<and> sv_thread s' = Finished \<and> sv_main s' = (if sv_collecting s then Main_killed else Main_done)"
proof -
  let ?t = "release (main_wakes s)"
  have "svc_step s (main_wakes s)" using assms by (intro svc_step.wake) simp_all
  moreover have "svc_step (main_wakes s) ?t" using assms by (intro svc_step.leave_loop) (simp_all add: main_wakes_def)
  ultimately have t: "svc_step\<^sup>*\<^sup>* s ?t" by (meson converse_rtranclp_into_rtranclp rtranclp.rtrancl_refl)
  show ?thesis
  proof (cases "sv_collecting s")
    case True
    then show ?thesis using t by (intro exI [of _ ?t]) (simp add: release_def main_wakes_def)
  next
    case False
    then have "svc_step ?t (?t\<lparr>sv_main := Main_done\<rparr>)" by (intro svc_step.join) (simp_all add: release_def main_wakes_def)
    then show ?thesis using t False by (intro exI [of _ "?t\<lparr>sv_main := Main_done\<rparr>"]) (auto simp: release_def intro: rtranclp.rtrancl_into_rtrancl)
  qed
qed


end
