(* ===== verification/Mirror_Engine.thy ===== *)
theory Mirror_Engine
  imports Storage_Utils "HOL-Library.Multiset" "HOL-Library.List_Lexorder" "HOL-Library.Char_ord" "HOL-Library.Product_Lexorder"
begin

text \<open>
  The mirror daemon of \<^verbatim>\<open>daemon/mirror_engine.cpp\<close>: which file of the NVMe disks is copied next, how it is copied, and
  what is remembered about it.  Files are their content and modification time; the operating system view of
  the storage utilities chooses the backup drive.  One worker thread copies, the watcher and the scan enqueue;
  every access to the queues holds the mutex, so the operations here are the atomic steps.
\<close>

section \<open>Files\<close>

record FileStat =
  fs_size :: u64
  fs_mtime :: int

record mfile =
  content :: "u8 list"
  mtime :: int

type_synonym files = "string \<Rightarrow> mfile option"

definition StatFile :: "files \<Rightarrow> string \<Rightarrow> FileStat option" where
  "StatFile fs path = map_option (\<lambda>f. \<lparr>fs_size = of_nat (length (content f)), fs_mtime = mtime f\<rparr>) (fs path)"

definition PassesMinMtimeFilter :: "int \<Rightarrow> files \<Rightarrow> string \<Rightarrow> bool" where
  "PassesMinMtimeFilter min_mtime fs path = (if min_mtime = 0 then True
     else case StatFile fs path of None \<Rightarrow> False | Some st \<Rightarrow> fs_mtime st \<ge> min_mtime)"

definition NeedsCopy :: "files \<Rightarrow> string \<Rightarrow> string \<Rightarrow> bool" where
  "NeedsCopy fs src_path dst_path = (case StatFile fs src_path of None \<Rightarrow> False
   | Some src_stat \<Rightarrow> (case StatFile fs dst_path of None \<Rightarrow> True
     | Some dst_stat \<Rightarrow> fs_size src_stat \<noteq> fs_size dst_stat \<or> fs_mtime src_stat > fs_mtime dst_stat))"

section \<open>Names\<close>

definition kTofRunId :: u32 where "kTofRunId = 0xFFFFFFFF"

definition kWatchSubdirs :: "string list" where
  "kWatchSubdirs = [''readout_data'', ''trigger_data'', ''pps_data'', ''config_logs'', ''logs'', ''tof_data'']"

definition IsTofPath :: "string \<Rightarrow> bool" where
  "IsTofPath path \<longleftrightarrow> find_sub ''/tof_data/'' path \<noteq> None
     \<or> length path \<ge> 9 \<and> drop (length path - 9) path = ''/tof_data''"

record FileMeta =
  run_id :: u32
  nvme_index :: nat
  priority :: int
  segment :: int

text \<open>The digits from an offset, accumulated in 64 bits; the number and the offset after it.\<close>

definition ParseUintAfter :: "string \<Rightarrow> nat \<Rightarrow> (u32 \<times> nat) option" where
  "ParseUintAfter path off =
     (let ds = takeWhile isdigit (drop off path);
          parsed = foldl (\<lambda>v c. v * 10 + of_nat (digit_val c)) (0 :: u64) ds in
      if ds = [] then None
      else if parsed > 0xFFFFFFFF then None
      else Some (ucast parsed, off + length ds))"

definition char_at :: "string \<Rightarrow> nat \<Rightarrow> char \<Rightarrow> bool" where
  "char_at s i c \<longleftrightarrow> i < length s \<and> s ! i = c"

definition parse_segment :: "string \<Rightarrow> nat \<Rightarrow> int" where
  "parse_segment path off = (case ParseUintAfter path off of None \<Rightarrow> 0 | Some (v, _) \<Rightarrow> sint v)"

text \<open>A readout file needs the underscore after the run number; if it is missing, the run number stays and the
  next pattern is tried.\<close>

definition meta_readout :: "string \<Rightarrow> FileMeta \<Rightarrow> bool \<times> FileMeta" where
  "meta_readout path meta = (case find_sub ''pGRAMS_bin_'' path of None \<Rightarrow> (False, meta)
   | Some pos \<Rightarrow> (case ParseUintAfter path (pos + 11) of None \<Rightarrow> (False, meta)
     | Some (run, e) \<Rightarrow> let meta = meta\<lparr>run_id := run\<rparr> in
         if char_at path e (CHR ''_'') then (True, meta\<lparr>priority := 1, segment := parse_segment path (e + 1)\<rparr>)
         else (False, meta)))"

definition meta_segmented :: "string \<Rightarrow> int \<Rightarrow> string \<Rightarrow> FileMeta \<Rightarrow> bool \<times> FileMeta" where
  "meta_segmented pat prio path meta = (case find_sub pat path of None \<Rightarrow> (False, meta)
   | Some pos \<Rightarrow> (case ParseUintAfter path (pos + length pat) of None \<Rightarrow> (False, meta)
     | Some (run, e) \<Rightarrow> let meta = meta\<lparr>run_id := run, priority := prio\<rparr> in
         (True, if char_at path e (CHR ''_'') then meta\<lparr>segment := parse_segment path (e + 1)\<rparr> else meta)))"

definition meta_run :: "string \<Rightarrow> FileMeta \<Rightarrow> bool \<times> FileMeta" where
  "meta_run path meta = (case find_sub ''/run_'' path of None \<Rightarrow> (False, meta)
   | Some pos \<Rightarrow> (case ParseUintAfter path (pos + 5) of None \<Rightarrow> (False, meta)
     | Some (run, e) \<Rightarrow> (True, meta\<lparr>run_id := run, priority := 4\<rparr>)))"

fun first_match :: "(FileMeta \<Rightarrow> bool \<times> FileMeta) list \<Rightarrow> FileMeta \<Rightarrow> FileMeta" where
  "first_match [] meta = meta"
| "first_match (f # fs) meta = (case f meta of (True, meta) \<Rightarrow> meta | (False, meta) \<Rightarrow> first_match fs meta)"

definition ParseFileMeta :: "os_view \<Rightarrow> string \<Rightarrow> FileMeta" where
  "ParseFileMeta os path =
     (let meta = \<lparr>run_id = 0xFFFFFFFF, nvme_index = NvmeIndexForPath os path, priority = 9, segment = 0\<rparr> in
      if IsTofPath path then meta
      else first_match [meta_readout path, meta_segmented ''trigger_raw_'' 2 path, meta_segmented ''pps_data_'' 3 path,
        meta_run path] meta)"

section \<open>Queues\<close>

record PendingFile =
  pf_path :: string
  pf_dst :: string
  pf_meta :: FileMeta
  pf_size :: u64
  pf_mtime :: int

text \<open>\<^verbatim>\<open>run_queues\<close> is the ordered map from run number to files; \<^verbatim>\<open>state_file\<close> is the text of the state
  file.\<close>

record md =
  run_queues :: "(u32 \<times> PendingFile list) list"
  active_run_id :: "u32 option"
  tpc_copied_bytes :: u64
  tof_copied_bytes :: u64
  pending :: "string list"
  synced :: "string \<Rightarrow> FileStat option"
  state_file :: string
  md_running :: bool

fun queue_push :: "u32 \<Rightarrow> PendingFile \<Rightarrow> (u32 \<times> PendingFile list) list \<Rightarrow> (u32 \<times> PendingFile list) list" where
  "queue_push k x [] = [(k, [x])]"
| "queue_push k x ((k', xs) # q) =
     (if k = k' then (k', xs @ [x]) # q else if k < k' then (k, [x]) # (k', xs) # q else (k', xs) # queue_push k x q)"

definition queue_files :: "(u32 \<times> PendingFile list) list \<Rightarrow> u32 \<Rightarrow> PendingFile list" where
  "queue_files q k = (case map_of q k of None \<Rightarrow> [] | Some xs \<Rightarrow> xs)"

definition HasPending :: "md \<Rightarrow> bool" where
  "HasPending m \<longleftrightarrow> list_ex (\<lambda>(k, files). files \<noteq> []) (run_queues m)"

definition Enqueue :: "os_view \<Rightarrow> int \<Rightarrow> files \<Rightarrow> string \<Rightarrow> md \<Rightarrow> md" where
  "Enqueue os min_mtime fs src_path m =
     (if \<not> PassesMinMtimeFilter min_mtime fs src_path then m
      else case StatFile fs src_path of None \<Rightarrow> m
      | Some src_stat \<Rightarrow>
        let nvme = NvmeIndexForPath os src_path in
        (case SelectBackupRootForCopy os nvme (fs_size src_stat) of None \<Rightarrow> m
        | Some backup_root \<Rightarrow>
          let dst_path = MirrorDestinationPathToRoot os src_path backup_root in
          if dst_path = [] \<or> \<not> NeedsCopy fs src_path dst_path then m
          else let meta = (ParseFileMeta os src_path)\<lparr>nvme_index := nvme\<rparr> in
          if src_path \<in> set (pending m) then m
          else m\<lparr>pending := src_path # pending m,
                 run_queues := queue_push (run_id meta)
                   \<lparr>pf_path = src_path, pf_dst = dst_path, pf_meta = meta, pf_size = fs_size src_stat, pf_mtime = fs_mtime src_stat\<rparr>
                   (run_queues m)\<rparr>))"

definition better :: "u32 \<Rightarrow> PendingFile \<Rightarrow> PendingFile \<Rightarrow> bool" where
  "better run a b =
     (if run = kTofRunId then pf_mtime a < pf_mtime b \<or> pf_mtime a = pf_mtime b \<and> pf_path a < pf_path b
      else let ma = pf_meta a; mb = pf_meta b in
        priority ma < priority mb
        \<or> priority ma = priority mb \<and> segment ma < segment mb
        \<or> priority ma = priority mb \<and> segment ma = segment mb \<and> nvme_index ma < nvme_index mb
        \<or> priority ma = priority mb \<and> segment ma = segment mb \<and> nvme_index ma = nvme_index mb \<and> pf_path a < pf_path b)"

definition best_job :: "u32 \<Rightarrow> PendingFile list \<Rightarrow> PendingFile" where
  "best_job run files = fold (\<lambda>x best. if better run x best then x else best) files (hd files)"

fun queue_set :: "u32 \<Rightarrow> PendingFile list \<Rightarrow> (u32 \<times> PendingFile list) list \<Rightarrow> (u32 \<times> PendingFile list) list" where
  "queue_set k ys [] = []"
| "queue_set k ys ((k', xs) # q) = (if k = k' then (if ys = [] then q else (k', ys) # q) else (k', xs) # queue_set k ys q)"

definition pick_from_run :: "u32 \<Rightarrow> md \<Rightarrow> PendingFile option \<times> md" where
  "pick_from_run run m = (let files = queue_files (run_queues m) run in
     if files = [] then (None, m)
     else let job = best_job run files in
       (Some job, m\<lparr>run_queues := queue_set run (remove1 job files) (run_queues m), active_run_id := Some run\<rparr>))"

definition has_tpc :: "md \<Rightarrow> bool" where
  "has_tpc m \<longleftrightarrow> list_ex (\<lambda>(k, files). k \<noteq> kTofRunId \<and> files \<noteq> []) (run_queues m)"

definition has_tof :: "md \<Rightarrow> bool" where
  "has_tof m \<longleftrightarrow> queue_files (run_queues m) kTofRunId \<noteq> []"

definition pick_first :: "(u32 \<Rightarrow> bool) \<Rightarrow> md \<Rightarrow> PendingFile option \<times> md" where
  "pick_first ok m = (case List.find (\<lambda>(k, files). ok k \<and> files \<noteq> []) (run_queues m) of
     None \<Rightarrow> (None, m) | Some (k, _) \<Rightarrow> pick_from_run k m)"

definition pick_tpc :: "md \<Rightarrow> PendingFile option \<times> md" where
  "pick_tpc m =
     (let first = (case active_run_id m of Some run \<Rightarrow> if run \<noteq> kTofRunId then pick_from_run run m else (None, m) | None \<Rightarrow> (None, m)) in
      case first of (Some job, m') \<Rightarrow> (Some job, m') | (None, _) \<Rightarrow> pick_first (\<lambda>k. k \<noteq> kTofRunId) m)"

definition PopNext :: "md \<Rightarrow> PendingFile option \<times> md" where
  "PopNext m =
     (let tpc_pending = has_tpc m; tof_pending = has_tof m;
          m = (if \<not> tpc_pending \<or> \<not> tof_pending then m\<lparr>tof_copied_bytes := 0, tpc_copied_bytes := 0\<rparr> else m) in
      if tpc_pending \<and> tof_pending
      then (if tof_copied_bytes m \<le> tpc_copied_bytes m then pick_from_run kTofRunId m else pick_tpc m)
      else case active_run_id m of
        None \<Rightarrow> pick_first (\<lambda>_. True) m
      | Some run \<Rightarrow> (case pick_from_run run m of (Some job, m') \<Rightarrow> (Some job, m')
          | (None, _) \<Rightarrow> pick_first (\<lambda>_. True) (m\<lparr>active_run_id := None\<rparr>)))"


section \<open>The queues as a multiset of jobs\<close>

definition queued :: "md \<Rightarrow> PendingFile multiset" where
  "queued m = mset (concat (map snd (run_queues m)))"

text \<open>The map is ordered by run number, holds no empty queue, and every file is in the queue of its own run.\<close>

definition queue_ok :: "(u32 \<times> PendingFile list) list \<Rightarrow> bool" where
  "queue_ok q \<longleftrightarrow> sorted_wrt (<) (map fst q) \<and> list_all (\<lambda>(k, xs). xs \<noteq> [] \<and> list_all (\<lambda>f. run_id (pf_meta f) = k) xs) q"

lemma queue_push_keys [simp]: "fst ` set (queue_push k x q) = insert k (fst ` set q)"
  by (induction k x q rule: queue_push.induct) (simp_all add: insert_commute)

lemma queue_push_mset: "mset (concat (map snd (queue_push k x q))) = add_mset x (mset (concat (map snd q)))"
  by (induction q) auto

lemma queue_push_ok:
  assumes "queue_ok q" and "run_id (pf_meta x) = k"
  shows "queue_ok (queue_push k x q)"
  using assms by (induction q) (fastforce simp: queue_ok_def)+

lemma queue_set_keys: "fst ` set (queue_set k ys q) \<subseteq> fst ` set q"
  by (induction k ys q rule: queue_set.induct) (simp_all add: subset_insertI2 subset_insertI)

lemma queue_set_ok:
  assumes "queue_ok q" and "list_all (\<lambda>f. run_id (pf_meta f) = k) ys"
  shows "queue_ok (queue_set k ys q)"
  using assms
proof (induction q)
  case (Cons e q)
  obtain k' xs where e: "e = (k', xs)" by (cases e)
  have "queue_ok q" using Cons.prems(1) by (simp add: queue_ok_def)
  note IH = Cons.IH [OF this Cons.prems(2)]
  have "\<forall>x\<in>fst ` set q. k' < x" using Cons.prems(1) by (simp add: queue_ok_def e)
  then have "\<forall>x\<in>fst ` set (queue_set k ys q). k' < x" using queue_set_keys [of k ys q] by blast
  then show ?case using IH Cons.prems by (auto simp: queue_ok_def e)
qed simp

lemma queue_set_mset:
  assumes "map_of q k = Some xs"
  shows "mset (concat (map snd (queue_set k ys q))) + mset xs = mset (concat (map snd q)) + mset ys"
  using assms by (induction q) (auto split: if_splits)

lemma queue_files_ok:
  assumes "queue_ok q" and "f \<in> set (queue_files q k)"
  shows "run_id (pf_meta f) = k"
proof -
  obtain xs where "map_of q k = Some xs" "f \<in> set xs" using assms(2) by (cases "map_of q k") (simp_all add: queue_files_def)
  then have "(k, xs) \<in> set q" "f \<in> set xs" using map_of_SomeD by fast+
  then show ?thesis using assms(1) by (auto simp: queue_ok_def list_all_iff)
qed

lemma queue_files_nonempty:
  assumes "queue_ok q" and "(k, xs) \<in> set q"
  shows "queue_files q k = xs" and "xs \<noteq> []"
proof -
  have "distinct (map fst q)" using assms(1) by (simp add: queue_ok_def strict_sorted_iff)
  then show "queue_files q k = xs" using assms(2) by (simp add: queue_files_def map_of_eq_Some_iff)
  show "xs \<noteq> []" using assms by (auto simp: queue_ok_def list_all_iff)
qed

lemma queue_files_in: "queue_files q k \<noteq> [] \<Longrightarrow> (k, queue_files q k) \<in> set q"
  by (auto simp: queue_files_def split: option.splits dest: map_of_SomeD)

section \<open>The order of the jobs\<close>

text \<open>The comparison of the source is the lexicographic order on this key.\<close>

definition job_key :: "u32 \<Rightarrow> PendingFile \<Rightarrow> int \<times> int \<times> nat \<times> string" where
  "job_key run f = (if run = kTofRunId then (pf_mtime f, 0, 0, pf_path f)
     else (priority (pf_meta f), segment (pf_meta f), nvme_index (pf_meta f), pf_path f))"

lemma better_key: "better run a b \<longleftrightarrow> job_key run a < job_key run b"
  by (auto simp: better_def job_key_def less_prod_def' Let_def)

lemma fold_best:
  "let r = fold (\<lambda>x best. if better run x best then x else best) xs b in
     r \<in> insert b (set xs) \<and> (\<forall>x\<in>insert b (set xs). job_key run r \<le> job_key run x)"
proof (induction xs arbitrary: b)
  case (Cons x xs)
  show ?case
    using Cons.IH [of "if better run x b then x else b"] by (auto simp: Let_def better_key split: if_splits)
qed (simp add: Let_def)

lemma best_job_correct:
  assumes "files \<noteq> []"
  shows "best_job run files \<in> set files" and "x \<in> set files \<Longrightarrow> job_key run (best_job run files) \<le> job_key run x"
  using fold_best [of run files "hd files"] assms by (auto simp: best_job_def Let_def insert_absorb)

section \<open>The next job\<close>

lemma HasPending_queued: "HasPending m \<longleftrightarrow> queued m \<noteq> {#}"
  by (simp add: HasPending_def queued_def list_ex_iff case_prod_beta)

text \<open>A queued file is in the queue of its run.\<close>

lemma queued_entry:
  assumes "queue_ok (run_queues m)"
  shows "f \<in># queued m \<longleftrightarrow> (\<exists>xs. (run_id (pf_meta f), xs) \<in> set (run_queues m) \<and> f \<in> set xs)"
proof
  assume "f \<in># queued m"
  then obtain k xs where kx: "(k, xs) \<in> set (run_queues m)" "f \<in> set xs" by (auto simp: queued_def)
  then have "run_id (pf_meta f) = k" using assms by (auto simp: queue_ok_def list_all_iff)
  then show "\<exists>xs. (run_id (pf_meta f), xs) \<in> set (run_queues m) \<and> f \<in> set xs" using kx by blast
qed (force simp: queued_def)

lemma queued_of_run:
  assumes "queue_ok (run_queues m)"
  shows "f \<in> set (queue_files (run_queues m) run) \<longleftrightarrow> f \<in># queued m \<and> run_id (pf_meta f) = run"
proof
  assume f: "f \<in> set (queue_files (run_queues m) run)"
  then have "(run, queue_files (run_queues m) run) \<in> set (run_queues m)" using queue_files_in by force
  then show "f \<in># queued m \<and> run_id (pf_meta f) = run" using queued_entry [OF assms] queue_files_ok [OF assms f] f by blast
next
  assume "f \<in># queued m \<and> run_id (pf_meta f) = run"
  then show "f \<in> set (queue_files (run_queues m) run)" using queued_entry [OF assms] queue_files_nonempty(1) [OF assms] by blast
qed

lemma queue_entry_of_run:
  assumes "queue_ok (run_queues m)" and "(k, xs) \<in> set (run_queues m)"
  obtains f where "f \<in># queued m" "run_id (pf_meta f) = k"
proof -
  have "queue_files (run_queues m) k = xs" "xs \<noteq> []" using queue_files_nonempty [OF assms] by simp_all
  then have "hd xs \<in># queued m \<and> run_id (pf_meta (hd xs)) = k" using queued_of_run [OF assms(1), of "hd xs" k] by simp
  then show ?thesis using that by blast
qed

lemma has_tpc_queued:
  assumes "queue_ok (run_queues m)"
  shows "has_tpc m \<longleftrightarrow> (\<exists>f\<in>#queued m. run_id (pf_meta f) \<noteq> kTofRunId)"
proof
  assume "has_tpc m"
  then obtain k xs where "(k, xs) \<in> set (run_queues m)" "k \<noteq> kTofRunId" by (auto simp: has_tpc_def list_ex_iff)
  then show "\<exists>f\<in>#queued m. run_id (pf_meta f) \<noteq> kTofRunId" using queue_entry_of_run [OF assms] by metis
next
  assume "\<exists>f\<in>#queued m. run_id (pf_meta f) \<noteq> kTofRunId"
  then obtain f xs where "(run_id (pf_meta f), xs) \<in> set (run_queues m)" "f \<in> set xs" "run_id (pf_meta f) \<noteq> kTofRunId"
    using queued_entry [OF assms] by blast
  then show "has_tpc m" unfolding has_tpc_def list_ex_iff by (intro bexI [of _ "(run_id (pf_meta f), xs)"]) auto
qed

lemma has_tof_queued:
  assumes "queue_ok (run_queues m)"
  shows "has_tof m \<longleftrightarrow> (\<exists>f\<in>#queued m. run_id (pf_meta f) = kTofRunId)"
proof -
  have "has_tof m \<longleftrightarrow> (\<exists>f. f \<in> set (queue_files (run_queues m) kTofRunId))" by (auto simp: has_tof_def simp flip: set_empty)
  then show ?thesis using queued_of_run [OF assms] by blast
qed

text \<open>A job taken from the queue of a run: it is removed, and no file of the run comes before it.\<close>

definition took :: "u32 \<Rightarrow> PendingFile \<Rightarrow> md \<Rightarrow> md \<Rightarrow> bool" where
  "took run job m m' \<longleftrightarrow> run_id (pf_meta job) = run \<and> job \<in># queued m \<and> queued m' = queued m - {#job#}
     \<and> queue_ok (run_queues m') \<and> active_run_id m' = Some run
     \<and> tpc_copied_bytes m' = tpc_copied_bytes m \<and> tof_copied_bytes m' = tof_copied_bytes m \<and> pending m' = pending m
     \<and> synced m' = synced m \<and> state_file m' = state_file m \<and> md_running m' = md_running m
     \<and> (\<forall>f\<in>#queued m. run_id (pf_meta f) = run \<longrightarrow> job_key run job \<le> job_key run f)"

lemma pick_from_run_none:
  assumes "fst (pick_from_run run m) = None"
  shows "queue_files (run_queues m) run = []" and "snd (pick_from_run run m) = m"
  using assms by (auto simp: pick_from_run_def Let_def split: if_splits)

lemma mset_take_one:
  assumes "j \<in># F" and "A + F = B + (F - {#j#})"
  shows "B = add_mset j A"
proof -
  obtain G where "F = add_mset j G" using multi_member_split [OF assms(1)] by blast
  then show ?thesis using assms(2) by (metis add_left_cancel add_mset_remove_trivial union_commute union_mset_add_mset_left)
qed

lemma pick_from_run_took:
  assumes ok: "queue_ok (run_queues m)" and "queue_files (run_queues m) run \<noteq> []"
  obtains job m' where "pick_from_run run m = (Some job, m')" "took run job m m'"
proof -
  let ?files = "queue_files (run_queues m) run"
  let ?job = "best_job run ?files"
  let ?m = "m\<lparr>run_queues := queue_set run (remove1 ?job ?files) (run_queues m), active_run_id := Some run\<rparr>"
  have job: "?job \<in> set ?files" using best_job_correct(1) assms(2) by blast
  have all: "list_all (\<lambda>f. run_id (pf_meta f) = run) ?files" using queue_files_ok [OF ok] by (simp add: list_all_iff)
  have entry: "map_of (run_queues m) run = Some ?files"
    using assms(2) by (auto simp: queue_files_def split: option.splits)
  have "mset (remove1 ?job ?files) = mset ?files - {#?job#}" by simp
  then have q: "queued ?m + mset ?files = queued m + (mset ?files - {#?job#})"
    using queue_set_mset [OF entry, of "remove1 ?job ?files"] by (simp add: queued_def)
  have "?job \<in># mset ?files" using job by simp
  from mset_take_one [OF this q] have qm: "queued m = add_mset ?job (queued ?m)" .
  have "queue_ok (run_queues ?m)" using queue_set_ok [OF ok] all
    by (simp add: list_all_iff) (meson notin_set_remove1)
  moreover have "job_key run ?job \<le> job_key run f" if "f \<in># queued m" "run_id (pf_meta f) = run" for f
    using best_job_correct(2) [OF assms(2)] queued_of_run [OF ok, of f run] that by blast
  moreover have "run_id (pf_meta ?job) = run" using queue_files_ok [OF ok job] .
  moreover have "queued ?m = queued m - {#?job#}" "?job \<in># queued m" using qm by simp_all
  ultimately have "took run ?job m ?m" by (simp add: took_def)
  moreover have "pick_from_run run m = (Some ?job, ?m)" using assms(2) by (simp add: pick_from_run_def Let_def)
  ultimately show ?thesis using that by blast
qed

text \<open>The map is in ascending order, so the first suitable entry is the one of the lowest run number.\<close>

lemma find_lowest:
  assumes "sorted_wrt (<) (map fst q)" and "List.find P q = Some (k, xs)"
  shows "(k, xs) \<in> set q \<and> P (k, xs) \<and> (\<forall>k' ys. (k', ys) \<in> set q \<longrightarrow> P (k', ys) \<longrightarrow> (k :: u32) \<le> k')"
  using assms
proof (induction q)
  case (Cons e q)
  show ?case
  proof (cases "P e")
    case True
    then have "e = (k, xs)" using Cons.prems(2) by simp
    then show ?thesis using True Cons.prems(1) by (auto simp: less_imp_le)
  next
    case False
    then show ?thesis using Cons by (auto simp: less_imp_le)
  qed
qed simp

lemma pick_first_took:
  assumes ok: "queue_ok (run_queues m)" and "f \<in># queued m" and "ok (run_id (pf_meta f))"
  obtains job m' run where "pick_first ok m = (Some job, m')" "took run job m m'" "ok run"
    "\<forall>f\<in>#queued m. ok (run_id (pf_meta f)) \<longrightarrow> run \<le> run_id (pf_meta f)"
proof -
  let ?P = "\<lambda>(k, files). ok k \<and> files \<noteq> []"
  have entry: "\<exists>xs. (run_id (pf_meta g), xs) \<in> set (run_queues m) \<and> xs \<noteq> []" if "g \<in># queued m" for g
    using that queued_entry [OF ok, of g] by fastforce
  have sorted: "sorted_wrt (<) (map fst (run_queues m))" using ok by (simp add: queue_ok_def)
  from entry [OF assms(2)] obtain xs where "(run_id (pf_meta f), xs) \<in> set (run_queues m)" "xs \<noteq> []" by blast
  then have "List.find ?P (run_queues m) \<noteq> None" using assms(3) unfolding find_None_iff by fast
  then obtain k xs where found: "List.find ?P (run_queues m) = Some (k, xs)" by auto
  from find_lowest [OF sorted this] have k: "(k, xs) \<in> set (run_queues m)" "ok k" "xs \<noteq> []"
    and low: "\<And>k' ys. (k', ys) \<in> set (run_queues m) \<Longrightarrow> ok k' \<Longrightarrow> ys \<noteq> [] \<Longrightarrow> k \<le> k'" by simp_all
  have "queue_files (run_queues m) k \<noteq> []" using queue_files_nonempty(1) [OF ok k(1)] k(3) by simp
  from pick_from_run_took [OF ok this] obtain job m' where "pick_from_run k m = (Some job, m')" "took k job m m'" .
  then show ?thesis using that found k(2) low entry by (simp add: pick_first_def) meson
qed

lemma pick_first_none:
  assumes "queue_ok (run_queues m)" and "queued m = {#}"
  shows "pick_first ok m = (None, m)"
proof -
  have "run_queues m = []" using assms by (cases "run_queues m") (auto simp: queued_def queue_ok_def)
  then show ?thesis by (simp add: pick_first_def)
qed

text \<open>The rule of the scheduler.  With readout and TOF files waiting the side that has copied fewer bytes is served,
  TOF on equality; within the readout files, and when only one side waits, the run being copied goes on, and
  otherwise the lowest run number is taken.\<close>

definition next_run :: "md \<Rightarrow> u32 \<Rightarrow> bool" where
  "next_run m run \<longleftrightarrow> (let waiting = (\<lambda>r. \<exists>f\<in>#queued m. run_id (pf_meta f) = r);
       lowest = (\<lambda>ok. ok run \<and> (\<forall>r. waiting r \<longrightarrow> ok r \<longrightarrow> run \<le> r));
       active = (\<lambda>ok. \<exists>r. active_run_id m = Some r \<and> ok r \<and> waiting r) in
     waiting run \<and>
     (if has_tpc m \<and> has_tof m
      then (if tof_copied_bytes m \<le> tpc_copied_bytes m then run = kTofRunId
            else if active (\<lambda>r. r \<noteq> kTofRunId) then active_run_id m = Some run else lowest (\<lambda>r. r \<noteq> kTofRunId))
      else if active (\<lambda>_. True) then active_run_id m = Some run else lowest (\<lambda>_. True)))"

definition settled :: "md \<Rightarrow> md" where
  "settled m = (if has_tpc m \<and> has_tof m then m else m\<lparr>tof_copied_bytes := 0, tpc_copied_bytes := 0\<rparr>)"

lemma settled_simps [simp]:
  "run_queues (settled m) = run_queues m" "active_run_id (settled m) = active_run_id m" "queued (settled m) = queued m"
  "pending (settled m) = pending m" "has_tpc (settled m) = has_tpc m" "has_tof (settled m) = has_tof m"
  by (simp_all add: settled_def queued_def has_tpc_def has_tof_def)

lemma no_files_of_run: "queue_ok (run_queues m) \<Longrightarrow> queue_files (run_queues m) r = [] \<Longrightarrow> \<not> (\<exists>f\<in>#queued m. run_id (pf_meta f) = r)"
  using queued_of_run by (metis empty_iff list.set(1))

lemma took_waiting: "took run job m m' \<Longrightarrow> \<exists>f\<in>#queued m. run_id (pf_meta f) = run"
  by (auto simp: took_def)

lemma pick_tpc_took:
  assumes ok: "queue_ok (run_queues m)" and both: "has_tpc m" "has_tof m" "\<not> tof_copied_bytes m \<le> tpc_copied_bytes m"
  obtains job m' run where "pick_tpc m = (Some job, m')" "took run job m m'" "next_run m run"
proof (cases "\<exists>r. active_run_id m = Some r \<and> r \<noteq> kTofRunId \<and> queue_files (run_queues m) r \<noteq> []")
  case True
  then obtain r where r: "active_run_id m = Some r" "r \<noteq> kTofRunId" "queue_files (run_queues m) r \<noteq> []" by blast
  from pick_from_run_took [OF ok r(3)] obtain job m' where j: "pick_from_run r m = (Some job, m')" "took r job m m'" .
  moreover have "next_run m r" using took_waiting [OF j(2)] r both by (auto simp: next_run_def)
  ultimately show ?thesis using that r by (simp add: pick_tpc_def)
next
  case False
  then have none: "pick_tpc m = pick_first (\<lambda>k. k \<noteq> kTofRunId) m"
    by (auto simp: pick_tpc_def pick_from_run_def Let_def split: option.splits)
  obtain f where "f \<in># queued m" "run_id (pf_meta f) \<noteq> kTofRunId" using has_tpc_queued [OF ok] both(1) by blast
  from pick_first_took [where ok = "\<lambda>k. k \<noteq> kTofRunId", OF ok this] obtain job m' run where
    j: "pick_first (\<lambda>k. k \<noteq> kTofRunId) m = (Some job, m')" "took run job m m'" "run \<noteq> kTofRunId"
      "\<forall>f\<in>#queued m. run_id (pf_meta f) \<noteq> kTofRunId \<longrightarrow> run \<le> run_id (pf_meta f)" .
  moreover have "\<not> (\<exists>r. active_run_id m = Some r \<and> r \<noteq> kTofRunId \<and> (\<exists>f\<in>#queued m. run_id (pf_meta f) = r))"
    using False no_files_of_run [OF ok] by blast
  then have "next_run m run" using took_waiting [OF j(2)] j(3,4) both by (auto simp: next_run_def)
  ultimately show ?thesis using that none by simp
qed

text \<open>With files of one kind only, the active run goes first; without files of an active run, the smallest run number.\<close>

lemma PopNext_one_kind:
  assumes "\<not> (has_tpc m \<and> has_tof m)"
  shows "PopNext m = (case active_run_id (settled m) of None \<Rightarrow> pick_first (\<lambda>_. True) (settled m)
    | Some run \<Rightarrow> (case pick_from_run run (settled m) of (Some job, m') \<Rightarrow> (Some job, m')
          | (None, _) \<Rightarrow> pick_first (\<lambda>_. True) ((settled m)\<lparr>active_run_id := None\<rparr>)))"
proof -
  have s: "settled m = m\<lparr>tof_copied_bytes := 0, tpc_copied_bytes := 0\<rparr>" using assms unfolding settled_def by (rule if_not_P)
  have "(\<not> has_tpc m \<or> \<not> has_tof m) = True" "(has_tpc m \<and> has_tof m) = False" using assms by blast+
  then show ?thesis unfolding PopNext_def s Let_def by (simp only: if_True if_False)
qed

lemma PopNext_no_active:
  assumes "\<not> (has_tpc m \<and> has_tof m)" and "\<And>r. active_run_id m = Some r \<Longrightarrow> queue_files (run_queues m) r = []"
  shows "PopNext m = pick_first (\<lambda>_. True) ((settled m)\<lparr>active_run_id := None\<rparr>)"
proof (cases "active_run_id m")
  case None
  then have "PopNext m = pick_first (\<lambda>_. True) (settled m)" using PopNext_one_kind [OF assms(1)] by simp
  moreover have "(settled m)\<lparr>active_run_id := None\<rparr> = settled m"
    using None by (cases "settled m") (metis settled_simps(2) md.select_convs(2) md.update_convs(2))
  ultimately show ?thesis by (simp only:)
next
  case (Some r)
  then show ?thesis using PopNext_one_kind [OF assms(1)] assms(2) by (simp add: pick_from_run_def)
qed

lemma PopNext_took:
  assumes ok: "queue_ok (run_queues m)" and "queued m \<noteq> {#}"
  obtains job m' run where "PopNext m = (Some job, m')" "took run job (settled m) m'" "next_run m run"
proof (cases "has_tpc m \<and> has_tof m")
  case both: True
  then have s: "settled m = m" by (simp add: settled_def)
  show ?thesis
  proof (cases "tof_copied_bytes m \<le> tpc_copied_bytes m")
    case True
    have "queue_files (run_queues m) kTofRunId \<noteq> []" using both by (simp add: has_tof_def)
    from pick_from_run_took [OF ok this] obtain job m' where
      j: "pick_from_run kTofRunId m = (Some job, m')" "took kTofRunId job m m'" .
    moreover have "next_run m kTofRunId" using took_waiting [OF j(2)] both True by (simp add: next_run_def)
    ultimately show ?thesis using that [of job m' kTofRunId] both True s by (simp add: PopNext_def)
  next
    case False
    from pick_tpc_took [OF ok _ _ False] both obtain job m' run where
      "pick_tpc m = (Some job, m')" "took run job m m'" "next_run m run" by blast
    then show ?thesis using that [of job m' run] both False s by (simp add: PopNext_def)
  qed
next
  case one: False
  let ?m = "settled m"
  show ?thesis
  proof (cases "\<exists>r. active_run_id m = Some r \<and> queue_files (run_queues m) r \<noteq> []")
    case True
    then obtain r where r: "active_run_id ?m = Some r" "queue_files (run_queues ?m) r \<noteq> []" by auto
    have "queue_ok (run_queues ?m)" using ok by simp
    from pick_from_run_took [OF this r(2)] obtain job m' where j: "pick_from_run r ?m = (Some job, m')" "took r job ?m m'" .
    moreover have "next_run m r" using took_waiting [OF j(2)] r one by (auto simp: next_run_def)
    ultimately show ?thesis using that [of job m' r] r PopNext_one_kind [OF one] by simp
  next
    case False
    let ?n = "?m\<lparr>active_run_id := None\<rparr>"
    have none: "PopNext m = pick_first (\<lambda>_. True) ?n" using False by (intro PopNext_no_active [OF one]) blast
    have q: "queued ?n = queued m" by (simp add: queued_def settled_def)
    obtain f where "f \<in># queued ?n" using assms(2) q by auto
    from pick_first_took [of ?n f "\<lambda>_. True"] this ok obtain job m' run where
      j: "pick_first (\<lambda>_. True) ?n = (Some job, m')" "took run job ?n m'" "\<forall>f\<in>#queued ?n. run \<le> run_id (pf_meta f)" by auto
    have "took run job ?m m'" using j(2) q by (simp add: took_def)
    moreover have "\<not> (\<exists>r. active_run_id m = Some r \<and> (\<exists>f\<in>#queued m. run_id (pf_meta f) = r))"
      using False no_files_of_run [OF ok] by blast
    then have "next_run m run" using took_waiting [OF j(2)] j(3) one q by (auto simp: next_run_def)
    ultimately show ?thesis using that [of job m' run] none j(1) by simp
  qed
qed

lemma PopNext_none:
  assumes "queue_ok (run_queues m)" and "queued m = {#}"
  shows "PopNext m = (None, m\<lparr>tof_copied_bytes := 0, tpc_copied_bytes := 0, active_run_id := None\<rparr>)"
proof -
  have e: "run_queues m = []" using assms by (cases "run_queues m") (auto simp: queued_def queue_ok_def)
  then have no: "has_tpc m = False" "has_tof m = False" by (simp_all add: has_tpc_def has_tof_def queue_files_def)
  show ?thesis
  proof (cases "active_run_id m")
    case None
    then have "m = m\<lparr>active_run_id := None\<rparr>" by simp
    then show ?thesis using None e unfolding PopNext_def no Let_def by (simp add: pick_first_def)
  next
    case (Some r)
    then show ?thesis using e unfolding PopNext_def no Let_def by (simp add: pick_first_def pick_from_run_def queue_files_def)
  qed
qed

text \<open>C18: The worker gets a file exactly when one waits, and it is the one that the rules of the source name: with
  readout and TOF files waiting the side that has copied fewer bytes is served; the run being copied is
  finished before another is begun, and the lowest run number comes next; within a run readout files come
  before trigger, PPS and configuration files, by segment, disk and name (TOF files by age).  The file is
  removed from the queues and no other.\<close>
theorem PopNext_schedule:
  assumes "queue_ok (run_queues m)"
  shows "(fst (PopNext m) = None \<longleftrightarrow> \<not> HasPending m)
    \<and> (\<forall>job. fst (PopNext m) = Some job \<longrightarrow> (let m' = snd (PopNext m); run = run_id (pf_meta job) in
        next_run m run \<and> job \<in># queued m \<and> queued m' = queued m - {#job#} \<and> queue_ok (run_queues m')
        \<and> (\<forall>f\<in>#queued m. run_id (pf_meta f) = run \<longrightarrow> job_key run job \<le> job_key run f)))"
proof (cases "queued m = {#}")
  case True
  then show ?thesis using PopNext_none [OF assms] HasPending_queued [of m] by simp
next
  case False
  from PopNext_took [OF assms False] obtain job m' run where
    "PopNext m = (Some job, m')" "took run job (settled m) m'" "next_run m run" .
  then show ?thesis using False HasPending_queued [of m] by (simp add: took_def)
qed

definition sample_job :: "string \<Rightarrow> u32 \<Rightarrow> int \<Rightarrow> PendingFile" where
  "sample_job path run seg = \<lparr>pf_path = path, pf_dst = ''/b'' @ path, pf_meta = \<lparr>run_id = run, nvme_index = 0, priority = 1, segment = seg\<rparr>,
     pf_size = 8, pf_mtime = 0\<rparr>"

definition sample_md :: md where
  "sample_md = \<lparr>run_queues = [(4, [sample_job ''/a'' 4 0]), (7, [sample_job ''/d'' 7 11, sample_job ''/c'' 7 2])], active_run_id = Some 7,
     tpc_copied_bytes = 0, tof_copied_bytes = 0, pending = [''/a'', ''/d'', ''/c''], synced = Map.empty, state_file = [], md_running = True\<rparr>"

theorem PopNext_schedule_witness:
  "fst (PopNext sample_md) = Some (sample_job ''/c'' 7 2) \<and> next_run sample_md 7
     \<and> queued (snd (PopNext sample_md)) = queued sample_md - {#sample_job ''/c'' 7 2#}"
proof -
  have "queue_ok (run_queues sample_md)" by (simp add: sample_md_def sample_job_def queue_ok_def)
  moreover have "fst (PopNext sample_md) = Some (sample_job ''/c'' 7 2)"
    by (simp add: sample_md_def sample_job_def PopNext_def has_tpc_def has_tof_def pick_from_run_def queue_files_def best_job_def
        better_def kTofRunId_def)
  ultimately show ?thesis using PopNext_schedule [of sample_md] by (simp add: sample_job_def Let_def)
qed

section \<open>Waiting files\<close>

definition enqueues :: "os_view \<Rightarrow> int \<Rightarrow> files \<Rightarrow> string \<Rightarrow> (string \<times> u64 \<times> int) option" where
  "enqueues os min_mtime fs src_path =
     (if \<not> PassesMinMtimeFilter min_mtime fs src_path then None
      else case StatFile fs src_path of None \<Rightarrow> None
      | Some st \<Rightarrow> (case SelectBackupRootForCopy os (NvmeIndexForPath os src_path) (fs_size st) of None \<Rightarrow> None
        | Some root \<Rightarrow> let dst = MirrorDestinationPathToRoot os src_path root in
            if dst = [] \<or> \<not> NeedsCopy fs src_path dst then None else Some (dst, fs_size st, fs_mtime st)))"

text \<open>The file that a request puts in the queue.\<close>

definition request_of :: "os_view \<Rightarrow> string \<Rightarrow> string \<times> u64 \<times> int \<Rightarrow> PendingFile" where
  "request_of os path = (\<lambda>(dst, sz, mt). \<lparr>pf_path = path, pf_dst = dst,
     pf_meta = (ParseFileMeta os path)\<lparr>nvme_index := NvmeIndexForPath os path\<rparr>, pf_size = sz, pf_mtime = mt\<rparr>)"

lemma Enqueue_cases:
  "Enqueue os min_mtime fs path m = (case enqueues os min_mtime fs path of None \<Rightarrow> m
   | Some d \<Rightarrow> if path \<in> set (pending m) then m
       else m\<lparr>pending := path # pending m,
              run_queues := queue_push (run_id (pf_meta (request_of os path d))) (request_of os path d) (run_queues m)\<rparr>)"
  by (simp add: Enqueue_def enqueues_def request_of_def Let_def split: option.splits)

lemma Enqueue_ok: "queue_ok (run_queues m) \<Longrightarrow> queue_ok (run_queues (Enqueue os min_mtime fs path m))"
  by (auto simp: Enqueue_cases queue_push_ok split: option.splits)

lemma Enqueue_queued:
  "queued (Enqueue os min_mtime fs path m) = (case enqueues os min_mtime fs path of None \<Rightarrow> queued m
   | Some d \<Rightarrow> if path \<in> set (pending m) then queued m else add_mset (request_of os path d) (queued m))"
  by (auto simp: Enqueue_cases queued_def queue_push_mset split: option.splits)

lemma Enqueue_frame [simp]:
  "active_run_id (Enqueue os mm fs path m) = active_run_id m" "tpc_copied_bytes (Enqueue os mm fs path m) = tpc_copied_bytes m"
  "tof_copied_bytes (Enqueue os mm fs path m) = tof_copied_bytes m" "synced (Enqueue os mm fs path m) = synced m"
  "state_file (Enqueue os mm fs path m) = state_file m" "md_running (Enqueue os mm fs path m) = md_running m"
  by (auto simp: Enqueue_cases split: option.splits)

end
