(* ===== verification/Mirror_Copy.thy ===== *)
theory Mirror_Copy
  imports Mirror_Engine "HOL-Library.Sublist" "HOL-Library.Monad_Syntax"
begin

text \<open>
  Copying one file and remembering it, from \<^verbatim>\<open>daemon/mirror_engine.cpp\<close>: settings from the environment, the
  bandwidth limit, \<^verbatim>\<open>CopyFile\<close> with its temporary file, and the state file that survives a restart.  What the
  copy loop meets (run flag, what the source file holds at that moment, results of the system calls, clock) is
  a list of observations, one for each pass; a list that ends before the loop does gives \<^term>\<open>None\<close>.
\<close>

section \<open>Settings\<close>

definition StateFilePath :: "os_view \<Rightarrow> string" where
  "StateFilePath os = (case getenv os ''DATA_MIRROR_STATE_FILE'' of
     Some v \<Rightarrow> if v \<noteq> [] then v else ''/var/lib/grams_mirror/state.tsv'' | None \<Rightarrow> ''/var/lib/grams_mirror/state.tsv'')"

definition RateFilePath :: "os_view \<Rightarrow> string" where
  "RateFilePath os = (case getenv os ''DATA_MIRROR_RATE_FILE'' of
     Some v \<Rightarrow> if v \<noteq> [] then v else ''/var/lib/grams_mirror/max_mbps'' | None \<Rightarrow> ''/var/lib/grams_mirror/max_mbps'')"

text \<open>A signed or unsigned decimal number at the start of a stream: sign, magnitude, rest.\<close>

definition scan_number :: "string \<Rightarrow> (bool \<times> nat \<times> string) option" where
  "scan_number s = (let t = dropWhile isspace s;
       neg = (t \<noteq> [] \<and> hd t = CHR ''-'');
       t = (if t \<noteq> [] \<and> (hd t = CHR ''-'' \<or> hd t = CHR ''+'') then tl t else t);
       ds = takeWhile isdigit t in
     if ds = [] then None else Some (neg, digits_val ds, dropWhile isdigit t))"

definition strtoll :: "string \<Rightarrow> int option" where
  "strtoll s = map_option (\<lambda>(neg, v, _). if neg then max (- (2 ^ 63)) (- int v) else min (2 ^ 63 - 1) (int v)) (scan_number s)"

text \<open>\<^verbatim>\<open>strptime\<close> fills the broken-down time as far as it gets, and gives the rest of the text on success;
  \<^verbatim>\<open>mktime\<close> depends on the time zone of the machine.\<close>

record tm =
  tm_year :: int
  tm_mon :: int
  tm_mday :: int
  tm_hour :: int
  tm_min :: int
  tm_sec :: int
  tm_isdst :: int

record clib =
  strptime :: "string \<Rightarrow> string \<Rightarrow> tm \<Rightarrow> string option \<times> tm"
  mktime :: "tm \<Rightarrow> int"

fun try_formats :: "clib \<Rightarrow> string \<Rightarrow> string list \<Rightarrow> tm \<Rightarrow> tm option" where
  "try_formats L v [] t = None"
| "try_formats L v (f # fs) t = (case strptime L v f t of (Some [], t) \<Rightarrow> Some t | (_, t) \<Rightarrow> try_formats L v fs t)"

definition ParseMinMtimeFromEnv :: "os_view \<Rightarrow> clib \<Rightarrow> int" where
  "ParseMinMtimeFromEnv os L =
     (case getenv os ''DATA_MIRROR_MIN_MTIME'' \<bind> (\<lambda>v. if v = [] then None else strtoll v) of
        Some parsed \<Rightarrow> parsed
      | None \<Rightarrow> (case getenv os ''DATA_MIRROR_MIN_DATE'' of
          None \<Rightarrow> 0
        | Some v \<Rightarrow> if v = [] then 0 else
            (case try_formats L v [''%Y-%m-%dT%H:%M:%S'', ''%Y-%m-%d %H:%M:%S'', ''%Y-%m-%d'']
               \<lparr>tm_year = 0, tm_mon = 0, tm_mday = 0, tm_hour = 0, tm_min = 0, tm_sec = 0, tm_isdst = 0\<rparr> of
               None \<Rightarrow> 0
             | Some t \<Rightarrow> let u = mktime L (t\<lparr>tm_isdst := - 1\<rparr>) in if u < 0 then 0 else u)))"

record globals =
  g_max_bytes_per_sec :: u64
  g_min_mtime :: int

definition InitGlobals :: "os_view \<Rightarrow> clib \<Rightarrow> u64 \<Rightarrow> globals" where
  "InitGlobals os L max_mbytes_per_sec =
     \<lparr>g_max_bytes_per_sec = (if max_mbytes_per_sec > 0 then max_mbytes_per_sec * 1024 * 1024 else MirrorMaxBytesPerSec os),
      g_min_mtime = ParseMinMtimeFromEnv os L\<rparr>"

section \<open>Bandwidth\<close>

definition read_u64 :: "string \<Rightarrow> (u64 \<times> string) option" where
  "read_u64 s = (case scan_number s of None \<Rightarrow> None
   | Some (neg, v, rest) \<Rightarrow> if v \<ge> 2 ^ 64 then None else Some (if neg then - of_nat v else of_nat v, rest))"

text \<open>The function-local statics; times in nanoseconds.\<close>

record rate_cache =
  cached :: u64
  last_read :: int

definition CurrentMaxBytesPerSec :: "u64 \<Rightarrow> int \<Rightarrow> string option \<Rightarrow> rate_cache \<Rightarrow> u64 \<times> rate_cache" where
  "CurrentMaxBytesPerSec g_max now_ns rate_text c =
     (let c = (if cached c = 0 \<or> now_ns - last_read c \<ge> 1000000000
         then \<lparr>cached = (case rate_text \<bind> read_u64 of Some (mbps, _) \<Rightarrow> mbps * 1024 * 1024 | None \<Rightarrow> g_max), last_read = now_ns\<rparr>
         else c)
      in (cached c, c))"

record window =
  window_start :: int
  window_bytes :: u64

text \<open>The milliseconds to sleep.  The quotient of the source is a floating point number; it is taken as exact.\<close>

definition ApplyRateLimit :: "nat \<Rightarrow> u64 \<Rightarrow> int \<Rightarrow> window \<Rightarrow> int \<times> window" where
  "ApplyRateLimit bytes_copied max_bytes_per_sec now_ns w =
     (if max_bytes_per_sec = 0 then (0, w)
      else let w = w\<lparr>window_bytes := window_bytes w + of_nat bytes_copied\<rparr>;
               elapsed = (now_ns - window_start w) div 1000000 in
        if elapsed \<le> 0 then (0, w)
        else let total = int (unat (window_bytes w)) * 1000; rate = int (unat max_bytes_per_sec);
                 sleep_ms = (if total > elapsed * rate then total div rate - elapsed else 0) in
          (sleep_ms, if elapsed \<ge> 1000 then \<lparr>window_start = now_ns, window_bytes = 0\<rparr> else w))"

section \<open>Directories\<close>

text \<open>\<^verbatim>\<open>mkdir_ok\<close> says whether \<^verbatim>\<open>mkdir\<close> succeeds or reports that the directory exists.\<close>

fun make_dirs :: "(string \<Rightarrow> bool) \<Rightarrow> string \<Rightarrow> string \<Rightarrow> bool" where
  "make_dirs mkdir_ok built [] = (built \<noteq> [] \<longrightarrow> mkdir_ok built)"
| "make_dirs mkdir_ok built (c # dir) =
     (if c = CHR ''/'' \<and> built \<noteq> [] \<and> \<not> mkdir_ok built then False else make_dirs mkdir_ok (built @ [c]) dir)"

definition EnsureParentDirs :: "(string \<Rightarrow> bool) \<Rightarrow> string \<Rightarrow> bool" where
  "EnsureParentDirs mkdir_ok path = (case find_last_of CHR ''/'' path of None \<Rightarrow> True
   | Some pos \<Rightarrow> make_dirs mkdir_ok [] (take pos path))"

section \<open>Copying\<close>

definition kCopyChunk :: nat where "kCopyChunk = 1024 * 1024"

text \<open>The outcome of a transfer: an error number, or a limit on the bytes moved.\<close>

datatype io = IoFail int | IoUpTo nat

record cobs =
  b_running :: bool
  b_src :: "u8 list"
  b_range :: int
  b_read :: io
  b_writes :: "io list"
  b_rate_text :: "string option"
  b_now :: int
  b_now_after :: int

record cp =
  in_pos :: nat
  out_bytes :: "u8 list"
  cp_window :: window
  cp_cache :: rate_cache
  sleeps :: "int list"

fun write_all :: "io list \<Rightarrow> u8 list \<Rightarrow> u8 list \<Rightarrow> (bool \<times> u8 list) option" where
  "write_all ws [] out = Some (True, out)"
| "write_all [] buf out = None"
| "write_all (IoFail e # ws) buf out = (if e = EINTR then write_all ws buf out else Some (False, out))"
| "write_all (IoUpTo n # ws) buf out = write_all ws (drop n buf) (out @ take n buf)"

definition after_chunk :: "nat \<Rightarrow> u64 \<Rightarrow> cobs \<Rightarrow> cp \<Rightarrow> cp" where
  "after_chunk n rate ob s = (let (ms, w) = ApplyRateLimit n rate (b_now_after ob) (cp_window s) in
     s\<lparr>cp_window := w, sleeps := sleeps s @ [ms]\<rparr>)"

text \<open>One pass of the loop: \<^term>\<open>None\<close> to go on, or the value of \<^verbatim>\<open>copy_ok\<close> at a break.  A failed
  \<^verbatim>\<open>copy_file_range\<close> or one that moves nothing falls back to reading and writing.\<close>

definition range_bytes :: "cobs \<Rightarrow> cp \<Rightarrow> u8 list" where
  "range_bytes ob s = take (min (nat (b_range ob)) kCopyChunk) (drop (in_pos s) (b_src ob))"

definition read_write_pass :: "u64 \<Rightarrow> cobs \<Rightarrow> cp \<Rightarrow> (bool option \<times> cp) option" where
  "read_write_pass rate ob s = (case b_read ob of
       IoFail e \<Rightarrow> Some (if e = EINTR then None else Some False, s)
     | IoUpTo n \<Rightarrow>
         let buf = take (min (Suc n) kCopyChunk) (drop (in_pos s) (b_src ob)) in
         if buf = [] then Some (Some True, s)
         else (case write_all (b_writes ob) buf (out_bytes s) of
             None \<Rightarrow> None
           | Some (False, out) \<Rightarrow> Some (Some False, s\<lparr>in_pos := in_pos s + length buf, out_bytes := out\<rparr>)
           | Some (True, out) \<Rightarrow> Some (None, after_chunk (length buf) rate ob
               (s\<lparr>in_pos := in_pos s + length buf, out_bytes := out\<rparr>))))"

definition copy_pass :: "u64 \<Rightarrow> cobs \<Rightarrow> cp \<Rightarrow> (bool option \<times> cp) option" where
  "copy_pass g_max ob s =
     (let (rate, cache) = CurrentMaxBytesPerSec g_max (b_now ob) (b_rate_text ob) (cp_cache s);
          s = s\<lparr>cp_cache := cache\<rparr>; copied = range_bytes ob s
      in if copied \<noteq> []
         then Some (None, after_chunk (length copied) rate ob
                (s\<lparr>in_pos := in_pos s + length copied, out_bytes := out_bytes s @ copied\<rparr>))
         else read_write_pass rate ob s)"

fun copy_loop :: "u64 \<Rightarrow> cobs list \<Rightarrow> cp \<Rightarrow> (bool \<times> cp) option" where
  "copy_loop g_max [] s = None"
| "copy_loop g_max (ob # obs) s =
     (if \<not> b_running ob then Some (True, s)
      else case copy_pass g_max ob s of
        None \<Rightarrow> None
      | Some (Some ok, s) \<Rightarrow> Some (ok, s)
      | Some (None, s) \<Rightarrow> copy_loop g_max obs s)"

text \<open>The other system calls of a copy: \<^verbatim>\<open>c_running_end\<close> is the run flag after the loop, \<^verbatim>\<open>c_time\<close> the modification
  time that writing gives the new file.\<close>

record copy_env =
  c_open_in :: bool
  c_mkdir :: "string \<Rightarrow> bool"
  c_open_out :: bool
  c_start :: int
  c_running_end :: bool
  c_unlink :: bool
  c_rename :: bool
  c_utimens :: bool
  c_time :: int

definition tmp_path :: "string \<Rightarrow> string" where
  "tmp_path dst_path = dst_path @ ''.mirror_partial''"

definition CopyFile :: "copy_env \<Rightarrow> u64 \<Rightarrow> cobs list \<Rightarrow> string \<Rightarrow> string \<Rightarrow> files \<Rightarrow> rate_cache \<Rightarrow> (bool \<times> files \<times> rate_cache) option" where
  "CopyFile C g_max obs src_path dst_path fs cache =
     (case StatFile fs src_path of None \<Rightarrow> Some (False, fs, cache)
      | Some src_stat \<Rightarrow>
        if \<not> c_open_in C then Some (False, fs, cache)
        else if \<not> EnsureParentDirs (c_mkdir C) dst_path then Some (False, fs, cache)
        else if \<not> c_open_out C then Some (False, fs, cache)
        else let tmp = tmp_path dst_path in
          (case copy_loop g_max obs \<lparr>in_pos = 0, out_bytes = [], cp_window = \<lparr>window_start = c_start C, window_bytes = 0\<rparr>,
               cp_cache = cache, sleeps = []\<rparr> of
             None \<Rightarrow> None
           | Some (copy_ok, s) \<Rightarrow>
               let written = fs(tmp \<mapsto> \<lparr>content = out_bytes s, mtime = c_time C\<rparr>);
                   unlinked = (if c_unlink C then written(tmp := None) else written) in
               if \<not> copy_ok \<or> \<not> c_running_end C then Some (False, unlinked, cp_cache s)
               else if \<not> c_rename C then Some (False, unlinked, cp_cache s)
               else Some (True, (written(tmp := None))(dst_path \<mapsto>
                      \<lparr>content = out_bytes s, mtime = if c_utimens C then fs_mtime src_stat else c_time C\<rparr>), cp_cache s)))"

section \<open>Remembering\<close>

text \<open>The lines that \<^verbatim>\<open>getline\<close> delivers: a final line without newline counts if it is not empty.\<close>

fun getlines :: "string \<Rightarrow> string \<Rightarrow> string list" where
  "getlines line [] = (if line = [] then [] else [line])"
| "getlines line (c # cs) = (if c = CHR 0x0A then line # getlines [] cs else getlines (line @ [c]) cs)"

definition read_token :: "string \<Rightarrow> (string \<times> string) option" where
  "read_token s = (let t = dropWhile isspace s; w = takeWhile (\<lambda>c. \<not> isspace c) t in
     if w = [] then None else Some (w, dropWhile (\<lambda>c. \<not> isspace c) t))"

definition read_i64 :: "string \<Rightarrow> (int \<times> string) option" where
  "read_i64 s = (case scan_number s of None \<Rightarrow> None
   | Some (neg, v, rest) \<Rightarrow> let i = (if neg then - int v else int v) in
       if i < - (2 ^ 63) \<or> i \<ge> 2 ^ 63 then None else Some (i, rest))"

definition parse_state_line :: "string \<Rightarrow> (string \<times> FileStat) option" where
  "parse_state_line line =
     (if line = [] \<or> hd line = CHR ''#'' then None
      else do {(path, s) \<leftarrow> read_token line; (sz, s) \<leftarrow> read_u64 s; (mt, s) \<leftarrow> read_i64 s;
               Some (path, \<lparr>fs_size = sz, fs_mtime = mt\<rparr>)})"

definition load_line :: "string \<Rightarrow> (string \<Rightarrow> FileStat option) \<Rightarrow> (string \<Rightarrow> FileStat option)" where
  "load_line line st = (case parse_state_line line of None \<Rightarrow> st | Some (path, x) \<Rightarrow> st(path \<mapsto> x))"

definition LoadState :: "md \<Rightarrow> md" where
  "LoadState m = m\<lparr>synced := fold load_line (getlines [] (state_file m)) (synced m)\<rparr>"

definition int_to_string :: "int \<Rightarrow> string" where
  "int_to_string i = (if i < 0 then CHR ''-'' # to_string (nat (- i)) else to_string (nat i))"

definition state_line :: "string \<Rightarrow> FileStat \<Rightarrow> string" where
  "state_line path st = path @ [CHR 0x09] @ to_string (unat (fs_size st)) @ [CHR 0x09] @ int_to_string (fs_mtime st) @ [CHR 0x0A]"

definition SaveStateEntry :: "bool \<Rightarrow> files \<Rightarrow> string \<Rightarrow> md \<Rightarrow> md" where
  "SaveStateEntry opens fs src_path m = (case StatFile fs src_path of None \<Rightarrow> m
   | Some st \<Rightarrow> let m = m\<lparr>synced := (synced m)(src_path \<mapsto> st)\<rparr> in
       if opens then m\<lparr>state_file := state_file m @ state_line src_path st\<rparr> else m)"

definition IsSynced :: "files \<Rightarrow> string \<Rightarrow> md \<Rightarrow> bool" where
  "IsSynced fs src_path m = (case synced m src_path of None \<Rightarrow> False
   | Some st \<Rightarrow> (case StatFile fs src_path of None \<Rightarrow> False
     | Some current \<Rightarrow> fs_size current = fs_size st \<and> fs_mtime current = fs_mtime st))"

section \<open>The copy loop\<close>

lemma write_all_result:
  assumes "write_all ws buf out = Some (True, out')"
  shows "out' = out @ buf"
  using assms by (induction ws buf out rule: write_all.induct) (auto split: if_splits)

text \<open>Writes that make progress finish a buffer.\<close>

lemma write_all_finishes:
  assumes "list_all (\<lambda>w. \<exists>n\<ge>1. w = IoUpTo n) ws" and "length buf \<le> length ws"
  shows "write_all ws buf out = Some (True, out @ buf)"
  using assms
proof (induction ws buf out rule: write_all.induct)
  case (4 n ws b bs out)
  have "length (drop n (b # bs)) \<le> length ws" using "4.prems" by auto
  then show ?case using 4 by simp
qed auto

lemma after_chunk_simps [simp]:
  "in_pos (after_chunk n rate ob s) = in_pos s" "out_bytes (after_chunk n rate ob s) = out_bytes s"
  by (simp_all add: after_chunk_def case_prod_beta)

text \<open>What has been copied is the part of the source before the position.\<close>

definition copied_ok :: "u8 list \<Rightarrow> cp \<Rightarrow> bool" where
  "copied_ok src s \<longleftrightarrow> out_bytes s = take (in_pos s) src \<and> in_pos s \<le> length src"

lemma copied_ok_mono: "copied_ok src s \<Longrightarrow> prefix src src' \<Longrightarrow> copied_ok src' s"
  by (auto simp: copied_ok_def prefix_def)

lemma take_more: "n \<le> length src \<Longrightarrow> take n src @ take k (drop n src) = take (n + length (take k (drop n src))) src"
  by (simp add: take_add [symmetric] min_def)

text \<open>The ways a pass can end: some bytes moved, an interrupted read, the end of the source, a failure.\<close>

lemma copy_pass_outcome:
  assumes "copy_pass g_max ob s = Some (r, s')"
  obtains (moved) k where "r = None" "take k (drop (in_pos s) (b_src ob)) \<noteq> []"
      "in_pos s' = in_pos s + length (take k (drop (in_pos s) (b_src ob)))"
      "out_bytes s' = out_bytes s @ take k (drop (in_pos s) (b_src ob))"
    | (again) "r = None" "in_pos s' = in_pos s" "out_bytes s' = out_bytes s" "b_read ob = IoFail EINTR"
    | (eof) "r = Some True" "drop (in_pos s) (b_src ob) = []" "out_bytes s' = out_bytes s"
    | (failed) "r = Some False"
proof -
  obtain rate cache where rc: "CurrentMaxBytesPerSec g_max (b_now ob) (b_rate_text ob) (cp_cache s) = (rate, cache)" by fastforce
  let ?s = "s\<lparr>cp_cache := cache\<rparr>" and ?rest = "drop (in_pos s) (b_src ob)"
  show ?thesis
  proof (cases "range_bytes ob ?s = []")
    case False
    then show ?thesis using assms moved [of "min (nat (b_range ob)) kCopyChunk"] by (auto simp: copy_pass_def rc range_bytes_def)
  next
    case True
    then have rw: "read_write_pass rate ob ?s = Some (r, s')" using assms by (simp add: copy_pass_def rc)
    show ?thesis
    proof (cases "b_read ob")
      case (IoFail e)
      then show ?thesis using rw again failed by (auto simp: read_write_pass_def split: if_splits)
    next
      case (IoUpTo n)
      let ?buf = "take (min (Suc n) kCopyChunk) ?rest"
      show ?thesis
      proof (cases "?buf = []")
        case True
        then have "?rest = []" by (simp add: kCopyChunk_def)
        then show ?thesis using rw IoUpTo eof by (auto simp: read_write_pass_def)
      next
        case False
        then obtain ok out where w: "write_all (b_writes ob) ?buf (out_bytes s) = Some (ok, out)"
          using rw IoUpTo by (auto simp: read_write_pass_def Let_def split: option.splits if_splits)
        show ?thesis
        proof (cases ok)
          case True
          then have "out = out_bytes s @ ?buf" using w by (auto dest: write_all_result)
          then show ?thesis using rw IoUpTo w True False moved [of "min (Suc n) kCopyChunk"] by (auto simp: read_write_pass_def Let_def split: if_splits)
        next
          case no: False
          then show ?thesis using rw IoUpTo w False failed by (auto simp: read_write_pass_def Let_def split: if_splits)
        qed
      qed
    qed
  qed
qed

lemma copy_pass_cases:
  assumes "copied_ok (b_src ob) s" and "copy_pass g_max ob s = Some (r, s')"
  shows "(r = None \<longrightarrow> copied_ok (b_src ob) s') \<and> (r = Some True \<longrightarrow> out_bytes s' = b_src ob)"
  using assms(2)
proof (cases rule: copy_pass_outcome)
  case (moved k)
  then show ?thesis using assms(1) take_more [of "in_pos s" "b_src ob" k] by (auto simp: copied_ok_def min_def)
qed (use assms(1) in \<open>auto simp: copied_ok_def\<close>)

lemma copy_loop_result:
  assumes "copy_loop g_max obs s = Some (True, s')" and "list_all b_running obs"
    and "sorted_wrt prefix (src # map b_src obs)" and "copied_ok src s"
  shows "\<exists>ob\<in>set obs. out_bytes s' = b_src ob"
  using assms
proof (induction obs arbitrary: s src)
  case (Cons ob obs)
  have ok: "copied_ok (b_src ob) s" using Cons.prems copied_ok_mono by auto
  obtain r t where t: "copy_pass g_max ob s = Some (r, t)"
    using Cons.prems(1,2) by (cases "copy_pass g_max ob s") auto
  show ?case
  proof (cases r)
    case None
    then show ?thesis using Cons t copy_pass_cases [OF ok t] by auto
  next
    case (Some b)
    then show ?thesis using Cons.prems(1,2) t copy_pass_cases [OF ok t] by auto
  qed
qed simp

section \<open>Copies are atomic\<close>

lemma CopyFile_outcome:
  assumes "CopyFile C g_max obs src dst fs cache = Some (ok, fs', cache')"
  obtains (early) "\<not> ok" "fs' = fs"
    | (failed) out where "\<not> ok" "fs' = fs(tmp_path dst := (if c_unlink C then None else Some \<lparr>content = out, mtime = c_time C\<rparr>))"
    | (success) f s where "ok" "fs src = Some f" "copy_loop g_max obs \<lparr>in_pos = 0, out_bytes = [], cp_window = \<lparr>window_start = c_start C, window_bytes = 0\<rparr>,
        cp_cache = cache, sleeps = []\<rparr> = Some (True, s)" "c_running_end C"
        "fs' = fs(tmp_path dst := None, dst \<mapsto> \<lparr>content = out_bytes s, mtime = if c_utimens C then mtime f else c_time C\<rparr>)"
proof (cases "fs src")
  case None
  then show ?thesis using assms early by (simp add: CopyFile_def StatFile_def)
next
  case (Some f)
  show ?thesis
  proof (cases "c_open_in C \<and> EnsureParentDirs (c_mkdir C) dst \<and> c_open_out C")
    case False
    then show ?thesis using assms early Some by (auto simp: CopyFile_def StatFile_def split: if_splits)
  next
    case True
    then obtain b s where l: "copy_loop g_max obs \<lparr>in_pos = 0, out_bytes = [], cp_window = \<lparr>window_start = c_start C, window_bytes = 0\<rparr>,
        cp_cache = cache, sleeps = []\<rparr> = Some (b, s)"
      using assms Some by (auto simp: CopyFile_def StatFile_def Let_def split: option.splits)
    show ?thesis
    proof (cases "b \<and> c_running_end C \<and> c_rename C")
      case False
      then show ?thesis using assms Some True l failed [of "out_bytes s"] by (auto simp: CopyFile_def StatFile_def Let_def split: if_splits)
    next
      case yes: True
      then show ?thesis using assms Some True l success [of f s] by (auto simp: CopyFile_def StatFile_def Let_def cong: if_cong)
    qed
  qed
qed

lemma not_own_suffix: "dst \<noteq> tmp_path dst"
  by (simp add: tmp_path_def)

text \<open>C17: A copy is atomic.  If it succeeds, the destination holds, byte for byte, what the source file held when its end was
  reached, even if the source was appended to meanwhile, with the modification time of the source when that
  can be set, and no temporary file is left; if it fails, the destination is what it was.  No other file is
  touched in either case, and a file that was not modified meanwhile needs no further copy.\<close>
theorem CopyFile_atomic:
  assumes "CopyFile C g_max obs src dst fs cache = Some (ok, fs', cache')"
    and "sorted_wrt prefix (map b_src obs)" and "c_running_end C \<longrightarrow> list_all b_running obs" and "src \<noteq> dst"
  shows "(ok \<longrightarrow> (\<exists>ob\<in>set obs. \<exists>f. fs src = Some f
            \<and> fs' dst = Some \<lparr>content = b_src ob, mtime = if c_utimens C then mtime f else c_time C\<rparr>
            \<and> (b_src ob = content f \<and> c_utimens C \<and> src \<noteq> tmp_path dst \<longrightarrow> \<not> NeedsCopy fs' src dst)) \<and> fs' (tmp_path dst) = None)
    \<and> (\<not> ok \<longrightarrow> fs' dst = fs dst)
    \<and> (\<forall>p. p \<noteq> dst \<and> p \<noteq> tmp_path dst \<longrightarrow> fs' p = fs p)"
  using assms(1)
proof (cases rule: CopyFile_outcome)
  case (success f s)
  have "sorted_wrt prefix ([] # map b_src obs)" using assms(2) by simp
  from copy_loop_result [OF success(3) _ this] assms(3) success(4)
  obtain ob where "ob \<in> set obs" "out_bytes s = b_src ob" by (auto simp: copied_ok_def)
  then show ?thesis using success not_own_suffix [of dst] assms(4) by (auto simp: NeedsCopy_def StatFile_def)
qed (use not_own_suffix [of dst] in auto)

text \<open>A copy comes to an end: if no call fails and every call moves at least one byte, a file of n bytes is copied within n + 1
  passes of the loop.\<close>
lemma CopyFile_completes:
  assumes "fs src = Some f" and "length obs > length (content f)"
    and "\<forall>ob\<in>set obs. b_running ob \<and> b_src ob = content f \<and> (\<exists>n. b_read ob = IoUpTo n)
        \<and> length (b_writes ob) \<ge> kCopyChunk \<and> list_all (\<lambda>w. \<exists>n\<ge>1. w = IoUpTo n) (b_writes ob)"
    and "c_open_in C" "EnsureParentDirs (c_mkdir C) dst" "c_open_out C" "c_running_end C" "c_rename C" "c_utimens C"
  shows "\<exists>cache'. CopyFile C g_max obs src dst fs cache
      = Some (True, fs(tmp_path dst := None, dst \<mapsto> \<lparr>content = content f, mtime = mtime f\<rparr>), cache')"
proof -
  have pass: "\<exists>r s'. copy_pass g_max ob s = Some (r, s') \<and> r \<noteq> Some False" if "ob \<in> set obs" for ob s
  proof -
    note h = bspec [OF assms(3) that]
    obtain n where n: "b_read ob = IoUpTo n" using h by (elim conjE exE)
    from h have "list_all (\<lambda>w. \<exists>n\<ge>1. w = IoUpTo n) (b_writes ob)" "kCopyChunk \<le> length (b_writes ob)" by - (elim conjE, assumption)+
    then have "write_all (b_writes ob) (take (min (Suc n) kCopyChunk) xs) out = Some (True, out @ take (min (Suc n) kCopyChunk) xs)" for xs out
      by (intro write_all_finishes) simp_all
    then show ?thesis using n by (simp add: copy_pass_def read_write_pass_def case_prod_beta Let_def)
  qed
  have "\<exists>s'. copy_loop g_max xs s = Some (True, s') \<and> out_bytes s' = content f"
    if "set xs \<subseteq> set obs" "length xs > length (content f) - in_pos s" "copied_ok (content f) s" for xs s
    using that
  proof (induction xs arbitrary: s)
    case (Cons ob xs)
    have ob: "ob \<in> set obs" "b_running ob" "b_src ob = content f" "b_read ob \<noteq> IoFail EINTR" using Cons.prems(1) assms(3) by auto
    obtain r s' where p: "copy_pass g_max ob s = Some (r, s')" and nf: "r \<noteq> Some False" using pass [OF ob(1)] by blast
    have ok: "copied_ok (b_src ob) s" using Cons.prems(3) ob(3) by simp
    note c = copy_pass_cases [OF ok p]
    from p show ?case
    proof (cases rule: copy_pass_outcome)
      case (moved k)
      then have "length xs > length (content f) - in_pos s'" using Cons.prems(2,3) ob(3) by (auto simp: copied_ok_def)
      then show ?thesis using Cons.IH [of s'] Cons.prems(1) c moved(1) p ob by simp
    next
      case eof
      then show ?thesis using c p ob by simp
    next
      case failed
      then show ?thesis using nf by simp
    qed (use ob in simp)
  qed simp
  from this [of obs "\<lparr>in_pos = 0, out_bytes = [], cp_window = \<lparr>window_start = c_start C, window_bytes = 0\<rparr>,
        cp_cache = cache, sleeps = []\<rparr>"] assms(2) obtain s where
    "copy_loop g_max obs \<lparr>in_pos = 0, out_bytes = [], cp_window = \<lparr>window_start = c_start C, window_bytes = 0\<rparr>,
        cp_cache = cache, sleeps = []\<rparr> = Some (True, s)" "out_bytes s = content f" by (auto simp: copied_ok_def)
  then show ?thesis using assms by (simp add: CopyFile_def StatFile_def Let_def)
qed

definition good_copy :: copy_env where
  "good_copy = \<lparr>c_open_in = True, c_mkdir = (\<lambda>_. True), c_open_out = True, c_start = 0, c_running_end = True, c_unlink = True,
     c_rename = True, c_utimens = True, c_time = 99\<rparr>"

definition one_file :: files where
  "one_file = Map.empty(''/n/a'' \<mapsto> \<lparr>content = [1, 2], mtime = 5\<rparr>)"

text \<open>The source holds one byte at first and two when the end is reached.\<close>

definition two_passes :: "cobs list" where
  "two_passes = [\<lparr>b_running = True, b_src = [1], b_range = 5, b_read = IoUpTo 0, b_writes = [], b_rate_text = None, b_now = 0, b_now_after = 0\<rparr>,
     \<lparr>b_running = True, b_src = [1, 2], b_range = - 1, b_read = IoUpTo 9, b_writes = [IoFail 4, IoUpTo 3], b_rate_text = None, b_now = 0, b_now_after = 0\<rparr>,
     \<lparr>b_running = True, b_src = [1, 2], b_range = 0, b_read = IoUpTo 9, b_writes = [], b_rate_text = None, b_now = 0, b_now_after = 0\<rparr>]"

lemmas copy_simps = CopyFile_def StatFile_def good_copy_def EnsureParentDirs_def copy_pass_def read_write_pass_def range_bytes_def
  CurrentMaxBytesPerSec_def after_chunk_def ApplyRateLimit_def kCopyChunk_def EINTR_def find_last_of_def

theorem CopyFile_atomic_witness:
  "\<exists>fs'. (\<exists>c. CopyFile good_copy 0 two_passes ''/n/a'' ''/b/a'' one_file \<lparr>cached = 0, last_read = 0\<rparr> = Some (True, fs', c))
     \<and> fs' (tmp_path ''/b/a'') = None \<and> fs' ''/n/a'' = Some \<lparr>content = [1, 2], mtime = 5\<rparr>"
proof -
  obtain fs' c where r: "CopyFile good_copy 0 two_passes ''/n/a'' ''/b/a'' one_file \<lparr>cached = 0, last_read = 0\<rparr> = Some (True, fs', c)"
    by (simp add: copy_simps one_file_def two_passes_def)
  from CopyFile_atomic [OF r] have "fs' (tmp_path ''/b/a'') = None" "fs' ''/n/a'' = one_file ''/n/a''"
    by (simp_all add: two_passes_def tmp_path_def)
  then show ?thesis using r by (auto simp: one_file_def)
qed

definition slow_pass :: cobs where
  "slow_pass = \<lparr>b_running = True, b_src = [1, 2], b_range = - 1, b_read = IoUpTo 0, b_writes = replicate kCopyChunk (IoUpTo 1),
     b_rate_text = None, b_now = 0, b_now_after = 0\<rparr>"

section \<open>The state file\<close>

lemma digit_plain: "isdigit x \<Longrightarrow> \<not> isspace x \<and> x \<noteq> CHR ''-'' \<and> x \<noteq> CHR ''+''"
  by (auto simp: isdigit_def isspace_def)

lemma to_string_plain: "x \<in> set (to_string n) \<Longrightarrow> isdigit x"
  using to_string_digits [of n] by (simp add: list_all_iff)

lemma to_string_Cons: obtains x xs where "to_string n = x # xs" "isdigit x"
  using to_string_plain [of "hd (to_string n)" n] by (cases "to_string n") auto

lemma scan_to_string:
  assumes "isspace c" and "rest = [] \<or> \<not> isdigit (hd rest)"
  shows "scan_number (c # to_string n @ rest) = Some (False, n, rest)"
proof -
  obtain x xs where x: "to_string n = x # xs" "isdigit x" by (rule to_string_Cons)
  have "takeWhile isdigit (to_string n @ rest) = to_string n" "dropWhile isdigit (to_string n @ rest) = rest"
    using assms(2) to_string_plain [of _ n] by (cases rest; simp add: takeWhile_append dropWhile_append)+
  moreover have "digits_val (x # xs) = n" using digits_val_to_string [of n] x(1) by simp
  ultimately show ?thesis using x digit_plain [OF x(2)] assms(1) by (simp add: scan_number_def Let_def)
qed

lemma scan_int_to_string:
  assumes "isspace c"
  shows "scan_number (c # int_to_string i) = Some (i < 0, nat \<bar>i\<bar>, [])"
proof (cases "i < 0")
  case True
  obtain x xs where x: "to_string (nat (- i)) = x # xs" by (rule to_string_Cons)
  have "takeWhile isdigit (to_string (nat (- i))) = to_string (nat (- i))" "dropWhile isdigit (to_string (nat (- i))) = []"
    using to_string_plain [of _ "nat (- i)"] by (simp_all add: takeWhile_eq_all_conv)
  moreover have "\<not> isspace CHR ''-''" by (simp add: isspace_def)
  ultimately show ?thesis using True assms by (simp add: scan_number_def int_to_string_def Let_def del: takeWhile_eq_all_conv)
next
  case False
  then show ?thesis using scan_to_string [OF assms, of "[]" "nat i"] by (simp add: int_to_string_def)
qed

text \<open>A path that survives the format: no white space, not empty, not a comment.\<close>

definition plain_path :: "string \<Rightarrow> bool" where
  "plain_path p \<longleftrightarrow> p \<noteq> [] \<and> hd p \<noteq> CHR ''#'' \<and> list_all (\<lambda>c. \<not> isspace c) p"

definition int64 :: "int \<Rightarrow> bool" where
  "int64 i \<longleftrightarrow> - (2 ^ 63) \<le> i \<and> i < 2 ^ 63"

lemma parse_state_line_ok:
  assumes "plain_path p" and "int64 (fs_mtime st)"
  shows "parse_state_line (p @ [CHR 0x09] @ to_string (unat (fs_size st)) @ [CHR 0x09] @ int_to_string (fs_mtime st)) = Some (p, st)"
proof -
  have tab: "isspace CHR 0x09" "\<not> isdigit CHR 0x09" by (simp_all add: isspace_def isdigit_def)
  obtain x xs where p: "p = x # xs" "\<not> isspace x" "x \<noteq> CHR ''#''" using assms(1) by (cases p) (auto simp: plain_path_def)
  have "takeWhile (\<lambda>c. \<not> isspace c) (p @ CHR 0x09 # rest) = p" "dropWhile (\<lambda>c. \<not> isspace c) (p @ CHR 0x09 # rest) = CHR 0x09 # rest" for rest
    using assms(1) tab by (auto simp: plain_path_def list_all_iff takeWhile_append dropWhile_append)
  then have tok: "read_token (p @ CHR 0x09 # rest) = Some (p, CHR 0x09 # rest)" for rest
    using p by (simp add: read_token_def Let_def)
  have "unat (fs_size st) < 2 ^ 64" using unsigned_less [of "fs_size st", where ?'a = nat] by simp
  then have "read_u64 (CHR 0x09 # to_string (unat (fs_size st)) @ CHR 0x09 # rest) = Some (fs_size st, CHR 0x09 # rest)" for rest
    using scan_to_string [OF tab(1), of "CHR 0x09 # rest"] tab(2) by (simp add: read_u64_def)
  moreover have "read_i64 (CHR 0x09 # int_to_string (fs_mtime st)) = Some (fs_mtime st, [])"
    using scan_int_to_string [OF tab(1)] assms(2) by (auto simp: read_i64_def int64_def Let_def)
  ultimately show ?thesis using p tok by (simp add: parse_state_line_def)
qed

lemma getlines_line: "CHR 0x0A \<notin> set a \<Longrightarrow> getlines l (a @ CHR 0x0A # b) = (l @ a) # getlines [] b"
  by (induction a arbitrary: l) auto

lemma getlines_append:
  assumes "t = [] \<or> last t = CHR 0x0A"
  shows "getlines l (t @ b) = (if t = [] then getlines l b else getlines l t @ getlines [] b)"
  using assms by (induction l t rule: getlines.induct) (auto split: if_splits)

lemma state_line_no_newline:
  assumes "plain_path p"
  shows "CHR 0x0A \<notin> set (p @ [CHR 0x09] @ to_string n @ [CHR 0x09] @ int_to_string i)"
proof -
  have nl: "isspace CHR 0x0A" "\<not> isdigit CHR 0x0A" by (simp_all add: isspace_def isdigit_def)
  then have "CHR 0x0A \<notin> set p" using assms by (auto simp: plain_path_def list_all_iff)
  moreover have "CHR 0x0A \<notin> set (to_string k)" for k using nl to_string_plain by blast
  ultimately show ?thesis by (auto simp: int_to_string_def)
qed

text \<open>The file holds what is in memory.\<close>

definition state_saved :: "md \<Rightarrow> bool" where
  "state_saved m \<longleftrightarrow> (state_file m = [] \<or> last (state_file m) = CHR 0x0A)
     \<and> fold load_line (getlines [] (state_file m)) Map.empty = synced m"

lemma SaveStateEntry_saved:
  assumes "state_saved m" and "plain_path p" and "\<And>st. StatFile fs p = Some st \<Longrightarrow> int64 (fs_mtime st)"
  shows "state_saved (SaveStateEntry True fs p m)"
proof (cases "StatFile fs p")
  case (Some st)
  let ?body = "p @ [CHR 0x09] @ to_string (unat (fs_size st)) @ [CHR 0x09] @ int_to_string (fs_mtime st)"
  have line: "state_line p st = ?body @ CHR 0x0A # []" by (simp add: state_line_def)
  have one: "getlines [] (state_line p st) = [?body]"
    unfolding line using getlines_line [OF state_line_no_newline [OF assms(2)], of "[]" "unat (fs_size st)" "fs_mtime st" "[]"] by simp
  have "getlines [] (state_file m @ state_line p st) = getlines [] (state_file m) @ [?body]"
    using getlines_append [of "state_file m" "[]" "state_line p st"] assms(1) one by (auto simp: state_saved_def)
  moreover have "load_line ?body f = f(p \<mapsto> st)" for f
    using parse_state_line_ok [OF assms(2)] assms(3) [OF Some] by (simp add: load_line_def)
  ultimately show ?thesis using assms(1) Some by (simp add: SaveStateEntry_def state_saved_def line)
qed (use assms(1) in \<open>simp add: SaveStateEntry_def\<close>)

text \<open>C20: What the daemon remembers survives a restart: after any number of completed copies, on top of what an earlier
  run left in the state file, loading the file gives exactly the entries in memory, the newest for each path.
  (Paths without white space; the format has no escapes.)\<close>
theorem state_survives_restart:
  assumes "state_saved m"
    and "\<forall>(fs, p)\<in>set saves. plain_path p \<and> (case StatFile fs p of None \<Rightarrow> True | Some st \<Rightarrow> int64 (fs_mtime st))"
  shows "let m' = fold (\<lambda>(fs, p). SaveStateEntry True fs p) saves m in synced (LoadState (m'\<lparr>synced := Map.empty\<rparr>)) = synced m'"
proof -
  have "state_saved (fold (\<lambda>(fs, p). SaveStateEntry True fs p) saves m)"
    using assms
  proof (induction saves arbitrary: m)
    case (Cons e saves)
    obtain fs p where e: "e = (fs, p)" by (cases e)
    have "state_saved (SaveStateEntry True fs p m)"
      using Cons.prems by (intro SaveStateEntry_saved) (simp_all add: e)
    then show ?case using Cons e by simp
  qed simp
  then show ?thesis by (simp add: Let_def LoadState_def state_saved_def)
qed

theorem state_survives_restart_witness:
  "synced (LoadState ((SaveStateEntry True one_file ''/n/a'' (sample_md\<lparr>synced := Map.empty\<rparr>))\<lparr>synced := Map.empty\<rparr>)) ''/n/a''
     = Some \<lparr>fs_size = 2, fs_mtime = 5\<rparr>"
proof -
  have "state_saved (sample_md\<lparr>synced := Map.empty\<rparr>)" by (simp add: state_saved_def sample_md_def)
  then show ?thesis using state_survives_restart [of "sample_md\<lparr>synced := Map.empty\<rparr>" "[(one_file, ''/n/a'')]"]
    by (simp add: one_file_def StatFile_def plain_path_def isspace_def int64_def SaveStateEntry_def)
qed

end
