(* ===== verification/Mirror_Daemon.thy ===== *)
theory Mirror_Daemon
  imports Mirror_Copy
begin

text \<open>
  The threads of the mirror daemon, from \<^verbatim>\<open>daemon/mirror_engine.cpp\<close>: the scan of the files left by earlier runs, the
  watcher that turns inotify events into requests, and the worker that copies.  The queues are only touched
  under the mutex, so requests, the choice of a job and its completion are atomic steps; between them the other
  threads, the data acquisition and the operating system go on.
\<close>

section \<open>Scanning\<close>

text \<open>What \<^verbatim>\<open>stat\<close> and \<^verbatim>\<open>readdir\<close> show below a path: a regular file, a directory with or without permission to
  list it, or anything else (also a name that is gone).\<close>

datatype node = NReg | NOther | NClosed | NDir "(string \<times> node) list"

record denv =
  d_os :: os_view
  d_min_mtime :: int
  d_fs :: files
  d_tree :: "string \<Rightarrow> node"
  d_readable :: "string \<Rightarrow> bool"

definition hidden :: "string \<Rightarrow> bool" where
  "hidden name \<longleftrightarrow> name \<noteq> [] \<and> hd name = CHR ''.''"

fun scan :: "denv \<Rightarrow> string \<Rightarrow> node \<Rightarrow> md \<Rightarrow> md"
and scan_entries :: "denv \<Rightarrow> string \<Rightarrow> (string \<times> node) list \<Rightarrow> md \<Rightarrow> md" where
  "scan D path NReg m = (if \<not> IsSynced (d_fs D) path m then Enqueue (d_os D) (d_min_mtime D) (d_fs D) path m else m)"
| "scan D path NOther m = m"
| "scan D path NClosed m = m"
| "scan D path (NDir es) m = scan_entries D path es m"
| "scan_entries D path [] m = m"
| "scan_entries D path ((name, n) # es) m =
     scan_entries D path es (if hidden name then m else scan D (path @ ''/'' @ name) n m)"

definition ScanDirectory :: "denv \<Rightarrow> string \<Rightarrow> md \<Rightarrow> md" where
  "ScanDirectory D dir_path m = (if \<not> d_readable D dir_path then m else scan D dir_path (d_tree D dir_path) m)"

definition watched_paths :: "os_view \<Rightarrow> string list" where
  "watched_paths os = concat (map (\<lambda>subdir. map (\<lambda>root. root @ ''/'' @ subdir) (GetNvmeCandidatesFromEnv os)) kWatchSubdirs)"

definition ScanBacklog :: "denv \<Rightarrow> md \<Rightarrow> md" where
  "ScanBacklog D m = fold (ScanDirectory D) (watched_paths (d_os D)) m"

section \<open>The watcher\<close>

definition IN_CLOSE_WRITE :: u32 where "IN_CLOSE_WRITE = 0x8"
definition IN_MOVED_TO :: u32 where "IN_MOVED_TO = 0x80"
definition IN_CREATE :: u32 where "IN_CREATE = 0x100"
definition IN_ISDIR :: u32 where "IN_ISDIR = 0x40000000"

type_synonym watches = "int \<Rightarrow> string option"

text \<open>\<^verbatim>\<open>wd\<close> is the descriptor that \<^verbatim>\<open>inotify_add_watch\<close> gives for a directory, negative if it fails.\<close>

definition is_dir :: "node \<Rightarrow> bool" where
  "is_dir n = (case n of NDir _ \<Rightarrow> True | NClosed \<Rightarrow> True | _ \<Rightarrow> False)"

fun add_watch :: "(string \<Rightarrow> int) \<Rightarrow> bool \<Rightarrow> string \<Rightarrow> node \<Rightarrow> watches \<Rightarrow> watches"
and add_watch_entries :: "(string \<Rightarrow> int) \<Rightarrow> string \<Rightarrow> (string \<times> node) list \<Rightarrow> watches \<Rightarrow> watches" where
  "add_watch wd recurse dir (NDir es) ws =
     (if wd dir < 0 then ws
      else let ws = ws(wd dir \<mapsto> dir) in if \<not> recurse then ws else add_watch_entries wd dir es ws)"
| "add_watch wd recurse dir _ ws = (if wd dir < 0 then ws else ws(wd dir \<mapsto> dir))"
| "add_watch_entries wd dir [] ws = ws"
| "add_watch_entries wd dir ((name, n) # es) ws =
     add_watch_entries wd dir es
       (if hidden name then ws else if is_dir n then add_watch wd True (dir @ ''/'' @ name) n ws else ws)"

definition tof_roots :: "os_view \<Rightarrow> string list" where
  "tof_roots os = map (\<lambda>root. root @ ''/tof_data'') (GetNvmeCandidatesFromEnv os)"

definition initial_watches :: "denv \<Rightarrow> (string \<Rightarrow> int) \<Rightarrow> watches" where
  "initial_watches D wd = fold (\<lambda>subdir ws. fold (\<lambda>root ws. add_watch wd (subdir = ''tof_data'') (root @ ''/'' @ subdir)
       (d_tree D (root @ ''/'' @ subdir)) ws) (GetNvmeCandidatesFromEnv (d_os D)) ws) kWatchSubdirs Map.empty"

record ievent =
  ev_wd :: int
  ev_mask :: u32
  ev_name :: string

definition handle_event :: "denv \<Rightarrow> (string \<Rightarrow> int) \<Rightarrow> ievent \<Rightarrow> watches \<times> md \<Rightarrow> watches \<times> md" where
  "handle_event D wd ev = (\<lambda>(ws, m).
     if ev_name ev = [] \<or> hidden (ev_name ev) then (ws, m)
     else case ws (ev_wd ev) of None \<Rightarrow> (ws, m)
     | Some dir \<Rightarrow>
         let full = dir @ ''/'' @ ev_name ev in
         if ev_mask ev AND IN_ISDIR \<noteq> 0 \<or> is_dir (d_tree D full)
         then (if ev_mask ev AND (IN_CREATE OR IN_MOVED_TO) \<noteq> 0 \<and> IsTofPath full
               then (add_watch wd True full (d_tree D full) ws, m) else (ws, m))
         else if ev_mask ev AND (IN_CLOSE_WRITE OR IN_MOVED_TO) \<noteq> 0
         then (ws, Enqueue (d_os D) (d_min_mtime D) (d_fs D) full m) else (ws, m))"

text \<open>A read of the inotify descriptor; the descriptor does not block, so without events it fails and the watcher
  looks for new directories below the TOF directories.\<close>

datatype iread = Events "ievent list" | ReadError int

record iobs =
  i_running :: bool
  i_env :: denv
  i_wd :: "string \<Rightarrow> int"
  i_read :: iread

definition watch_pass :: "iobs \<Rightarrow> watches \<times> md \<Rightarrow> watches \<times> md" where
  "watch_pass ob s = (case i_read ob of
     Events evs \<Rightarrow> fold (handle_event (i_env ob) (i_wd ob)) evs s
   | ReadError e \<Rightarrow> if e = EINTR then s
       else (fold (\<lambda>root ws. add_watch (i_wd ob) True root (d_tree (i_env ob) root) ws) (tof_roots (d_os (i_env ob))) (fst s), snd s))"

fun watch_loop :: "iobs list \<Rightarrow> watches \<times> md \<Rightarrow> (watches \<times> md) option" where
  "watch_loop [] s = None"
| "watch_loop (ob # obs) s = (if \<not> i_running ob then Some s else watch_loop obs (watch_pass ob s))"

text \<open>Without an inotify descriptor the thread only waits for the end.\<close>

definition RunInotify :: "int \<Rightarrow> denv \<Rightarrow> (string \<Rightarrow> int) \<Rightarrow> iobs list \<Rightarrow> md \<Rightarrow> (watches \<times> md) option" where
  "RunInotify fd D wd obs m = (if fd < 0 then (if list_ex (\<lambda>ob. \<not> i_running ob) obs then Some (Map.empty, m) else None)
     else watch_loop obs (initial_watches D wd, m))"

section \<open>The worker\<close>

definition RequestStop :: "md \<Rightarrow> md" where
  "RequestStop m = m\<lparr>md_running := False\<rparr>"

text \<open>The environment of one job: the system calls and observations of its copy, and whether the state file opens.\<close>

record wenv =
  w_copy :: copy_env
  w_obs :: "cobs list"
  w_opens :: bool

definition copy_job :: "wenv \<Rightarrow> u64 \<Rightarrow> PendingFile \<Rightarrow> files \<Rightarrow> rate_cache \<Rightarrow> (bool \<times> files \<times> rate_cache) option" where
  "copy_job W g_max job fs cache =
     (if pf_dst job \<noteq> [] \<and> NeedsCopy fs (pf_path job) (pf_dst job)
      then CopyFile (w_copy W) g_max (w_obs W) (pf_path job) (pf_dst job) fs cache
      else Some (False, fs, cache))"

definition save_job :: "wenv \<Rightarrow> bool \<Rightarrow> PendingFile \<Rightarrow> files \<Rightarrow> md \<Rightarrow> md" where
  "save_job W copied job fs m = (if copied then SaveStateEntry (w_opens W) fs (pf_path job) m else m)"

definition finish_job :: "bool \<Rightarrow> PendingFile \<Rightarrow> md \<Rightarrow> md" where
  "finish_job copied job m =
     (let m = (if \<not> copied then m
               else if run_id (pf_meta job) = kTofRunId then m\<lparr>tof_copied_bytes := tof_copied_bytes m + pf_size job\<rparr>
               else m\<lparr>tpc_copied_bytes := tpc_copied_bytes m + pf_size job\<rparr>)
      in m\<lparr>pending := removeAll (pf_path job) (pending m)\<rparr>)"

text \<open>The worker on its own, for the jobs of the given environments.  Without a job it waits for a request or the
  stop; with nobody else running, a wait that is not ended by the stop lasts for ever.\<close>

fun RunWorker :: "wenv list \<Rightarrow> u64 \<Rightarrow> md \<Rightarrow> files \<Rightarrow> rate_cache \<Rightarrow> (md \<times> files \<times> rate_cache) option" where
  "RunWorker [] g_max m fs cache = (case PopNext m of
      (None, m) \<Rightarrow> if \<not> md_running m \<and> \<not> HasPending m then Some (m, fs, cache) else None
    | (Some job, m) \<Rightarrow> None)"
| "RunWorker (W # Ws) g_max m fs cache = (case PopNext m of
      (None, m) \<Rightarrow> if \<not> md_running m \<and> \<not> HasPending m then Some (m, fs, cache) else None
    | (Some job, m) \<Rightarrow> (case copy_job W g_max job fs cache of
        None \<Rightarrow> None
      | Some (copied, fs, cache) \<Rightarrow>
          RunWorker Ws g_max (finish_job copied job (save_job W copied job fs m)) fs cache))"

section \<open>Start\<close>

definition new_md :: "string \<Rightarrow> md" where
  "new_md saved = \<lparr>run_queues = [], active_run_id = None, tpc_copied_bytes = 0, tof_copied_bytes = 0, pending = [],
     synced = Map.empty, state_file = saved, md_running = True\<rparr>"

definition Run_start :: "denv \<Rightarrow> string \<Rightarrow> md" where
  "Run_start D saved = ScanBacklog D (LoadState (new_md saved))"

section \<open>Command line\<close>

text \<open>\<^verbatim>\<open>main\<close> of \<^verbatim>\<open>daemon/data_mirror.cpp\<close>: an exit status, or the rate limit to run with.\<close>

fun mirror_args :: "string list \<Rightarrow> u64 \<Rightarrow> int + u64" where
  "mirror_args [] mbps = Inr mbps"
| "mirror_args (a # rest) mbps =
     (if a = ''--max-mbps'' then (case rest of [] \<Rightarrow> Inl 1
        | v # rest \<Rightarrow> mirror_args rest (case strtoull v of None \<Rightarrow> 0 | Some x \<Rightarrow> x))
      else if a = ''--help'' \<or> a = ''-h'' then Inl 0 else Inl 1)"

section \<open>A queue of jobs\<close>

text \<open>What the worker relies on: a job is delivered exactly when one waits, and is then no longer waiting.\<close>

locale job_queue =
  fixes ok :: "'q \<Rightarrow> bool" and jobs :: "'q \<Rightarrow> 'j multiset" and pop :: "'q \<Rightarrow> 'j option \<times> 'q"
  assumes pop_none: "ok q \<Longrightarrow> jobs q = {#} \<Longrightarrow> \<exists>q'. pop q = (None, q') \<and> ok q' \<and> jobs q' = {#}"
    and pop_some: "ok q \<Longrightarrow> jobs q \<noteq> {#} \<Longrightarrow> \<exists>j q'. pop q = (Some j, q') \<and> ok q' \<and> jobs q = add_mset j (jobs q')"
begin

lemma pop_size: "ok q \<Longrightarrow> pop q = (Some j, q') \<Longrightarrow> ok q' \<and> size (jobs q) = Suc (size (jobs q')) \<and> jobs q = add_mset j (jobs q')"
  using pop_none [of q] pop_some [of q] by (cases "jobs q = {#}") auto

lemma pop_empty: "ok q \<Longrightarrow> pop q = (None, q') \<Longrightarrow> jobs q = {#} \<and> ok q' \<and> jobs q' = {#}"
  using pop_none [of q] pop_some [of q] by (cases "jobs q = {#}") auto

end

interpretation mirror_queue: job_queue "\<lambda>m. queue_ok (run_queues m)" queued PopNext
proof
  fix m :: md
  assume ok: "queue_ok (run_queues m)"
  show "\<exists>q'. PopNext m = (None, q') \<and> queue_ok (run_queues q') \<and> queued q' = {#}" if "queued m = {#}"
    using PopNext_none [OF ok that] ok that by (simp add: queued_def)
  show "\<exists>j q'. PopNext m = (Some j, q') \<and> queue_ok (run_queues q') \<and> queued m = add_mset j (queued q')" if ne: "queued m \<noteq> {#}"
  proof -
    from PopNext_took [OF ok ne] obtain job m' run where "PopNext m = (Some job, m')" "took run job (settled m) m'" .
    then show ?thesis by (auto simp: took_def)
  qed
qed

section \<open>The threads together\<close>

datatype stage = Idle | Waiting | Took PendingFile | Copied PendingFile bool | Saved PendingFile bool | Exited

record ds =
  ds_md :: md
  ds_files :: files
  ds_cache :: rate_cache
  ds_stage :: stage

text \<open>The steps of the watcher and of other programs, and those of the worker between its accesses to shared data.\<close>

inductive mstep :: "ds \<Rightarrow> ds \<Rightarrow> bool" where
  request: "mstep s (s\<lparr>ds_md := Enqueue os mm (ds_files s) path (ds_md s)\<rparr>)"
| change: "mstep s (s\<lparr>ds_files := (ds_files s)(path := v)\<rparr>)"
| stop: "mstep s (s\<lparr>ds_md := RequestStop (ds_md s)\<rparr>)"
| take_job: "ds_stage s = Idle \<Longrightarrow> PopNext (ds_md s) = (Some job, m) \<Longrightarrow> mstep s (s\<lparr>ds_md := m, ds_stage := Took job\<rparr>)"
| no_job: "ds_stage s = Idle \<Longrightarrow> PopNext (ds_md s) = (None, m) \<Longrightarrow> mstep s (s\<lparr>ds_md := m, ds_stage := Waiting\<rparr>)"
| wake: "ds_stage s = Waiting \<Longrightarrow> \<not> md_running (ds_md s) \<or> HasPending (ds_md s) \<Longrightarrow>
    mstep s (s\<lparr>ds_stage := if \<not> md_running (ds_md s) \<and> \<not> HasPending (ds_md s) then Exited else Idle\<rparr>)"
| copy: "ds_stage s = Took job \<Longrightarrow> copy_job W g_max job (ds_files s) (ds_cache s) = Some (copied, fs, c) \<Longrightarrow>
    mstep s (s\<lparr>ds_files := fs, ds_cache := c, ds_stage := Copied job copied\<rparr>)"
| save: "ds_stage s = Copied job copied \<Longrightarrow>
    mstep s (s\<lparr>ds_md := save_job W copied job (ds_files s) (ds_md s), ds_stage := Saved job copied\<rparr>)"
| finish: "ds_stage s = Saved job copied \<Longrightarrow> mstep s (s\<lparr>ds_md := finish_job copied job (ds_md s), ds_stage := Idle\<rparr>)"

definition in_flight :: "stage \<Rightarrow> PendingFile multiset" where
  "in_flight st = (case st of Took j \<Rightarrow> {#j#} | Copied j _ \<Rightarrow> {#j#} | Saved j _ \<Rightarrow> {#j#} | _ \<Rightarrow> {#})"

definition mirror_inv :: "ds \<Rightarrow> bool" where
  "mirror_inv s \<longleftrightarrow> queue_ok (run_queues (ds_md s)) \<and> distinct (pending (ds_md s))
     \<and> mset (pending (ds_md s)) = image_mset pf_path (queued (ds_md s) + in_flight (ds_stage s))"

lemma save_job_frame [simp]:
  "run_queues (save_job W c j fs m) = run_queues m" "pending (save_job W c j fs m) = pending m" "queued (save_job W c j fs m) = queued m"
  "md_running (save_job W c j fs m) = md_running m"
  by (simp_all add: save_job_def SaveStateEntry_def queued_def Let_def split: option.splits)

lemma finish_job_frame [simp]:
  "run_queues (finish_job c j m) = run_queues m" "pending (finish_job c j m) = removeAll (pf_path j) (pending m)"
  "queued (finish_job c j m) = queued m" "md_running (finish_job c j m) = md_running m"
  by (simp_all add: finish_job_def queued_def Let_def)

lemma PopNext_pending: "queue_ok (run_queues m) \<Longrightarrow> PopNext m = (r, m') \<Longrightarrow> pending m' = pending m \<and> md_running m' = md_running m"
proof (cases "queued m = {#}")
  case True
  assume "queue_ok (run_queues m)" "PopNext m = (r, m')"
  then show ?thesis using PopNext_none [of m] True by auto
next
  case False
  assume ok: "queue_ok (run_queues m)" and p: "PopNext m = (r, m')"
  from PopNext_took [OF ok False] obtain job n run where "PopNext m = (Some job, n)" "took run job (settled m) n" .
  then show ?thesis using p by (auto simp: took_def settled_def)
qed

lemma Enqueue_pending:
  "pending (Enqueue os mm fs path m) = (if enqueues os mm fs path = None \<or> path \<in> set (pending m) then pending m else path # pending m)"
  by (auto simp: Enqueue_cases split: option.splits)

lemma request_path [simp]: "pf_path (request_of os path d) = path"
  by (simp add: request_of_def case_prod_beta)

lemma Enqueue_paths:
  assumes "distinct (pending m)" and "mset (pending m) = image_mset pf_path (queued m) + F"
  shows "distinct (pending (Enqueue os mm fs path m)) \<and> mset (pending (Enqueue os mm fs path m)) = image_mset pf_path (queued (Enqueue os mm fs path m)) + F"
  using assms by (auto simp: Enqueue_pending Enqueue_queued split: option.splits)

lemma mstep_inv:
  assumes "mstep s s'" and "mirror_inv s"
  shows "mirror_inv s'"
  using assms
proof (induction rule: mstep.induct)
  case (request s os mm path)
  then show ?case using Enqueue_paths [of "ds_md s" "image_mset pf_path (in_flight (ds_stage s))" os mm "ds_files s" path] Enqueue_ok
    by (simp add: mirror_inv_def)
next
  case (take_job s job m)
  then show ?case using mirror_queue.pop_size [of "ds_md s" job m] PopNext_pending [of "ds_md s"] by (auto simp: mirror_inv_def in_flight_def)
next
  case (no_job s m)
  then show ?case using mirror_queue.pop_empty [of "ds_md s" m] PopNext_pending [of "ds_md s"] by (auto simp: mirror_inv_def in_flight_def)
next
  case (finish s job copied)
  let ?m = "ds_md s"
  have "mset (pending ?m) = add_mset (pf_path job) (image_mset pf_path (queued ?m))" "distinct (pending ?m)"
    using finish by (simp_all add: mirror_inv_def in_flight_def)
  then have "mset (removeAll (pf_path job) (pending ?m)) = image_mset pf_path (queued ?m)"
    by (metis add_mset_remove_trivial distinct_remove1_removeAll mset_remove1)
  then show ?case using finish by (simp add: mirror_inv_def in_flight_def distinct_removeAll)
qed (auto simp: mirror_inv_def in_flight_def RequestStop_def queued_def)

text \<open>A scan is a sequence of requests.\<close>

definition keeps :: "denv \<Rightarrow> (md \<Rightarrow> bool) \<Rightarrow> bool" where
  "keeps D P \<longleftrightarrow> (\<forall>m path. P m \<longrightarrow> P (Enqueue (d_os D) (d_min_mtime D) (d_fs D) path m))"

lemma scan_keeps:
  "keeps D P \<Longrightarrow> P m \<Longrightarrow> P (scan D path n m)"
  "keeps D P \<Longrightarrow> P m \<Longrightarrow> P (scan_entries D path es m)"
  by (induction D path n m and D path es m rule: scan_scan_entries.induct) (simp_all add: keeps_def)

lemma ScanBacklog_keeps:
  assumes "keeps D P" and "P m"
  shows "P (ScanBacklog D m)"
proof -
  have "P (fold (ScanDirectory D) ps m)" for ps
    using assms(2) by (induction ps arbitrary: m) (simp_all add: ScanDirectory_def scan_keeps(1) [OF assms(1)])
  then show ?thesis by (simp add: ScanBacklog_def)
qed

lemma Run_start_inv:
  "queue_ok (run_queues (Run_start D t)) \<and> distinct (pending (Run_start D t))
     \<and> mset (pending (Run_start D t)) = image_mset pf_path (queued (Run_start D t)) + {#}"
  unfolding Run_start_def
proof (rule ScanBacklog_keeps [where P = "\<lambda>m. queue_ok (run_queues m) \<and> distinct (pending m) \<and> mset (pending m) = image_mset pf_path (queued m) + {#}"])
  show "keeps D (\<lambda>m. queue_ok (run_queues m) \<and> distinct (pending m) \<and> mset (pending m) = image_mset pf_path (queued m) + {#})"
    unfolding keeps_def using Enqueue_paths [of _ "{#}"] Enqueue_ok by blast
qed (simp add: LoadState_def new_md_def queue_ok_def queued_def)

text \<open>C16: In every interleaving of the watcher, the worker and the programs that write the files, each requested path is either in the
  queues exactly once or the one being copied, and it is forgotten when its copy ends: no file is copied twice
  at a time, none is lost from the queues, and every file is queued under its own run.\<close>
theorem mirror_invariant:
  assumes "mstep\<^sup>*\<^sup>* \<lparr>ds_md = Run_start D saved, ds_files = d_fs D, ds_cache = c, ds_stage = Idle\<rparr> s"
  shows "queue_ok (run_queues (ds_md s)) \<and> distinct (pending (ds_md s))
    \<and> mset (pending (ds_md s)) = image_mset pf_path (queued (ds_md s) + in_flight (ds_stage s))"
proof -
  have "mirror_inv \<lparr>ds_md = Run_start D saved, ds_files = d_fs D, ds_cache = c, ds_stage = Idle\<rparr>"
    using Run_start_inv [of D saved] by (simp add: mirror_inv_def in_flight_def)
  with assms have "mirror_inv s" by (induction rule: rtranclp_induct) (auto intro: mstep_inv)
  then show ?thesis by (simp add: mirror_inv_def)
qed

section \<open>The backlog\<close>

text \<open>The regular files that a scan can see, in the order of the directory listings.\<close>

fun visible_files :: "string \<Rightarrow> node \<Rightarrow> string list"
and visible_entries :: "string \<Rightarrow> (string \<times> node) list \<Rightarrow> string list" where
  "visible_files path NReg = [path]"
| "visible_files path NOther = []"
| "visible_files path NClosed = []"
| "visible_files path (NDir es) = visible_entries path es"
| "visible_entries path [] = []"
| "visible_entries path ((name, n) # es) = (if hidden name then [] else visible_files (path @ ''/'' @ name) n) @ visible_entries path es"

definition backlog :: "denv \<Rightarrow> string list" where
  "backlog D = concat (map (\<lambda>p. if d_readable D p then visible_files p (d_tree D p) else []) (watched_paths (d_os D)))"

definition request_file :: "denv \<Rightarrow> string \<Rightarrow> md \<Rightarrow> md" where
  "request_file D path m = (if \<not> IsSynced (d_fs D) path m then Enqueue (d_os D) (d_min_mtime D) (d_fs D) path m else m)"

lemma scan_requests:
  "scan D path n m = fold (request_file D) (visible_files path n) m"
  "scan_entries D path es m = fold (request_file D) (visible_entries path es) m"
  by (induction D path n m and D path es m rule: scan_scan_entries.induct) (simp_all add: request_file_def)

lemma ScanBacklog_requests: "ScanBacklog D m = fold (request_file D) (backlog D) m"
proof -
  have "fold (ScanDirectory D) ps m = fold (request_file D) (concat (map (\<lambda>p. if d_readable D p then visible_files p (d_tree D p) else []) ps)) m" for ps
    by (induction ps arbitrary: m) (simp_all add: ScanDirectory_def scan_requests)
  then show ?thesis by (simp add: ScanBacklog_def backlog_def)
qed

definition wanted :: "denv \<Rightarrow> md \<Rightarrow> string \<Rightarrow> bool" where
  "wanted D m p \<longleftrightarrow> \<not> IsSynced (d_fs D) p m \<and> enqueues (d_os D) (d_min_mtime D) (d_fs D) p \<noteq> None"

lemma request_file_facts:
  "set (pending (request_file D p m)) = set (pending m) \<union> (if wanted D m p then {p} else {})"
  "wanted D (request_file D p m) = wanted D m"
  by (auto simp: request_file_def wanted_def Enqueue_pending IsSynced_def fun_eq_iff)

text \<open>C21: The scan at the start finds the whole backlog and nothing else: the paths requested are exactly the regular files
  below the watched directories of both disks, hidden names and unreadable directories apart, that the state
  file does not record with their present size and time, that are new enough, that fit on a backup drive and
  whose copy is missing or older.\<close>
theorem ScanBacklog_exact:
  "set (pending (ScanBacklog D m)) = set (pending m) \<union> {p \<in> set (backlog D). \<not> IsSynced (d_fs D) p m
      \<and> enqueues (d_os D) (d_min_mtime D) (d_fs D) p \<noteq> None}"
proof -
  have "set (pending (fold (request_file D) ps m)) = set (pending m) \<union> {p \<in> set ps. wanted D m p}" for ps
    by (induction ps arbitrary: m) (auto simp: request_file_facts)
  then show ?thesis by (simp add: ScanBacklog_requests wanted_def)
qed

section \<open>The end of the worker\<close>

lemma PopNext_stops:
  assumes "queue_ok (run_queues m)" and "queued m = {#}" and "\<not> md_running m" and "mset (pending m) = image_mset pf_path (queued m)"
  obtains m' where "PopNext m = (None, m')" "\<not> md_running m'" "\<not> HasPending m'" "queued m' = {#}" "pending m' = []"
proof -
  obtain m' where p: "PopNext m = (None, m')" using mirror_queue.pop_none [OF assms(1,2)] by blast
  show ?thesis using that [OF p] assms(2-4) mirror_queue.pop_empty [OF assms(1) p] PopNext_pending [OF assms(1) p]
    by (simp add: HasPending_queued)
qed

lemma RunWorker_returns:
  assumes "queue_ok (run_queues m)" and "\<not> md_running m" and "size (queued m) \<le> length Ws"
    and "distinct (pending m)" and "mset (pending m) = image_mset pf_path (queued m)" and "I fs"
    and copies: "\<And>W job fs c. W \<in> set Ws \<Longrightarrow> job \<in># queued m \<Longrightarrow> I fs \<Longrightarrow> \<exists>ok fs' c'. copy_job W g_max job fs c = Some (ok, fs', c') \<and> I fs'"
  shows "\<exists>m' fs' c'. RunWorker Ws g_max m fs cache = Some (m', fs', c') \<and> queued m' = {#} \<and> pending m' = [] \<and> I fs'"
  using assms
proof (induction Ws arbitrary: m fs cache)
  case Nil
  then have "queued m = {#}" by simp
  from PopNext_stops [OF Nil(1) this Nil(2,5)] obtain m' where
    "PopNext m = (None, m')" "\<not> md_running m'" "\<not> HasPending m'" "queued m' = {#}" "pending m' = []" .
  then show ?case using Nil(6) by simp
next
  case (Cons W Ws)
  show ?case
  proof (cases "queued m = {#}")
    case True
    from PopNext_stops [OF Cons.prems(1) this Cons.prems(2,5)] obtain m' where
      "PopNext m = (None, m')" "\<not> md_running m'" "\<not> HasPending m'" "queued m' = {#}" "pending m' = []" .
    then show ?thesis using Cons.prems(6) by simp
  next
    case False
    then obtain job m1 where pop: "PopNext m = (Some job, m1)" using mirror_queue.pop_some [OF Cons.prems(1)] by blast
    have q: "queue_ok (run_queues m1)" "queued m = add_mset job (queued m1)" "pending m1 = pending m" "\<not> md_running m1"
      using mirror_queue.pop_size [OF Cons.prems(1) pop] PopNext_pending [OF Cons.prems(1) pop] Cons.prems(2) by simp_all
    have "W \<in> set (W # Ws)" "job \<in># queued m" using q(2) by simp_all
    from Cons.prems(7) [OF this Cons.prems(6)] obtain ok fs' c' where
      copy: "copy_job W g_max job fs cache = Some (ok, fs', c')" and I: "I fs'" by blast
    let ?m = "finish_job ok job (save_job W ok job fs' m1)"
    have "mset (removeAll (pf_path job) (pending m)) = image_mset pf_path (queued m1)"
      using Cons.prems(4,5) q(2) by (metis add_mset_remove_trivial distinct_remove1_removeAll image_mset_add_mset mset_remove1)
    then have "\<exists>m' fs'' c''. RunWorker Ws g_max ?m fs' c' = Some (m', fs'', c'') \<and> queued m' = {#} \<and> pending m' = [] \<and> I fs''"
      using q Cons.prems by (intro Cons.IH) (simp_all add: distinct_removeAll I)
    then show ?thesis using pop copy by simp
  qed
qed

text \<open>A copy that finds the run flag cleared gives up and leaves the destination alone.\<close>

lemma stopped_copy:
  assumes "\<not> b_running ob" and "\<not> c_running_end (w_copy W)" and "c_unlink (w_copy W)" and "w_obs W = ob # obs"
  shows "\<exists>fs' c'. copy_job W g_max job fs c = Some (False, fs', c') \<and> (fs' = fs \<or> fs' = fs(tmp_path (pf_dst job) := None))"
proof -
  have "\<exists>fs' c'. CopyFile (w_copy W) g_max (w_obs W) (pf_path job) (pf_dst job) fs c = Some (False, fs', c')
      \<and> (fs' = fs \<or> fs' = fs(tmp_path (pf_dst job) := None))"
    using assms by (cases "fs (pf_path job)") (simp_all add: CopyFile_def StatFile_def)
  then show ?thesis by (simp add: copy_job_def)
qed

text \<open>C22: Shutdown.  Once the stop is requested, the worker ends after as many jobs as are queued; no request stays pending, and no
  file has changed except that temporary files of copies may be gone: what was not copied is left for the next
  start.\<close>
theorem RunWorker_shutdown:
  assumes "queue_ok (run_queues m)" and "distinct (pending m)" and "mset (pending m) = image_mset pf_path (queued m)"
    and "\<not> md_running m" and "size (queued m) \<le> length Ws"
    and "\<forall>W\<in>set Ws. \<not> c_running_end (w_copy W) \<and> c_unlink (w_copy W) \<and> w_obs W \<noteq> [] \<and> \<not> b_running (hd (w_obs W))"
  shows "\<exists>m' fs' c'. RunWorker Ws g_max m fs cache = Some (m', fs', c') \<and> queued m' = {#} \<and> pending m' = []
    \<and> (\<forall>p. fs' p = fs p \<or> fs' p = None \<and> p \<in> (\<lambda>f. tmp_path (pf_dst f)) ` set_mset (queued m))"
proof -
  let ?I = "\<lambda>fs'. \<forall>p. fs' p = fs p \<or> fs' p = None \<and> p \<in> (\<lambda>f. tmp_path (pf_dst f)) ` set_mset (queued m)"
  have "\<exists>ok fs'' c'. copy_job W g_max job fs' c = Some (ok, fs'', c') \<and> ?I fs''"
    if "W \<in> set Ws" "job \<in># queued m" "?I fs'" for W job fs' c
  proof -
    note W = bspec [OF assms(6) that(1)]
    obtain ob obs where "w_obs W = ob # obs" using W by (cases "w_obs W") auto
    then obtain fs'' c' where copy: "copy_job W g_max job fs' c = Some (False, fs'', c')" and e: "fs'' = fs' \<or> fs'' = fs'(tmp_path (pf_dst job) := None)"
      using stopped_copy [of ob W obs g_max job fs' c] W by auto
    have "fs'' p = fs p \<or> fs'' p = None \<and> p \<in> (\<lambda>f. tmp_path (pf_dst f)) ` set_mset (queued m)" for p
      using e that(2) spec [OF that(3), of p] by (cases "p = tmp_path (pf_dst job)") auto
    then show ?thesis using copy by blast
  qed
  then show ?thesis using RunWorker_returns [where I = ?I, OF assms(1,4,5,2,3)] by simp
qed

definition stop_env :: wenv where
  "stop_env = \<lparr>w_copy = good_copy\<lparr>c_running_end := False\<rparr>, w_obs = [slow_pass\<lparr>b_running := False\<rparr>], w_opens = True\<rparr>"

theorem RunWorker_shutdown_witness:
  "\<exists>m' fs' c'. RunWorker (replicate 3 stop_env) 0 (sample_md\<lparr>md_running := False\<rparr>) one_file \<lparr>cached = 0, last_read = 0\<rparr> = Some (m', fs', c')
     \<and> queued m' = {#} \<and> pending m' = [] \<and> fs' ''/n/a'' = one_file ''/n/a''"
proof -
  let ?m = "sample_md\<lparr>md_running := False\<rparr>"
  have "queue_ok (run_queues ?m)" "distinct (pending ?m)" "mset (pending ?m) = image_mset pf_path (queued ?m)" "\<not> md_running ?m"
    "size (queued ?m) \<le> length (replicate 3 stop_env)"
    by (simp_all add: sample_md_def sample_job_def queue_ok_def queued_def)
  from RunWorker_shutdown [OF this, of 0 one_file "\<lparr>cached = 0, last_read = 0\<rparr>"]
  obtain m' fs' c' where r: "RunWorker (replicate 3 stop_env) 0 ?m one_file \<lparr>cached = 0, last_read = 0\<rparr> = Some (m', fs', c')"
    "queued m' = {#}" "pending m' = []"
    and f: "\<forall>p. fs' p = one_file p \<or> fs' p = None \<and> p \<in> (\<lambda>f. tmp_path (pf_dst f)) ` set_mset (queued ?m)"
    by (auto simp: stop_env_def good_copy_def)
  have "''/n/a'' \<notin> (\<lambda>f. tmp_path (pf_dst f)) ` set_mset (queued ?m)"
    by (simp add: sample_md_def sample_job_def queued_def tmp_path_def)
  then have "fs' ''/n/a'' = one_file ''/n/a''" using f by blast
  then show ?thesis using r by blast
qed

definition quiet_denv :: denv where
  "quiet_denv = \<lparr>d_os = \<lparr>getenv = \<lambda>_. None, statvfs = \<lambda>_ _. StatErr 5, access_rwx = \<lambda>_. False, stat_file = \<lambda>_. None\<rparr>, d_min_mtime = 0,
     d_fs = one_file, d_tree = \<lambda>_. NOther, d_readable = \<lambda>_. False\<rparr>"

theorem mirror_invariant_witness:
  "distinct (pending (RequestStop (Run_start quiet_denv [])))
     \<and> mset (pending (RequestStop (Run_start quiet_denv []))) = image_mset pf_path (queued (RequestStop (Run_start quiet_denv [])))"
proof -
  let ?s = "\<lparr>ds_md = Run_start quiet_denv [], ds_files = d_fs quiet_denv, ds_cache = \<lparr>cached = 0, last_read = 0\<rparr>, ds_stage = Idle\<rparr>"
  have "mstep\<^sup>*\<^sup>* ?s (?s\<lparr>ds_md := RequestStop (ds_md ?s)\<rparr>)" by (rule r_into_rtranclp) (rule mstep.stop)
  from mirror_invariant [OF this] show ?thesis by (simp add: in_flight_def)
qed

section \<open>A file closed while it is copied\<close>

definition race_src :: string where "race_src = ''/write_data_nvme_ssd0/a''"
definition race_dst :: string where "race_dst = ''/backup_data_sata_ssd0/write_data_nvme_ssd0/a''"

definition race_files :: files where
  "race_files = Map.empty(race_src \<mapsto> \<lparr>content = [1], mtime = 5\<rparr>)"

definition race_job :: PendingFile where
  "race_job = \<lparr>pf_path = race_src, pf_dst = race_dst, pf_meta = \<lparr>run_id = 0xFFFFFFFF, nvme_index = 0, priority = 9, segment = 0\<rparr>,
     pf_size = 1, pf_mtime = 5\<rparr>"

definition race_env :: wenv where
  "race_env = \<lparr>w_copy = good_copy, w_obs = replicate 2 (slow_pass\<lparr>b_src := [1]\<rparr>), w_opens = True\<rparr>"

lemma race_request: "enqueues default_os 0 race_files race_src = Some (race_dst, 1, 5)" "request_of default_os race_src (race_dst, 1, 5) = race_job"
  by code_simp+

lemma race_copy:
  "\<exists>c'. copy_job race_env 0 race_job race_files c
     = Some (True, race_files(tmp_path race_dst := None, race_dst \<mapsto> \<lparr>content = [1], mtime = 5\<rparr>), c')"
proof -
  have "EnsureParentDirs (\<lambda>_. True) race_dst" by code_simp
  then obtain c' where "CopyFile good_copy 0 (w_obs race_env) race_src race_dst race_files c
      = Some (True, race_files(tmp_path race_dst := None, race_dst \<mapsto> \<lparr>content = [1], mtime = 5\<rparr>), c')"
    using CopyFile_completes [of race_files race_src "\<lparr>content = [1], mtime = 5\<rparr>" "w_obs race_env" good_copy race_dst 0 c]
    by (auto simp: race_files_def race_env_def slow_pass_def good_copy_def list_all_iff)
  moreover have "NeedsCopy race_files race_src race_dst" by (simp add: NeedsCopy_def StatFile_def race_files_def race_src_def race_dst_def)
  ultimately show ?thesis by (simp add: copy_job_def race_job_def race_dst_def race_env_def)
qed

text \<open>A file that is appended to while it is copied can stay stale for ever: the event of the second close is dropped because the path is
  still pending, and the entry of the state file is taken from the file after the copy.  The mirror then holds
  the old content, nothing is pending, and the next scan takes the file for synced.\<close>
theorem close_write_during_copy_lost:
  "\<exists>s. mstep\<^sup>*\<^sup>* \<lparr>ds_md = new_md [], ds_files = race_files, ds_cache = c, ds_stage = Idle\<rparr> s \<and> ds_stage s = Idle \<and> pending (ds_md s) = []
     \<and> ds_files s race_src = Some \<lparr>content = [1, 2], mtime = 6\<rparr> \<and> ds_files s race_dst = Some \<lparr>content = [1], mtime = 5\<rparr>
     \<and> IsSynced (ds_files s) race_src (ds_md s)"
proof -
  let ?s0 = "\<lparr>ds_md = new_md [], ds_files = race_files, ds_cache = c, ds_stage = Idle\<rparr>"
  let ?m1 = "(new_md [])\<lparr>pending := [race_src], run_queues := [(0xFFFFFFFF, [race_job])]\<rparr>"
  let ?m2 = "(new_md [])\<lparr>pending := [race_src], active_run_id := Some 0xFFFFFFFF\<rparr>"
  have "mstep ?s0 (?s0\<lparr>ds_md := ?m1\<rparr>)"
    using mstep.request [of ?s0 default_os 0 race_src]
    by (simp add: Enqueue_cases race_request new_md_def) (simp add: race_job_def)
  moreover have "PopNext ?m1 = (Some race_job, ?m2)"
    by (simp add: new_md_def PopNext_def has_tpc_def has_tof_def pick_first_def pick_from_run_def queue_files_def best_job_def better_def kTofRunId_def)
  then have "mstep (?s0\<lparr>ds_md := ?m1\<rparr>) (?s0\<lparr>ds_md := ?m2, ds_stage := Took race_job\<rparr>)"
    using mstep.take_job [of "?s0\<lparr>ds_md := ?m1\<rparr>" race_job ?m2] by simp
  moreover obtain c' where copy: "copy_job race_env 0 race_job race_files c
     = Some (True, race_files(tmp_path race_dst := None, race_dst \<mapsto> \<lparr>content = [1], mtime = 5\<rparr>), c')" using race_copy by blast
  let ?f1 = "race_files(tmp_path race_dst := None, race_dst \<mapsto> \<lparr>content = [1], mtime = 5\<rparr>)"
  let ?s3 = "\<lparr>ds_md = ?m2, ds_files = ?f1, ds_cache = c', ds_stage = Copied race_job True\<rparr>"
  have "mstep (?s0\<lparr>ds_md := ?m2, ds_stage := Took race_job\<rparr>) ?s3"
    using mstep.copy [of "?s0\<lparr>ds_md := ?m2, ds_stage := Took race_job\<rparr>" race_job race_env 0] copy by simp
  moreover let ?f2 = "?f1(race_src := Some \<lparr>content = [1, 2], mtime = 6\<rparr>)"
  let ?s4 = "?s3\<lparr>ds_files := ?f2\<rparr>"
  have "mstep ?s3 ?s4" using mstep.change [of ?s3 race_src "Some \<lparr>content = [1, 2], mtime = 6\<rparr>"] by simp
  moreover have "mstep ?s4 ?s4"
  proof -
    have "Enqueue default_os 0 ?f2 race_src ?m2 = ?m2" by (simp add: Enqueue_cases split: option.splits)
    then show ?thesis using mstep.request [of ?s4 default_os 0 race_src] by simp
  qed
  moreover let ?m5 = "save_job race_env True race_job ?f2 ?m2"
  have "mstep ?s4 (?s4\<lparr>ds_md := ?m5, ds_stage := Saved race_job True\<rparr>)" using mstep.save [of ?s4 race_job True race_env] by simp
  moreover let ?s5 = "?s4\<lparr>ds_md := ?m5, ds_stage := Saved race_job True\<rparr>"
  have "mstep ?s5 (?s5\<lparr>ds_md := finish_job True race_job ?m5, ds_stage := Idle\<rparr>)" using mstep.finish [of ?s5 race_job True] by simp
  ultimately have "mstep\<^sup>*\<^sup>* ?s0 (?s5\<lparr>ds_md := finish_job True race_job ?m5, ds_stage := Idle\<rparr>)"
    by (meson converse_rtranclp_into_rtranclp rtranclp.rtrancl_refl)
  moreover have "IsSynced ?f2 race_src (finish_job True race_job ?m5)"
    by (simp add: IsSynced_def StatFile_def finish_job_def save_job_def SaveStateEntry_def race_job_def race_env_def Let_def)
  moreover have "pending (finish_job True race_job ?m5) = []" by (simp add: race_job_def new_md_def)
  moreover have "race_src \<noteq> race_dst" by (simp add: race_src_def race_dst_def)
  ultimately show ?thesis by (intro exI [of _ "?s5\<lparr>ds_md := finish_job True race_job ?m5, ds_stage := Idle\<rparr>"]) simp
qed

section \<open>Watched directories\<close>

fun visible_dirs :: "string \<Rightarrow> node \<Rightarrow> string list"
and visible_subdirs :: "string \<Rightarrow> (string \<times> node) list \<Rightarrow> string list" where
  "visible_dirs path (NDir es) = path # visible_subdirs path es"
| "visible_dirs path NClosed = [path]"
| "visible_dirs path NReg = []"
| "visible_dirs path NOther = []"
| "visible_subdirs path [] = []"
| "visible_subdirs path ((name, n) # es) = (if hidden name then [] else visible_dirs (path @ ''/'' @ name) n) @ visible_subdirs path es"

lemma add_watch_fold:
  "is_dir n \<Longrightarrow> \<forall>d\<in>set (visible_dirs dir n). 0 \<le> wd d \<Longrightarrow>
     add_watch wd True dir n ws = fold (\<lambda>d ws. ws(wd d \<mapsto> d)) (visible_dirs dir n) ws"
  "\<forall>d\<in>set (visible_subdirs dir es). 0 \<le> wd d \<Longrightarrow>
     add_watch_entries wd dir es ws = fold (\<lambda>d ws. ws(wd d \<mapsto> d)) (visible_subdirs dir es) ws"
proof (induction dir n and dir es arbitrary: ws and ws rule: visible_dirs_visible_subdirs.induct)
  case (6 path name n es)
  show ?case
  proof (cases "hidden name \<or> \<not> is_dir n")
    case True
    then have "(if hidden name then [] else visible_dirs (path @ ''/'' @ name) n) = []" by (cases n) (auto simp: is_dir_def)
    then show ?thesis using 6 True by auto
  next
    case False
    then show ?thesis using 6 by simp
  qed
qed (auto simp: is_dir_def not_less)

lemma fold_watch:
  assumes "inj_on wd (set ds)" and "d \<in> set ds"
  shows "fold (\<lambda>d ws. ws(wd d \<mapsto> d)) ds ws (wd d) = Some d"
proof -
  have "fold (\<lambda>d ws. ws(wd d \<mapsto> d)) xs ws (wd d) = (if d \<in> set xs then Some d else ws (wd d))" if "set xs \<subseteq> set ds" for xs ws
    using that assms by (induction xs arbitrary: ws) (auto simp: inj_on_def)
  then show ?thesis using assms(2) by simp
qed

text \<open>Files are noticed at any depth below the TOF directories: a recursive watch covers every directory that can be
  listed and reached through visible names, so that the events of each come back with its own path.\<close>
theorem add_watch_covers:
  assumes "is_dir n" and "\<forall>d\<in>set (visible_dirs dir n). 0 \<le> wd d" and "inj_on wd (set (visible_dirs dir n))"
    and "d \<in> set (visible_dirs dir n)"
  shows "add_watch wd True dir n ws (wd d) = Some d"
  using add_watch_fold(1) [OF assms(1,2)] fold_watch [OF assms(3,4)] by simp

theorem add_watch_covers_witness:
  "add_watch (\<lambda>d. int (length d)) True ''/t'' (NDir [(''stg0'', NDir []), (''.x'', NClosed), (''r'', NReg)]) Map.empty 7 = Some ''/t/stg0''"
  using add_watch_covers [of "NDir [(''stg0'', NDir []), (''.x'', NClosed), (''r'', NReg)]" "''/t''" "\<lambda>d. int (length d)" "''/t/stg0''" Map.empty]
  by (simp add: is_dir_def hidden_def)

end
