(* ===== verification/Orchestrator.thy ===== *)
theory Orchestrator
  imports Storage_Utils
begin

text \<open>
  The orchestrator of \<^verbatim>\<open>daemon/orchestrator.cpp\<close>: it starts and stops the other services through systemd, prepares the
  data disk of the readout, and reports the state of the computer.  The command codes and the class
  \<^verbatim>\<open>DaqCompMonitor\<close> come from another repository: commands are a datatype with the names of the source, and the
  calls of the monitor are recorded with their arguments.  The answers of systemd, of the shell, of libstatgrab
  and of the sensors are the environment.
\<close>

section \<open>Commands and monitor\<close>

datatype orc_command =
    ORC_Start_Computer_Status | ORC_Stop_Computer_Status | ORC_Boot_All_DAQ | ORC_Shutdown_All_DAQ | ORC_Boot_Tpc_Daq
  | ORC_Shutdown_Tpc_Daq | ORC_Boot_Tof_Daq | ORC_Shutdown_Tof_Daq | ORC_Exec_CPU_Restart | ORC_Exec_CPU_Shutdown
  | ORC_Init_PCIe_Driver | ORC_Boot_Monitor | ORC_Shutdown_Monitor | ORC_Start_PPS | ORC_Send_Pulse_Train | ORC_Stop_PPS
  | ORC_Restart_Orchestrator | ORC_Clear_Errors | ORC_Set_Data_SSD0 | ORC_Set_Data_SSD1 | ORC_Start_Data_Mirroring
  | ORC_Stop_Data_Mirroring | COM_HeartBeat | Other_Command u16

datatype orc_error = cpu_temp_status | disk_temp_status | memory_usage_status | cpu_usage_status | disk_free_status
  | shutdown_computer | reboot_computer | init_pcie | start_tpc_daq | start_tpc_dm

datatype daq_bit = tpc | tof | tpc_monitor

datatype mon_set = setErrorBitWord orc_error | clearErrorBitWord | setDaqBitWord daq_bit bool | setTpcDisk0 nat | setTofDisk0 nat
  | setTpcDisk1 nat | setTofDisk1 nat | setSysDisk nat | setCpuUsage nat | setMemoryUsage nat | setDiskTemp int | setCpuTemp "u32 list"
  | setLastCommand orc_command

section \<open>Environment\<close>

text \<open>\<^verbatim>\<open>oe_bus\<close>: the system bus is reachable and accepts the call; \<^verbatim>\<open>oe_system\<close>: return value of a shell command;
  \<^verbatim>\<open>oe_conf\<close>: the file for the data directory opens; \<^verbatim>\<open>oe_state\<close>: the state of a unit; \<^verbatim>\<open>oe_cpu\<close>: two samples of
  the processor counters (user plus nice, idle); \<^verbatim>\<open>oe_temp\<close>: the number in a sensor file, 0 if it holds none.\<close>

record orc_env =
  oe_os :: os_view
  oe_bus :: "string \<Rightarrow> string \<Rightarrow> bool"
  oe_system :: "string \<Rightarrow> int"
  oe_conf :: bool
  oe_state :: "string \<Rightarrow> string option"
  oe_statfs :: "string \<Rightarrow> (u64 \<times> u64) option"
  oe_sg_init :: bool
  oe_cpu :: "(nat \<times> nat) option \<times> (nat \<times> nat) option"
  oe_mem :: "(nat \<times> nat) option"
  oe_temp :: "string \<Rightarrow> int option"
  oe_num_cpus :: nat

record orc =
  g_running :: bool
  g_status_running :: bool
  status_thread :: bool
  mon :: "mon_set list"
  unit_calls :: "(string \<times> string) list"
  shell :: "string list"
  ssd_conf :: string

definition set_mon :: "mon_set \<Rightarrow> orc \<Rightarrow> orc" where
  "set_mon c s = s\<lparr>mon := mon s @ [c]\<rparr>"

definition kOrchestrator :: string where "kOrchestrator = ''orchestrator.service''"
definition kTpcDaq :: string where "kTpcDaq = ''tpc_daq.service''"
definition kDataMonitor :: string where "kDataMonitor = ''data_monitor.service''"
definition kTofDaq :: string where "kTofDaq = ''tof_daq.service''"
definition kDataMirror :: string where "kDataMirror = ''data_mirror.service''"
definition kStartUnit :: string where "kStartUnit = ''StartUnit''"
definition kStopUnit :: string where "kStopUnit = ''StopUnit''"
definition kRestartUnit :: string where "kRestartUnit = ''RestartUnit''"

section \<open>State of the computer\<close>

definition sensor :: "nat \<Rightarrow> nat \<Rightarrow> string" where
  "sensor hwmon i = ''/sys/class/hwmon/hwmon'' @ to_string hwmon @ ''/temp'' @ to_string i @ ''_input''"

text \<open>Milli-degrees to degrees, rounded towards zero.\<close>

definition degrees :: "int \<Rightarrow> int" where
  "degrees milli = (if milli < 0 then - ((- milli) div 1000) else milli div 1000)"

definition core_temp :: "orc_env \<Rightarrow> nat \<Rightarrow> mon_set list \<times> u32" where
  "core_temp E i = (case oe_temp E (sensor 2 (i + 1)) of None \<Rightarrow> ([setErrorBitWord disk_temp_status], 0) | Some t \<Rightarrow> ([], word_of_int (degrees t)))"

definition GetCoreDiskTemp :: "orc_env \<Rightarrow> mon_set list" where
  "GetCoreDiskTemp E = (case oe_temp E (sensor 1 1) of
     None \<Rightarrow> [setErrorBitWord cpu_temp_status]
   | Some t \<Rightarrow> [setDiskTemp (degrees t)] @ concat (map (\<lambda>i. fst (core_temp E i)) [0..<oe_num_cpus E])
       @ [setCpuTemp (map (\<lambda>i. snd (core_temp E i)) [0..<oe_num_cpus E])])"

text \<open>Total and free memory; the library reports no entries together with a null pointer.  The quotients of this and of the next
  function are computed in double precision; for memory sizes and counter differences below \<^verbatim>\<open>2^44\<close> the rounded quotient has
  the integer part of the exact one.  Free memory is at most the total, and the counters do not decrease.\<close>

definition GetMemoryStats :: "orc_env \<Rightarrow> mon_set list" where
  "GetMemoryStats E = (case oe_mem E of None \<Rightarrow> [setMemoryUsage 0]
   | Some (tot, free) \<Rightarrow> [setMemoryUsage (if tot > 0 then 100 * (tot - free) div tot else 0)])"

text \<open>The first sample missing is an error; a missing second sample is used all the same, which ends the process
  (\<^term>\<open>None\<close>).\<close>

definition GetCpuStats :: "orc_env \<Rightarrow> mon_set list option" where
  "GetCpuStats E = (case oe_cpu E of
     (None, _) \<Rightarrow> Some [setCpuUsage 0, setErrorBitWord cpu_usage_status]
   | (Some _, None) \<Rightarrow> None
   | (Some (busy1, idle1), Some (busy2, idle2)) \<Rightarrow>
       let busy = int busy2 - int busy1; idle = int idle2 - int idle1 in
       Some [setCpuUsage (if busy + busy > 0 then nat (100 * busy div (busy + idle)) else 0)])"

definition disk_free :: "orc_env \<Rightarrow> string \<Rightarrow> (nat \<Rightarrow> mon_set) \<Rightarrow> mon_set list" where
  "disk_free E path report = (case oe_statfs E path of
     Some (bavail, frsize) \<Rightarrow> [report (unat (bavail * frsize) div 2 ^ 30)]
   | None \<Rightarrow> [setErrorBitWord disk_free_status])"

definition GetComputerStatus :: "orc_env \<Rightarrow> mon_set list option" where
  "GetComputerStatus E = (case getenv (oe_os E) ''DATA_SSD0_DIR'' of None \<Rightarrow> Some [setErrorBitWord disk_free_status]
   | Some ssd0 \<Rightarrow> (case getenv (oe_os E) ''DATA_SSD1_DIR'' of None \<Rightarrow> Some [setErrorBitWord disk_free_status]
     | Some ssd1 \<Rightarrow>
         let disks = disk_free E ssd0 setTpcDisk0 @ disk_free E (ssd0 @ ''/tof_data'') setTofDisk0
               @ disk_free E ssd1 setTpcDisk1 @ disk_free E (ssd1 @ ''/tof_data'') setTofDisk1 @ disk_free E ''/'' setSysDisk in
         if oe_sg_init E then map_option (\<lambda>cpu. disks @ cpu @ GetMemoryStats E @ GetCoreDiskTemp E) (GetCpuStats E)
         else Some (disks @ [setErrorBitWord cpu_usage_status, setErrorBitWord memory_usage_status] @ GetCoreDiskTemp E)))"

definition services :: "(string \<times> daq_bit) list" where
  "services = [(''tpc_daq.service'', tpc), (''tof_daq.service'', tof), (''data_monitor.service'', tpc_monitor)]"

definition PollServiceState :: "orc_env \<Rightarrow> mon_set list" where
  "PollServiceState E = concat (map (\<lambda>(service, b). case oe_state E service of None \<Rightarrow> []
     | Some st \<Rightarrow> [setDaqBitWord b (st \<noteq> ''active'')]) services)"

text \<open>One pass of the status thread before it sends the serialized monitor.\<close>

definition status_pass :: "orc_env \<Rightarrow> orc \<Rightarrow> orc option" where
  "status_pass E s = map_option (\<lambda>cs. s\<lparr>mon := mon s @ PollServiceState E @ cs\<rparr>) (GetComputerStatus E)"

text \<open>The status thread over what it observes in each pass: the run flag at the top of the loop and the answers of the
  environment.  \<^verbatim>\<open>sent\<close> are the monitor contents that are serialized.  Without the system bus the thread ends at once.\<close>

fun status_loop :: "(bool \<times> orc_env) list \<Rightarrow> orc \<Rightarrow> mon_set list list \<Rightarrow> (orc \<times> mon_set list list) option" where
  "status_loop [] s sent = Some (s, sent)"
| "status_loop ((run, E) # obs) s sent =
     (if \<not> run then Some (s, sent)
      else case status_pass E s of None \<Rightarrow> None | Some s' \<Rightarrow> status_loop obs s' (sent @ [mon s']))"

definition SendStatus :: "bool \<Rightarrow> (bool \<times> orc_env) list \<Rightarrow> orc \<Rightarrow> (orc \<times> mon_set list list) option" where
  "SendStatus bus obs s = (if \<not> bus then Some (s, []) else status_loop obs s [])"

section \<open>Actions\<close>

definition orc_WriteDataBaseDirConf :: "orc_env \<Rightarrow> string \<Rightarrow> orc \<Rightarrow> bool \<times> orc" where
  "orc_WriteDataBaseDirConf E path s = (if oe_conf E then (True, s\<lparr>ssd_conf := ''DATA_BASE_DIR='' @ path @ [CHR 0x0A]\<rparr>) else (False, s))"

definition AutoSelectDataDir :: "orc_env \<Rightarrow> orc \<Rightarrow> bool \<times> orc" where
  "AutoSelectDataDir E s =
     (let pick = SelectNvmeDataDir (oe_os E) (PickMaxFreeEnabled (oe_os E)) kDiskRunStartMinFreeBytes in
      if pick_path pick = [] then (False, s)
      else if \<not> pick_ok pick then (False, set_mon (setErrorBitWord disk_free_status) s)
      else orc_WriteDataBaseDirConf E (pick_path pick) s)"

definition ControlService :: "orc_env \<Rightarrow> string \<Rightarrow> string \<Rightarrow> orc \<Rightarrow> bool \<times> orc" where
  "ControlService E unit_name meth s = (if oe_bus E unit_name meth then (True, s\<lparr>unit_calls := unit_calls s @ [(unit_name, meth)]\<rparr>) else (False, s))"

definition start_unit :: "orc_env \<Rightarrow> string \<Rightarrow> orc \<Rightarrow> orc" where
  "start_unit E u s = snd (ControlService E u kStartUnit s)"

definition stop_unit :: "orc_env \<Rightarrow> string \<Rightarrow> orc \<Rightarrow> orc" where
  "stop_unit E u s = snd (ControlService E u kStopUnit s)"

definition stop_all :: "orc_env \<Rightarrow> orc \<Rightarrow> orc" where
  "stop_all E s = stop_unit E kDataMonitor (stop_unit E kTofDaq (stop_unit E kTpcDaq s))"

definition run_shell :: "orc_env \<Rightarrow> string \<Rightarrow> orc \<Rightarrow> int \<times> orc" where
  "run_shell E cmd s = (oe_system E cmd, s\<lparr>shell := shell s @ [cmd]\<rparr>)"

definition RebootComputer :: "orc_env \<Rightarrow> orc \<Rightarrow> orc" where
  "RebootComputer E s = (let (ret, s) = run_shell E ''systemctl reboot'' s in
     if ret \<noteq> 0 then set_mon (setErrorBitWord reboot_computer) s else s)"

definition orc_InitPcieDriver :: "orc_env \<Rightarrow> orc \<Rightarrow> orc" where
  "orc_InitPcieDriver E s = (case getenv (oe_os E) ''TPC_DAQ_BASEDIR'' of
     None \<Rightarrow> set_mon (setErrorBitWord init_pcie) s
   | Some basedir \<Rightarrow> (let (ret, s) = run_shell E (basedir @ ''/scripts/setup_windriver.sh'') s in
       if ret \<noteq> 0 then set_mon (setErrorBitWord init_pcie) s else s))"

text \<open>Waiting for a thread.  \<^verbatim>\<open>late\<close> is the number of waits of five seconds that run out before the thread ends: the first
  cancels it, the second sends SIGTERM, whose handler stops the whole orchestrator, and the third sends SIGKILL,
  which ends the process (\<^term>\<open>None\<close>).\<close>

definition WaitForThreadJoin :: "nat \<Rightarrow> orc \<Rightarrow> orc option" where
  "WaitForThreadJoin late s =
     (if \<not> status_thread s then Some s
      else if late \<ge> 3 then None
      else let s = s\<lparr>status_thread := False\<rparr> in Some (if late = 2 then s\<lparr>g_running := False\<rparr> else s))"

text \<open>The file is truncated when it opens; a missing variable is then an exception that nobody catches
  (\<^term>\<open>None\<close> as second part).\<close>

definition set_data_ssd :: "orc_env \<Rightarrow> string \<Rightarrow> orc \<Rightarrow> orc option" where
  "set_data_ssd E var s = (if \<not> oe_conf E then Some s
     else map_option (\<lambda>dir. s\<lparr>ssd_conf := '' DATA_BASE_DIR='' @ dir @ [CHR 0x0A]\<rparr>) (getenv (oe_os E) var))"

section \<open>Command handler\<close>

definition start_pps :: "orc_env \<Rightarrow> orc \<Rightarrow> orc" where
  "start_pps E s = snd (run_shell E ''ad3_ctrl 2'' (snd (run_shell E ''ad3_ctrl 1'' s)))"

definition orc_action :: "orc_env \<Rightarrow> nat \<Rightarrow> orc_command \<Rightarrow> orc \<Rightarrow> orc option" where
  "orc_action E late cmd s = (case cmd of
     ORC_Start_Computer_Status \<Rightarrow> Some (if \<not> status_thread s then s\<lparr>g_status_running := True, status_thread := True\<rparr> else s)
   | ORC_Boot_All_DAQ \<Rightarrow>
       let (ok, s) = AutoSelectDataDir E s; s = (if ok then start_unit E kDataMonitor (start_unit E kTpcDaq s) else s) in
       Some (start_unit E kTofDaq s)
   | ORC_Shutdown_All_DAQ \<Rightarrow> Some (stop_all E s)
   | ORC_Boot_Tpc_Daq \<Rightarrow> let (ok, s) = AutoSelectDataDir E s in Some (if ok then start_unit E kTpcDaq s else s)
   | ORC_Shutdown_Tpc_Daq \<Rightarrow> Some (stop_unit E kTpcDaq s)
   | ORC_Boot_Tof_Daq \<Rightarrow> Some (start_unit E kTofDaq s)
   | ORC_Shutdown_Tof_Daq \<Rightarrow> Some (stop_unit E kTofDaq s)
   | ORC_Stop_Computer_Status \<Rightarrow> WaitForThreadJoin late (s\<lparr>g_status_running := False\<rparr>)
   | ORC_Exec_CPU_Restart \<Rightarrow> Some (RebootComputer E (stop_all E s))
   | ORC_Exec_CPU_Shutdown \<Rightarrow> Some (stop_all E s)
   | ORC_Init_PCIe_Driver \<Rightarrow> Some (orc_InitPcieDriver E s)
   | ORC_Boot_Monitor \<Rightarrow> Some (start_unit E kDataMonitor s)
   | ORC_Shutdown_Monitor \<Rightarrow> Some (stop_unit E kDataMonitor s)
   | ORC_Start_PPS \<Rightarrow> Some (start_pps E s)
   | ORC_Send_Pulse_Train \<Rightarrow> Some (snd (run_shell E ''ad3_ctrl 3'' s))
   | ORC_Stop_PPS \<Rightarrow> Some (snd (run_shell E ''ad3_ctrl 4'' s))
   | ORC_Restart_Orchestrator \<Rightarrow> Some (snd (ControlService E kOrchestrator kRestartUnit s))
   | ORC_Clear_Errors \<Rightarrow> Some (set_mon clearErrorBitWord s)
   | ORC_Set_Data_SSD0 \<Rightarrow> set_data_ssd E ''DATA_SSD0_DIR'' s
   | ORC_Set_Data_SSD1 \<Rightarrow> set_data_ssd E ''DATA_SSD1_DIR'' s
   | ORC_Start_Data_Mirroring \<Rightarrow> Some (start_unit E kDataMirror s)
   | ORC_Stop_Data_Mirroring \<Rightarrow> Some (stop_unit E kDataMirror s)
   | COM_HeartBeat \<Rightarrow> Some s
   | Other_Command _ \<Rightarrow> Some s)"

definition orc_handle :: "orc_env \<Rightarrow> nat \<Rightarrow> orc_command \<Rightarrow> orc \<Rightarrow> orc option" where
  "orc_handle E late cmd s = map_option (\<lambda>s. if cmd \<noteq> COM_HeartBeat then set_mon (setLastCommand cmd) s else s) (orc_action E late cmd s)"

text \<open>What happens between two tests of the run flag: a command arrives, or a signal stops the service while the
  handler waits; then the read returns and its command (an empty one) is still handled.\<close>

record orc_obs =
  ob_env :: orc_env
  ob_signal :: bool
  ob_cmd :: orc_command
  ob_late :: nat

definition orc_shutdown :: "orc_env \<Rightarrow> nat \<Rightarrow> orc \<Rightarrow> orc option" where
  "orc_shutdown E late s = WaitForThreadJoin late (stop_all E (s\<lparr>g_status_running := False\<rparr>))"

datatype orc_end = Returned orc | Crashed | Running orc

definition shut :: "orc_env \<Rightarrow> nat \<Rightarrow> orc \<Rightarrow> orc_end" where
  "shut E late s = (case orc_shutdown E late s of None \<Rightarrow> Crashed | Some s \<Rightarrow> Returned s)"

fun DAQHandler :: "orc_env \<Rightarrow> nat \<Rightarrow> orc_obs list \<Rightarrow> orc \<Rightarrow> orc_end" where
  "DAQHandler E late [] s = (if g_running s then Running s else shut E late s)"
| "DAQHandler E late (ob # obs) s =
     (if \<not> g_running s then shut E late s
      else case orc_handle (ob_env ob) (ob_late ob) (ob_cmd ob) (if ob_signal ob then s\<lparr>g_running := False\<rparr> else s) of
        None \<Rightarrow> Crashed | Some s \<Rightarrow> DAQHandler E late obs s)"

section \<open>Starting the readout\<close>

lemma start_unit_calls: "unit_calls (start_unit E u s) = unit_calls s @ (if oe_bus E u kStartUnit then [(u, kStartUnit)] else [])"
  by (simp add: start_unit_def ControlService_def)

lemma stop_unit_calls: "unit_calls (stop_unit E u s) = unit_calls s @ (if oe_bus E u kStopUnit then [(u, kStopUnit)] else [])"
  by (simp add: stop_unit_def ControlService_def)

lemma unit_frame [simp]:
  "ssd_conf (start_unit E u s) = ssd_conf s" "mon (start_unit E u s) = mon s" "status_thread (start_unit E u s) = status_thread s"
  "g_status_running (start_unit E u s) = g_status_running s" "g_running (start_unit E u s) = g_running s"
  "status_thread (stop_unit E u s) = status_thread s" "g_status_running (stop_unit E u s) = g_status_running s"
  "g_running (stop_unit E u s) = g_running s" "ssd_conf (stop_unit E u s) = ssd_conf s"
  by (simp_all add: start_unit_def stop_unit_def ControlService_def)

lemma set_mon_frame [simp]:
  "unit_calls (set_mon c s) = unit_calls s" "ssd_conf (set_mon c s) = ssd_conf s" "status_thread (set_mon c s) = status_thread s"
  "g_status_running (set_mon c s) = g_status_running s" "g_running (set_mon c s) = g_running s"
  by (simp_all add: set_mon_def)

lemma shell_frame [simp]:
  "unit_calls (snd (run_shell E c s)) = unit_calls s" "status_thread (snd (run_shell E c s)) = status_thread s"
  "g_status_running (snd (run_shell E c s)) = g_status_running s" "g_running (snd (run_shell E c s)) = g_running s"
  by (simp_all add: run_shell_def)

lemma select_room:
  assumes "pick_ok (SelectNvmeDataDir os pick_max m)"
  shows "pick_path (SelectNvmeDataDir os pick_max m) \<in> set (GetNvmeCandidatesFromEnv os)
    \<and> has_free os m (pick_path (SelectNvmeDataDir os pick_max m))"
proof -
  obtain a b where ab: "GetNvmeCandidatesFromEnv os = [a, b]" and ne: "a \<noteq> []" "b \<noteq> []" by (rule candidates_pair)
  show ?thesis
    using max_free.pick_has_room [OF refl, of a b os m] ssd0_first.pick_has_room [OF refl, of a b os m] ne assms
    by (simp add: SelectNvmeDataDir_cases ab split: if_splits)
qed

text \<open>A disk with the room of a run has been chosen, and the configuration names it.\<close>

definition disk_prepared :: "orc_env \<Rightarrow> orc \<Rightarrow> bool" where
  "disk_prepared E s \<longleftrightarrow> (\<exists>path. ssd_conf s = ''DATA_BASE_DIR='' @ path @ [CHR 0x0A] \<and> path \<in> set (GetNvmeCandidatesFromEnv (oe_os E))
     \<and> has_free (oe_os E) kDiskRunStartMinFreeBytes path)"

lemma AutoSelectDataDir_facts:
  assumes "AutoSelectDataDir E s = (ok, s')"
  shows "ok \<Longrightarrow> disk_prepared E s'" and "\<not> ok \<Longrightarrow> ssd_conf s' = ssd_conf s" and "unit_calls s' = unit_calls s"
    and "status_thread s' = status_thread s" "g_status_running s' = g_status_running s" "g_running s' = g_running s"
  using assms select_room [of "oe_os E" "PickMaxFreeEnabled (oe_os E)" kDiskRunStartMinFreeBytes]
  by (auto simp: AutoSelectDataDir_def orc_WriteDataBaseDirConf_def disk_prepared_def Let_def split: if_splits)

text \<open>The calls that a command adds.\<close>

lemma new_calls:
  assumes "orc_action E late cmd s = Some s'"
  shows "\<exists>new. unit_calls s' = unit_calls s @ new \<and> ((kTpcDaq, kStartUnit) \<in> set new \<longrightarrow> disk_prepared E s')
     \<and> (cmd = ORC_Boot_All_DAQ \<and> oe_bus E kTofDaq kStartUnit \<longrightarrow> (kTofDaq, kStartUnit) \<in> set new)"
proof -
  note names = kTpcDaq_def kTofDaq_def kDataMonitor_def kDataMirror_def kOrchestrator_def kStartUnit_def kStopUnit_def kRestartUnit_def
  obtain ok s1 where a: "AutoSelectDataDir E s = (ok, s1)" by (cases "AutoSelectDataDir E s")
  note f = AutoSelectDataDir_facts [OF a]
  have prep: "disk_prepared E t \<longleftrightarrow> disk_prepared E t'" if "ssd_conf t = ssd_conf t'" for t t' using that by (simp add: disk_prepared_def)
  show ?thesis
  proof (cases cmd)
    case ORC_Boot_All_DAQ
    have d: "disk_prepared E s'" if ok using assms ORC_Boot_All_DAQ a f(1) that prep [of s' s1] by (auto simp: orc_action_def)
    then show ?thesis using assms ORC_Boot_All_DAQ a f(3) by (auto simp: orc_action_def start_unit_calls names)
  next
    case ORC_Boot_Tpc_Daq
    have d: "disk_prepared E s'" if ok using assms ORC_Boot_Tpc_Daq a f(1) that prep [of s' s1] by (auto simp: orc_action_def)
    then show ?thesis using assms ORC_Boot_Tpc_Daq a f(3) by (auto simp: orc_action_def start_unit_calls names)
  qed (use assms in \<open>auto simp: orc_action_def start_unit_calls stop_unit_calls stop_all_def names RebootComputer_def orc_InitPcieDriver_def
      start_pps_def ControlService_def WaitForThreadJoin_def set_data_ssd_def Let_def case_prod_beta split: if_splits option.splits\<close>)
qed

section \<open>Status thread and end of the service\<close>

text \<open>The status thread exists exactly while it is told to run.\<close>

definition status_ok :: "orc \<Rightarrow> bool" where
  "status_ok s \<longleftrightarrow> status_thread s = g_status_running s"

lemma stop_all_frame [simp]:
  "status_thread (stop_all E s) = status_thread s" "g_status_running (stop_all E s) = g_status_running s" "g_running (stop_all E s) = g_running s"
  by (simp_all add: stop_all_def)

lemma stop_all_calls:
  "unit_calls (stop_all E s) = unit_calls s
     @ filter (\<lambda>(u, m). oe_bus E u m) [(kTpcDaq, kStopUnit), (kTofDaq, kStopUnit), (kDataMonitor, kStopUnit)]"
  by (simp add: stop_all_def stop_unit_calls)

lemma orc_handle_status:
  assumes "orc_handle E late cmd s = Some s'" and "status_ok s"
  shows "status_ok s'"
proof -
  obtain ok s1 where a: "AutoSelectDataDir E s = (ok, s1)" by (cases "AutoSelectDataDir E s")
  note f = AutoSelectDataDir_facts(4,5) [OF a]
  from assms(1) obtain t where t: "orc_action E late cmd s = Some t" and s': "status_thread s' = status_thread t" "g_status_running s' = g_status_running t"
    by (auto simp: orc_handle_def)
  have "status_ok t"
    using t assms(2) f a by (cases cmd) (auto simp: status_ok_def orc_action_def RebootComputer_def orc_InitPcieDriver_def start_pps_def
      ControlService_def WaitForThreadJoin_def set_data_ssd_def Let_def case_prod_beta split: if_splits option.splits)
  then show ?thesis using s' by (simp add: status_ok_def)
qed

text \<open>The commands that end the process: a data disk without its variable, and the stop of a status thread that
  outlives three waits.\<close>

lemma orc_handle_crash:
  "orc_handle E late cmd s = None \<longleftrightarrow>
     cmd = ORC_Set_Data_SSD0 \<and> oe_conf E \<and> getenv (oe_os E) ''DATA_SSD0_DIR'' = None
   \<or> cmd = ORC_Set_Data_SSD1 \<and> oe_conf E \<and> getenv (oe_os E) ''DATA_SSD1_DIR'' = None
   \<or> cmd = ORC_Stop_Computer_Status \<and> status_thread s \<and> late \<ge> 3"
  by (cases cmd) (auto simp: orc_handle_def orc_action_def set_data_ssd_def WaitForThreadJoin_def Let_def case_prod_beta)

definition harmless :: "orc_obs \<Rightarrow> bool" where
  "harmless ob \<longleftrightarrow> \<not> (ob_cmd ob = ORC_Set_Data_SSD0 \<and> oe_conf (ob_env ob) \<and> getenv (oe_os (ob_env ob)) ''DATA_SSD0_DIR'' = None)
     \<and> \<not> (ob_cmd ob = ORC_Set_Data_SSD1 \<and> oe_conf (ob_env ob) \<and> getenv (oe_os (ob_env ob)) ''DATA_SSD1_DIR'' = None)
     \<and> ob_late ob < 3"

lemma harmless_handled:
  assumes "harmless ob"
  shows "\<exists>t. orc_handle (ob_env ob) (ob_late ob) (ob_cmd ob) s = Some t"
proof -
  have "orc_handle (ob_env ob) (ob_late ob) (ob_cmd ob) s \<noteq> None"
    unfolding orc_handle_crash using assms by (auto simp: harmless_def)
  then show ?thesis by blast
qed

lemma orc_handle_running:
  assumes "orc_handle E late cmd s = Some s'" and "\<not> g_running s"
  shows "\<not> g_running s'"
proof -
  obtain ok s1 where a: "AutoSelectDataDir E s = (ok, s1)" by (cases "AutoSelectDataDir E s")
  note f = AutoSelectDataDir_facts(6) [OF a]
  from assms(1) obtain t where t: "orc_action E late cmd s = Some t" and s': "g_running s' = g_running t" by (auto simp: orc_handle_def)
  have "\<not> g_running t"
    using t assms(2) f a by (cases cmd) (auto simp: orc_action_def RebootComputer_def orc_InitPcieDriver_def start_pps_def
      ControlService_def WaitForThreadJoin_def set_data_ssd_def Let_def case_prod_beta split: if_splits option.splits)
  then show ?thesis using s' by simp
qed

text \<open>What the end of the handler leaves.\<close>

definition all_stopped :: "orc_env \<Rightarrow> orc \<Rightarrow> bool" where
  "all_stopped E s \<longleftrightarrow> \<not> g_running s \<and> \<not> status_thread s \<and> \<not> g_status_running s
     \<and> (\<exists>before. unit_calls s = before @ filter (\<lambda>(u, m). oe_bus E u m) [(kTpcDaq, kStopUnit), (kTofDaq, kStopUnit), (kDataMonitor, kStopUnit)])"

lemma shut_stops:
  assumes "late < 3" and "\<not> g_running s"
  shows "\<exists>s'. shut E late s = Returned s' \<and> all_stopped E s'"
  using assms by (auto simp: shut_def orc_shutdown_def WaitForThreadJoin_def all_stopped_def stop_all_calls Let_def)

lemma DAQHandler_keeps_status:
  assumes "DAQHandler E late obs s = Running s'" and "status_ok s"
  shows "status_ok s'"
  using assms
proof (induction obs arbitrary: s)
  case (Cons ob obs)
  let ?s = "if ob_signal ob then s\<lparr>g_running := False\<rparr> else s"
  have "status_ok ?s" using Cons.prems(2) by (simp add: status_ok_def)
  then show ?case using Cons orc_handle_status [of "ob_env ob" "ob_late ob" "ob_cmd ob" ?s]
    by (auto simp: shut_def split: if_splits option.splits)
qed (auto simp: shut_def split: if_splits option.splits)


text \<open>C29: The readout is started only onto a disk with room for a run: whatever command starts the readout service, the data directory
  written for it is an NVMe mount with at least the reserve of a run start; booting everything starts the TOF
  service in any case.\<close>
theorem Boot_needs_space:
  assumes "orc_handle E late cmd s = Some s'"
  shows "\<exists>new. unit_calls s' = unit_calls s @ new
    \<and> ((kTpcDaq, kStartUnit) \<in> set new \<longrightarrow> (\<exists>path. ssd_conf s' = ''DATA_BASE_DIR='' @ path @ [CHR 0x0A]
          \<and> path \<in> set (GetNvmeCandidatesFromEnv (oe_os E)) \<and> has_free (oe_os E) kDiskRunStartMinFreeBytes path))
    \<and> (cmd = ORC_Boot_All_DAQ \<and> oe_bus E kTofDaq kStartUnit \<longrightarrow> (kTofDaq, kStartUnit) \<in> set new)"
proof -
  from assms obtain t where t: "orc_action E late cmd s = Some t" and s': "unit_calls s' = unit_calls t" "ssd_conf s' = ssd_conf t"
    by (auto simp: orc_handle_def)
  show ?thesis using new_calls [OF t] s' by (simp add: disk_prepared_def)
qed

definition calm_orc_env :: orc_env where
  "calm_orc_env = \<lparr>oe_os = default_os, oe_bus = \<lambda>_ _. True, oe_system = \<lambda>_. 0, oe_conf = True, oe_state = \<lambda>_. None,
     oe_statfs = \<lambda>_. None, oe_sg_init = False, oe_cpu = (None, None), oe_mem = None, oe_temp = \<lambda>_. None, oe_num_cpus = 12\<rparr>"

definition fresh_orc :: orc where
  "fresh_orc = \<lparr>g_running = True, g_status_running = False, status_thread = False, mon = [], unit_calls = [], shell = [], ssd_conf = []\<rparr>"


theorem Boot_needs_space_witness:
  "\<exists>s'. orc_handle calm_orc_env 0 ORC_Boot_All_DAQ fresh_orc = Some s' \<and> (kTofDaq, kStartUnit) \<in> set (unit_calls s')"
proof -
  obtain s' where s': "orc_handle calm_orc_env 0 ORC_Boot_All_DAQ fresh_orc = Some s'"
    using orc_handle_crash [of calm_orc_env 0 ORC_Boot_All_DAQ fresh_orc] by auto
  have "oe_bus calm_orc_env kTofDaq kStartUnit" by (simp add: calm_orc_env_def)
  then show ?thesis using s' Boot_needs_space [OF s'] by auto
qed

section \<open>Status thread\<close>

text \<open>One report is sent for every pass that saw the run flag set, each extends the previous one, and the thread fails only in a pass
  whose second processor sample is missing.\<close>

lemma status_loop_reports:
  "status_loop obs s sent = Some (s', sent') \<Longrightarrow> \<exists>new. sent' = sent @ new \<and> length new = length (takeWhile fst obs)
     \<and> (\<forall>r\<in>set new. \<exists>more. r = mon s @ more)"
proof (induction obs s sent rule: status_loop.induct)
  case (2 run E obs s sent)
  show ?case
  proof (cases run)
    case True
    then obtain t where t: "status_pass E s = Some t" using "2.prems" by (auto split: option.splits)
    then obtain more where m: "mon t = mon s @ more" by (auto simp: status_pass_def)
    from 2 True t obtain new where "sent' = (sent @ [mon t]) @ new" "length new = length (takeWhile fst obs)"
      "\<forall>r\<in>set new. \<exists>more. r = mon t @ more" by auto
    then show ?thesis using True m by (intro exI [of _ "mon t # new"]) auto
  qed (use 2 in auto)
qed simp

lemma status_pass_fails:
  "status_pass E s = None \<longleftrightarrow> getenv (oe_os E) ''DATA_SSD0_DIR'' \<noteq> None \<and> getenv (oe_os E) ''DATA_SSD1_DIR'' \<noteq> None
     \<and> oe_sg_init E \<and> fst (oe_cpu E) \<noteq> None \<and> snd (oe_cpu E) = None"
  by (auto simp: status_pass_def GetComputerStatus_def GetCpuStats_def Let_def split: option.splits prod.splits)

section \<open>Temperatures\<close>

text \<open>The error bits of the two kinds of sensors are exchanged: a missing disk sensor is reported as a processor sensor, and hides the
  processors altogether; a missing processor sensor is reported as a disk sensor.\<close>

lemma temperature_errors_exchanged:
  "oe_temp E (sensor 1 1) = None \<Longrightarrow> GetCoreDiskTemp E = [setErrorBitWord cpu_temp_status]"
  "oe_temp E (sensor 1 1) = Some t \<Longrightarrow> setErrorBitWord cpu_temp_status \<notin> set (GetCoreDiskTemp E)
     \<and> (setErrorBitWord disk_temp_status \<in> set (GetCoreDiskTemp E) \<longleftrightarrow> (\<exists>i<oe_num_cpus E. oe_temp E (sensor 2 (i + 1)) = None))"
  by (auto simp: GetCoreDiskTemp_def core_temp_def split: option.splits)

end
