(* ===== verification/Daq_Orchestrator.thy ===== *)
theory Daq_Orchestrator
  imports Orchestrator "HOL-Library.Monad_Syntax"
begin

text \<open>
  The older orchestrator of \<^verbatim>\<open>daemon/daq_orchestrator.cpp\<close>, which runs the readout controller, the data monitor and the TOF
  controller as threads of its own process.  Shared helpers (sensors, processor and memory use, shell commands)
  are those of the newer orchestrator.  The three controllers are objects of other components or repositories;
  what matters here is when they exist and when their threads end, which their threads decide.
\<close>

section \<open>Processes\<close>

text \<open>\<^verbatim>\<open>p_ptr\<close>: the controller object exists; \<^verbatim>\<open>p_joinable\<close>: a thread was started and not joined; \<^verbatim>\<open>p_alive\<close>: its
  function has not returned.\<close>

record DAQProcess =
  p_ptr :: bool
  p_joinable :: bool
  p_alive :: bool

definition new_process :: DAQProcess where
  "new_process = \<lparr>p_ptr = False, p_joinable = False, p_alive = False\<rparr>"

definition StartDaqProcess :: "DAQProcess \<Rightarrow> DAQProcess" where
  "StartDaqProcess p = (if p_joinable p then p else p\<lparr>p_joinable := True, p_alive := True\<rparr>)"

text \<open>The run function of a process: the controller is constructed, or its constructor throws; once it runs, it may return or throw,
  and the object is released.\<close>

definition run_constructs :: "DAQProcess \<Rightarrow> DAQProcess" where
  "run_constructs p = (if p_alive p \<and> \<not> p_ptr p then p\<lparr>p_ptr := True\<rparr> else p)"

definition run_fails :: "DAQProcess \<Rightarrow> DAQProcess" where
  "run_fails p = (if p_alive p \<and> \<not> p_ptr p then p\<lparr>p_alive := False\<rparr> else p)"

definition run_returns :: "DAQProcess \<Rightarrow> DAQProcess" where
  "run_returns p = (if p_alive p \<and> p_ptr p then p\<lparr>p_ptr := False, p_alive := False\<rparr> else p)"

text \<open>Stopping tells the controller to end, waits for the thread (see \<^const>\<open>WaitForThreadJoin\<close>) and releases the object;
  without an object nothing is done.  The first part is false when SIGTERM was sent, \<^term>\<open>None\<close> when SIGKILL was.\<close>

definition StopDaqProcess :: "nat \<Rightarrow> DAQProcess \<Rightarrow> (bool \<times> DAQProcess) option" where
  "StopDaqProcess late p =
     (if \<not> p_ptr p then Some (True, p)
      else if late \<ge> 3 then None
      else Some (late < 2, new_process))"

record tof_env =
  te_config :: bool
  te_construct :: bool
  te_initialize :: bool
  te_thread :: bool

text \<open>A missing default configuration is an exception that nobody catches.\<close>

definition StartTofProcess :: "tof_env \<Rightarrow> DAQProcess \<Rightarrow> DAQProcess option" where
  "StartTofProcess T p =
     (if p_joinable p then Some p
      else if \<not> te_config T then None
      else if \<not> te_construct T \<or> \<not> te_initialize T \<or> \<not> te_thread T then Some (p\<lparr>p_ptr := False\<rparr>)
      else Some \<lparr>p_ptr = True, p_joinable = True, p_alive = True\<rparr>)"

definition StopTofProcess :: "nat \<Rightarrow> DAQProcess \<Rightarrow> (bool \<times> DAQProcess) option" where
  "StopTofProcess late p = StopDaqProcess late p"

section \<open>Commands\<close>

record dorc = orc +
  tpc_controller_daq :: DAQProcess
  tpc_monitor_controller_daq :: DAQProcess
  tof_process :: DAQProcess

definition daq_GetComputerStatus :: "orc_env \<Rightarrow> mon_set list option" where
  "daq_GetComputerStatus E = (case getenv (oe_os E) ''DATA_BASE_DIR'' of None \<Rightarrow> Some [setErrorBitWord disk_free_status]
   | Some dir \<Rightarrow>
       let disks = disk_free E dir setTpcDisk0 @ disk_free E (dir @ ''/tof_data'') setTofDisk0 @ disk_free E ''/'' setSysDisk in
       if oe_sg_init E then map_option (\<lambda>cpu. disks @ cpu @ GetMemoryStats E @ GetCoreDiskTemp E) (GetCpuStats E)
       else Some (disks @ [setErrorBitWord cpu_usage_status, setErrorBitWord memory_usage_status] @ GetCoreDiskTemp E))"

text \<open>The status thread, which reports only the computer.\<close>

fun daq_SendStatus :: "(bool \<times> orc_env) list \<Rightarrow> dorc \<Rightarrow> mon_set list list \<Rightarrow> (dorc \<times> mon_set list list) option" where
  "daq_SendStatus [] s sent = Some (s, sent)"
| "daq_SendStatus ((run, E) # obs) s sent =
     (if \<not> run then Some (s, sent)
      else case daq_GetComputerStatus E of None \<Rightarrow> None
        | Some cs \<Rightarrow> let s = s\<lparr>mon := mon s @ cs\<rparr> in daq_SendStatus obs s (sent @ [mon s]))"

definition note_bit :: "daq_bit \<Rightarrow> bool \<Rightarrow> dorc \<Rightarrow> dorc" where
  "note_bit b clear s = s\<lparr>mon := mon s @ [setDaqBitWord b clear]\<rparr>"

definition note_term :: "bool \<Rightarrow> dorc \<Rightarrow> dorc" where
  "note_term quiet s = (if quiet then s else s\<lparr>g_running := False\<rparr>)"

definition stop_tpc :: "nat \<Rightarrow> dorc \<Rightarrow> dorc option" where
  "stop_tpc late s = map_option (\<lambda>(q, p). note_term q (s\<lparr>tpc_controller_daq := p\<rparr>)) (StopDaqProcess late (tpc_controller_daq s))"

definition stop_monitor :: "nat \<Rightarrow> dorc \<Rightarrow> dorc option" where
  "stop_monitor late s = map_option (\<lambda>(q, p). note_term q (s\<lparr>tpc_monitor_controller_daq := p\<rparr>)) (StopDaqProcess late (tpc_monitor_controller_daq s))"

definition stop_tof :: "nat \<Rightarrow> dorc \<Rightarrow> dorc option" where
  "stop_tof late s = map_option (\<lambda>(q, p). note_term q (s\<lparr>tof_process := p\<rparr>)) (StopTofProcess late (tof_process s))"

definition stop_status :: "nat \<Rightarrow> dorc \<Rightarrow> dorc option" where
  "stop_status late s = (let s = s\<lparr>g_status_running := False\<rparr> in
     if \<not> status_thread s then Some s
     else if late \<ge> 3 then None
     else Some (note_term (late < 2) (s\<lparr>status_thread := False\<rparr>)))"

definition daq_shell :: "orc_env \<Rightarrow> string \<Rightarrow> orc_error \<Rightarrow> dorc \<Rightarrow> dorc" where
  "daq_shell E cmd err s = (let s = s\<lparr>shell := shell s @ [cmd]\<rparr> in
     if oe_system E cmd \<noteq> 0 then s\<lparr>mon := mon s @ [setErrorBitWord err]\<rparr> else s)"

definition daq_InitPcieDriver :: "orc_env \<Rightarrow> dorc \<Rightarrow> dorc" where
  "daq_InitPcieDriver E s = (case getenv (oe_os E) ''TPC_DAQ_BASEDIR'' of
     None \<Rightarrow> s\<lparr>mon := mon s @ [setErrorBitWord init_pcie]\<rparr>
   | Some basedir \<Rightarrow> daq_shell E (basedir @ ''/scripts/setup_windriver.sh'') init_pcie s)"

definition daq_action :: "orc_env \<Rightarrow> tof_env \<Rightarrow> nat \<Rightarrow> orc_command \<Rightarrow> dorc \<Rightarrow> dorc option" where
  "daq_action E T late cmd s = (case cmd of
     ORC_Start_Computer_Status \<Rightarrow> Some (if \<not> status_thread s then s\<lparr>g_status_running := True, status_thread := True\<rparr> else s)
   | ORC_Boot_Tpc_Daq \<Rightarrow> Some (note_bit tpc False (s\<lparr>tpc_controller_daq := StartDaqProcess (tpc_controller_daq s)\<rparr>))
   | ORC_Shutdown_Tpc_Daq \<Rightarrow> map_option (note_bit tpc True) (stop_tpc late s)
   | ORC_Boot_Tof_Daq \<Rightarrow> map_option (\<lambda>p. note_bit tof False (s\<lparr>tof_process := p\<rparr>)) (StartTofProcess T (tof_process s))
   | ORC_Shutdown_Tof_Daq \<Rightarrow> map_option (note_bit tof True) (stop_tof late s)
   | ORC_Stop_Computer_Status \<Rightarrow> stop_status late s
   | ORC_Exec_CPU_Restart \<Rightarrow> Some (daq_shell E ''systemctl reboot'' reboot_computer s)
   | ORC_Init_PCIe_Driver \<Rightarrow> Some (daq_InitPcieDriver E s)
   | ORC_Boot_Monitor \<Rightarrow> Some (note_bit tpc_monitor False (s\<lparr>tpc_monitor_controller_daq := StartDaqProcess (tpc_monitor_controller_daq s)\<rparr>))
   | ORC_Shutdown_Monitor \<Rightarrow> map_option (note_bit tpc_monitor True) (stop_monitor late s)
   | _ \<Rightarrow> Some s)"

text \<open>The end of the handler.  Its thread objects are destroyed when it returns, and a thread that is still joinable then ends
  the process.\<close>

definition daq_shutdown :: "nat \<Rightarrow> dorc \<Rightarrow> dorc option" where
  "daq_shutdown late s = do {
     s \<leftarrow> stop_tpc late (s\<lparr>g_status_running := False\<rparr>);
     s \<leftarrow> stop_monitor late s;
     s \<leftarrow> stop_tof late s;
     s \<leftarrow> stop_status late s;
     if p_joinable (tpc_controller_daq s) \<or> p_joinable (tpc_monitor_controller_daq s) \<or> p_joinable (tof_process s) then None else Some s}"

text \<open>What the threads of the processes do between two commands.\<close>

datatype life = Constructs | Fails | Returns

definition live_step :: "life \<Rightarrow> DAQProcess \<Rightarrow> DAQProcess" where
  "live_step e p = (case e of Constructs \<Rightarrow> run_constructs p | Fails \<Rightarrow> run_fails p | Returns \<Rightarrow> run_returns p)"

text \<open>A process that fails to construct its controller reports it.\<close>

fun live_errors :: "orc_error \<Rightarrow> life list \<Rightarrow> DAQProcess \<Rightarrow> mon_set list" where
  "live_errors err [] p = []"
| "live_errors err (e # es) p = (if e = Fails \<and> p_alive p \<and> \<not> p_ptr p then [setErrorBitWord err] else []) @ live_errors err es (live_step e p)"

record daq_obs =
  dq_env :: orc_env
  dq_tof :: tof_env
  dq_tpc_life :: "life list"
  dq_monitor_life :: "life list"
  dq_signal :: bool
  dq_cmd :: orc_command
  dq_late :: nat

definition between :: "daq_obs \<Rightarrow> dorc \<Rightarrow> dorc" where
  "between ob s = (let s = s\<lparr>mon := mon s @ live_errors start_tpc_daq (dq_tpc_life ob) (tpc_controller_daq s)
         @ live_errors start_tpc_dm (dq_monitor_life ob) (tpc_monitor_controller_daq s),
       tpc_controller_daq := fold live_step (dq_tpc_life ob) (tpc_controller_daq s),
       tpc_monitor_controller_daq := fold live_step (dq_monitor_life ob) (tpc_monitor_controller_daq s)\<rparr> in
     if dq_signal ob then s\<lparr>g_running := False\<rparr> else s)"

datatype daq_end = Daq_returned dorc | Daq_crashed | Daq_running dorc

definition daq_end_of :: "nat \<Rightarrow> dorc \<Rightarrow> daq_end" where
  "daq_end_of late s = (case daq_shutdown late s of None \<Rightarrow> Daq_crashed | Some s \<Rightarrow> Daq_returned s)"

fun daq_DAQHandler :: "nat \<Rightarrow> daq_obs list \<Rightarrow> dorc \<Rightarrow> daq_end" where
  "daq_DAQHandler late [] s = (if g_running s then Daq_running s else daq_end_of late s)"
| "daq_DAQHandler late (ob # obs) s =
     (if \<not> g_running s then daq_end_of late s
      else case daq_action (dq_env ob) (dq_tof ob) (dq_late ob) (dq_cmd ob) (between ob s) of
        None \<Rightarrow> Daq_crashed | Some s \<Rightarrow> daq_DAQHandler late obs s)"

section \<open>Life of a process\<close>

inductive p_step :: "DAQProcess \<Rightarrow> DAQProcess \<Rightarrow> bool" where
  boot: "p_step p (StartDaqProcess p)"
| constructs: "p_step p (run_constructs p)"
| fails: "p_step p (run_fails p)"
| returns: "p_step p (run_returns p)"
| halt: "StopDaqProcess late p = Some (q, p') \<Longrightarrow> p_step p p'"

inductive_cases p_stepE: "p_step p p'"

lemmas process_defs = new_process_def StartDaqProcess_def run_constructs_def run_fails_def run_returns_def StopDaqProcess_def

text \<open>The states a process can be in: never started, starting, running, or ended without being joined.\<close>

definition stuck :: DAQProcess where
  "stuck = \<lparr>p_ptr = False, p_joinable = True, p_alive = False\<rparr>"

definition process_states :: "DAQProcess list" where
  "process_states = [new_process, \<lparr>p_ptr = False, p_joinable = True, p_alive = True\<rparr>, \<lparr>p_ptr = True, p_joinable = True, p_alive = True\<rparr>, stuck]"

lemma p_step_states:
  assumes "p_step p p'" and "p \<in> set process_states"
  shows "p' \<in> set process_states"
  using assms by (auto elim!: p_stepE simp: process_states_def stuck_def process_defs split: if_splits)

lemma stuck_forever:
  assumes "p_step\<^sup>*\<^sup>* stuck p"
  shows "p = stuck"
  using assms by (induction rule: rtranclp_induct) (auto elim!: p_stepE simp: stuck_def process_defs split: if_splits)

text \<open>A controller whose thread has ended by itself, because its constructor threw or its command loop returned, can never be started
  again, stopped or joined: in every reachable state a process is unused, starting, running or stuck; a running
  process can get stuck in one step; and no boot or shutdown command leads out of it.\<close>
theorem daq_process_stuck:
  "(p_step\<^sup>*\<^sup>* new_process p \<longrightarrow> p \<in> set process_states)
   \<and> (p_alive p \<longrightarrow> p_step\<^sup>*\<^sup>* new_process p \<longrightarrow> (\<exists>p'. p_step p p' \<and> p' = stuck))
   \<and> (p_step\<^sup>*\<^sup>* stuck p \<longrightarrow> p = stuck)"
proof -
  have states: "p \<in> set process_states" if "p_step\<^sup>*\<^sup>* new_process p"
    using that
  proof (induction rule: rtranclp_induct)
    case base
    show ?case by (simp add: process_states_def)
  next
    case (step y z)
    then show ?case using p_step_states by blast
  qed
  have "\<exists>p'. p_step p p' \<and> p' = stuck" if "p_alive p" "p_step\<^sup>*\<^sup>* new_process p"
  proof (cases "p_ptr p")
    case True
    then have "run_returns p = stuck" using states that by (auto simp: process_states_def run_returns_def stuck_def new_process_def)
    then show ?thesis using p_step.returns [of p] by metis
  next
    case False
    then have "run_fails p = stuck" using states that by (auto simp: process_states_def run_fails_def stuck_def new_process_def)
    then show ?thesis using p_step.fails [of p] by metis
  qed
  then show ?thesis using states stuck_forever by blast
qed

theorem daq_process_stuck_witness:
  "\<exists>p'. p_step (StartDaqProcess new_process) p' \<and> p' = stuck"
proof -
  have "p_step\<^sup>*\<^sup>* new_process (StartDaqProcess new_process)" by (rule r_into_rtranclp) (rule p_step.boot)
  then show ?thesis using daq_process_stuck [of "StartDaqProcess new_process"] by (simp add: StartDaqProcess_def new_process_def)
qed

text \<open>Shutting the service down with a stuck process ends it abnormally.\<close>

lemma shutdown_with_stuck_process:
  assumes "tpc_controller_daq s = stuck"
  shows "daq_shutdown late s = None"
  using assms by (auto simp: daq_shutdown_def stop_tpc_def stop_monitor_def stop_tof_def stop_status_def StopDaqProcess_def StopTofProcess_def
      stuck_def note_term_def Let_def bind_eq_Some_conv split: if_splits)

end
