(* ===== verification/Tof_Service.thy ===== *)
theory Tof_Service
  imports Daq_Orchestrator
begin

text \<open>
  The TOF service of \<^verbatim>\<open>daemon/tof_daq.cpp\<close>: it runs the TOF controller of another repository in a thread, forwards its own journal
  to the ground as log messages, and ends at a signal.  Starting the controller is \<^const>\<open>StartTofProcess\<close> as in the
  single-process orchestrator.
\<close>

section \<open>Log forwarder\<close>

definition newline :: char where "newline = CHR 0x0A"

text \<open>\<^verbatim>\<open>fgets\<close> with room for \<^verbatim>\<open>n\<close> characters: up to and including the first newline.\<close>

fun fgets :: "nat \<Rightarrow> string \<Rightarrow> string \<times> string" where
  "fgets 0 s = ([], s)"
| "fgets (Suc n) [] = ([], [])"
| "fgets (Suc n) (c # s) = (if c = newline then ([c], s) else case fgets n s of (l, r) \<Rightarrow> (c # l, r))"

text \<open>The expression \<^verbatim>\<open>ESC [ digits-or-semicolons letter\<close> after its first character: the rest of the text if it matches.\<close>

definition letter :: "char \<Rightarrow> bool" where
  "letter c = (let n = of_char c :: nat in 97 \<le> n \<and> n \<le> 122 \<or> 65 \<le> n \<and> n \<le> 90)"

definition ansi_match :: "string \<Rightarrow> string option" where
  "ansi_match s = (case s of CHR ''['' # s \<Rightarrow>
       (case dropWhile (\<lambda>c. isdigit c \<or> c = CHR '';'') s of c # r \<Rightarrow> if letter c then Some r else None | [] \<Rightarrow> None)
     | _ \<Rightarrow> None)"

lemma ansi_match_shorter: "ansi_match s = Some r \<Longrightarrow> length r < length s"
proof -
  assume m: "ansi_match s = Some r"
  then obtain t c where t: "s = CHR ''['' # t" "dropWhile (\<lambda>c. isdigit c \<or> c = CHR '';'') t = c # r"
    by (auto simp: ansi_match_def split: list.splits if_splits char.splits bool.splits)
  have "length (c # r) \<le> length t" using length_dropWhile_le [of "\<lambda>c. isdigit c \<or> c = CHR '';''" t] t(2) by simp
  then show ?thesis using t(1) by simp
qed

text \<open>All matches removed, from left to right.\<close>

function clean_line :: "string \<Rightarrow> string" where
  "clean_line [] = []"
| "clean_line (c # s) = (case (if c = CHR 0x1B then ansi_match s else None) of Some r \<Rightarrow> clean_line r | None \<Rightarrow> c # clean_line s)"
  by pat_completeness auto
termination
  by (relation "measure length") (auto dest: ansi_match_shorter split: if_splits)

text \<open>What one buffer gives: the C string in it without its newline, cleaned, unless it is empty or nobody is connected.\<close>

definition handle_line :: "bool \<Rightarrow> string \<Rightarrow> string list" where
  "handle_line connected buf =
     (let line = takeWhile (\<lambda>c. c \<noteq> CHR 0x00) buf;
          line = (if line \<noteq> [] \<and> last line = newline then butlast line else line)
      in if line = [] then [] else if connected then [clean_line line] else [])"

text \<open>The loop over the journal; each pass observes the run flag and the connection.\<close>

fun forwarder_run :: "(bool \<times> bool) list \<Rightarrow> string \<Rightarrow> string list option" where
  "forwarder_run [] journal = None"
| "forwarder_run ((running, connected) # obs) journal =
     (if \<not> running \<or> journal = [] then Some []
      else case fgets 2047 journal of (buf, rest) \<Rightarrow> map_option (\<lambda>ms. handle_line connected buf @ ms) (forwarder_run obs rest))"

section \<open>The service\<close>

datatype tof_end = Exited | Waits_for_signal | Waits_for_forwarder | Waits_for_thread

text \<open>\<^verbatim>\<open>WaitForThreadJoin\<close> of this service gives up after five seconds, but the future it returns from blocks in its destructor until the
  thread has ended.  \<^verbatim>\<open>client\<close>: the controller has an event client; the other observations: a signal arrives, the journal
  process can be closed, the controller thread ends.\<close>

record tof_obs =
  to_start :: tof_env
  to_client :: bool
  to_signal :: bool
  to_journal_ends :: bool
  to_thread_ends :: bool

definition tof_stop :: "tof_obs \<Rightarrow> DAQProcess \<Rightarrow> tof_end" where
  "tof_stop T p =
     (if p_ptr p \<and> to_client T \<and> \<not> to_journal_ends T then Waits_for_forwarder
      else if p_ptr p \<and> \<not> to_thread_ends T then Waits_for_thread
      else Exited)"

definition tof_main :: "tof_obs \<Rightarrow> tof_end" where
  "tof_main T = (case StartTofProcess (to_start T) new_process of
     None \<Rightarrow> tof_stop T new_process
   | Some p \<Rightarrow> if \<not> to_signal T then Waits_for_signal else tof_stop T p)"

section \<open>Properties\<close>

lemma fgets_line:
  assumes "newline \<notin> set l" and "length l < n"
  shows "fgets n (l @ newline # s) = (l @ [newline], s)"
  using assms
proof (induction l arbitrary: n)
  case Nil
  then show ?case by (cases n) simp_all
next
  case (Cons c l)
  then show ?case by (cases n) auto
qed

lemma handle_whole_line:
  assumes "newline \<notin> set l" and "CHR 0x00 \<notin> set l"
  shows "handle_line True (l @ [newline]) = (if l = [] then [] else [clean_line l])"
proof -
  have "newline \<noteq> CHR 0x00" by (simp add: newline_def)
  then have "takeWhile (\<lambda>c. c \<noteq> CHR 0x00) (l @ [newline]) = l @ [newline]" using assms(2) by (induction l) auto
  then show ?thesis by (simp add: handle_line_def Let_def)
qed

lemma clean_line_plain: "CHR 0x1B \<notin> set l \<Longrightarrow> clean_line l = l"
  by (induction l) auto



text \<open>Removing a sequence can leave a new one behind.\<close>

lemma clean_line_once: "clean_line ([CHR 0x1B] @ ''['' @ [CHR 0x1B] @ ''[0m0mx'') = [CHR 0x1B] @ ''[0mx''"
  by code_simp

text \<open>A controller that fails to initialise leaves a service that waits for a signal without doing anything; a controller thread that
  does not end keeps the service from ending.\<close>

lemma tof_main_idle: "te_config (to_start T) \<Longrightarrow> te_construct (to_start T) \<Longrightarrow> \<not> te_initialize (to_start T) \<Longrightarrow>
   tof_main T = (if to_signal T then Exited else Waits_for_signal)"
  by (simp add: tof_main_def StartTofProcess_def new_process_def tof_stop_def)

lemma tof_main_exits: "tof_main T = Exited \<longleftrightarrow> \<not> te_config (to_start T) \<or> to_signal T
   \<and> (te_construct (to_start T) \<and> te_initialize (to_start T) \<and> te_thread (to_start T) \<longrightarrow> (to_client T \<longrightarrow> to_journal_ends T) \<and> to_thread_ends T)"
  by (auto simp: tof_main_def StartTofProcess_def new_process_def tof_stop_def)

end
