(* ===== verification/Gramsreadout_Lib.thy ===== *)
theory Gramsreadout_Lib
  imports Pcie_Interface
begin

text \<open>
  The library \<^verbatim>\<open>lib/pcie_driver/gramsreadout_lib.c\<close> between the PCIe interface and the WinDriver library: reference count,
  device handles, interrupts, events, DMA buffers and address spaces; and the construction and destruction of the
  PCIe interface on top of it.  WinDriver (the functions with prefix \<^verbatim>\<open>WDC\<close>) is a parameter with a state of its
  own.  Messages for the log are kept only as the fact that an error was recorded.
\<close>

section \<open>WinDriver\<close>

datatype wd_status = WD_STATUS_SUCCESS | WD_INVALID_PARAMETER | WD_OPERATION_FAILED | WD_OPERATION_ALREADY_DONE | WD_SYSTEM_INTERNAL_ERROR
  | WD_OTHER u32

datatype item_type = ITEM_INTERRUPT | ITEM_OTHER nat

record addr_desc =
  ad_mem :: bool
  ad_active :: bool
  ad_start :: u64
  ad_bytes :: u64

record wd_int =
  Int_dwCounter :: u32
  Int_dwLost :: u32
  Int_fStopped :: u32
  enabled_int_type :: u32
  enabled_int_last_msg :: u32

text \<open>\<^verbatim>\<open>find_has_slot\<close> is the build switch \<^verbatim>\<open>WDC_DIAG_DEVICE_FIND_HAS_SLOT\<close>.  The functions that lock a buffer answer with the new buffer and
  descriptor pointers as well.\<close>

record 'w wdc_ops =
  find_has_slot :: bool
  WD_DriverName :: "'w \<Rightarrow> bool \<times> 'w"
  WDC_SetDebugOptions :: "'w \<Rightarrow> wd_status \<times> 'w"
  WDC_DriverOpen :: "'w \<Rightarrow> wd_status \<times> 'w"
  WDC_DriverClose :: "'w \<Rightarrow> wd_status \<times> 'w"
  WDC_DIAG_DeviceFind :: "u32 \<Rightarrow> u32 \<Rightarrow> u32 option \<Rightarrow> 'w \<Rightarrow> nat option \<times> 'w"
  WDC_DIAG_DeviceOpen :: "nat \<Rightarrow> 'w \<Rightarrow> nat option \<times> 'w"
  WDC_DIAG_DeviceClose :: "nat \<Rightarrow> 'w \<Rightarrow> bool \<times> 'w"
  WDC_IntIsEnabled :: "nat \<Rightarrow> 'w \<Rightarrow> bool"
  WDC_IntEnable :: "nat \<Rightarrow> 'w \<Rightarrow> wd_status \<times> 'w"
  WDC_IntDisable :: "nat \<Rightarrow> 'w \<Rightarrow> wd_status \<times> 'w"
  WDC_EventIsRegistered :: "nat \<Rightarrow> 'w \<Rightarrow> bool"
  WDC_EventRegister :: "nat \<Rightarrow> 'w \<Rightarrow> wd_status \<times> 'w"
  WDC_EventUnregister :: "nat \<Rightarrow> 'w \<Rightarrow> wd_status \<times> 'w"
  WDC_DMABufUnlock :: "buf_id \<Rightarrow> 'w \<Rightarrow> wd_status \<times> 'w"
  WDC_PciSriovEnable :: "nat \<Rightarrow> u32 \<Rightarrow> 'w \<Rightarrow> wd_status \<times> 'w"
  WDC_PciSriovDisable :: "nat \<Rightarrow> 'w \<Rightarrow> wd_status \<times> 'w"
  WDC_PciSriovGetNumVFs :: "nat \<Rightarrow> 'w \<Rightarrow> (wd_status \<times> u32) \<times> 'w"
  WDC_DMAContigBufLock :: "nat option \<Rightarrow> u32 \<Rightarrow> u32 \<Rightarrow> 'w \<Rightarrow> (wd_status \<times> nat option \<times> nat option) \<times> 'w"
  WDC_DMASGBufLock :: "nat option \<Rightarrow> nat option \<Rightarrow> u32 \<Rightarrow> u32 \<Rightarrow> 'w \<Rightarrow> (wd_status \<times> nat option) \<times> 'w"
  WDC_DMAReservedBufLock :: "nat option \<Rightarrow> u64 \<Rightarrow> u32 \<Rightarrow> u32 \<Rightarrow> 'w \<Rightarrow> (wd_status \<times> nat option \<times> nat option) \<times> 'w"
  int_of :: "nat \<Rightarrow> 'w \<Rightarrow> wd_int"
  card_items :: "nat \<Rightarrow> item_type list"
  addr_descs :: "nat \<Rightarrow> addr_desc list"

section \<open>State\<close>

text \<open>A context holds the two handler routines of a device, here numbers; \<^term>\<open>None\<close> is the null pointer of a context that was never
  filled.\<close>

record dev_ctx =
  funcDiagIntHandler :: "nat option"
  funcDiagEventHandler :: "nat option"

record 'w lib =
  LibInit_count :: u32
  LastErr :: bool
  ctx_of :: "nat \<Rightarrow> dev_ctx option"
  wstate :: 'w

definition ErrLog :: "'w lib \<Rightarrow> 'w lib" where
  "ErrLog l = l\<lparr>LastErr := True\<rparr>"

definition note_status :: "wd_status \<Rightarrow> 'w lib \<Rightarrow> 'w lib" where
  "note_status st l = (if st \<noteq> WD_STATUS_SUCCESS then ErrLog l else l)"

section \<open>Library\<close>

definition GRAMSREADOUT_LibInit :: "'w wdc_ops \<Rightarrow> 'w lib \<Rightarrow> wd_status \<times> 'w lib" where
  "GRAMSREADOUT_LibInit W l =
     (let l = l\<lparr>LibInit_count := LibInit_count l + 1\<rparr> in
      if LibInit_count l > 1 then (WD_STATUS_SUCCESS, l)
      else case WD_DriverName W (wstate l) of (ok, w) \<Rightarrow> let l = l\<lparr>wstate := w\<rparr> in
      if \<not> ok then (WD_SYSTEM_INTERNAL_ERROR, ErrLog l)
      else case WDC_SetDebugOptions W (wstate l) of (st, w) \<Rightarrow> let l = l\<lparr>wstate := w\<rparr> in
      if st \<noteq> WD_STATUS_SUCCESS then (st, ErrLog l)
      else case WDC_DriverOpen W (wstate l) of (st, w) \<Rightarrow> let l = l\<lparr>wstate := w\<rparr> in
      if st \<noteq> WD_STATUS_SUCCESS then (st, ErrLog l) else (WD_STATUS_SUCCESS, l))"

definition GRAMSREADOUT_LibUninit :: "'w wdc_ops \<Rightarrow> 'w lib \<Rightarrow> wd_status \<times> 'w lib" where
  "GRAMSREADOUT_LibUninit W l =
     (let l = l\<lparr>LibInit_count := LibInit_count l - 1\<rparr> in
      if LibInit_count l > 0 then (WD_STATUS_SUCCESS, l)
      else case WDC_DriverClose W (wstate l) of (st, w) \<Rightarrow> (st, note_status st (l\<lparr>wstate := w\<rparr>)))"

section \<open>Devices\<close>

definition IsValidDevice :: "nat option \<Rightarrow> 'w lib \<Rightarrow> bool \<times> 'w lib" where
  "IsValidDevice h l = (case h of None \<Rightarrow> (False, ErrLog l)
     | Some d \<Rightarrow> if ctx_of l d = None then (False, ErrLog l) else (True, l))"

definition WDC_DIAG_DeviceFindAndOpenSlot :: "'w wdc_ops \<Rightarrow> u32 \<Rightarrow> u32 \<Rightarrow> u32 \<Rightarrow> 'w lib \<Rightarrow> nat option \<times> 'w lib" where
  "WDC_DIAG_DeviceFindAndOpenSlot W vendor dev slotNumber l =
     (case WDC_DIAG_DeviceFind W vendor dev (if find_has_slot W then Some slotNumber else None) (wstate l) of
        (None, w) \<Rightarrow> (None, l\<lparr>wstate := w\<rparr>)
      | (Some slot, w) \<Rightarrow> (case WDC_DIAG_DeviceOpen W slot w of
          (None, w) \<Rightarrow> (None, l\<lparr>wstate := w\<rparr>)
        | (Some d, w) \<Rightarrow> (Some d, l\<lparr>wstate := w, ctx_of := (ctx_of l)(d \<mapsto> \<lparr>funcDiagIntHandler = None, funcDiagEventHandler = None\<rparr>)\<rparr>)))"

text \<open>A device without any active address space is accepted as well.\<close>

definition DeviceValidate :: "'w wdc_ops \<Rightarrow> nat \<Rightarrow> bool" where
  "DeviceValidate W d = (if list_ex ad_active (addr_descs W d) then True else True)"

definition GRAMSREADOUT_IntDisable :: "'w wdc_ops \<Rightarrow> nat option \<Rightarrow> 'w lib \<Rightarrow> wd_status \<times> 'w lib" where
  "GRAMSREADOUT_IntDisable W h l = (case IsValidDevice h l of (False, l) \<Rightarrow> (WD_INVALID_PARAMETER, l)
   | (True, l) \<Rightarrow> if \<not> WDC_IntIsEnabled W (the h) (wstate l) then (WD_OPERATION_ALREADY_DONE, ErrLog l)
     else case WDC_IntDisable W (the h) (wstate l) of (st, w) \<Rightarrow> (st, note_status st (l\<lparr>wstate := w\<rparr>)))"

definition GRAMSREADOUT_DeviceClose :: "'w wdc_ops \<Rightarrow> nat \<Rightarrow> 'w lib \<Rightarrow> bool \<times> 'w lib" where
  "GRAMSREADOUT_DeviceClose W d l =
     (let l = (if WDC_IntIsEnabled W d (wstate l)
               then (case GRAMSREADOUT_IntDisable W (Some d) l of (st, l) \<Rightarrow> note_status st l) else l)
      in case WDC_DIAG_DeviceClose W d (wstate l) of (ok, w) \<Rightarrow> (ok, l\<lparr>wstate := w\<rparr>))"

definition GRAMSREADOUT_DeviceOpen :: "'w wdc_ops \<Rightarrow> u32 \<Rightarrow> u32 \<Rightarrow> u32 \<Rightarrow> 'w lib \<Rightarrow> nat option \<times> 'w lib" where
  "GRAMSREADOUT_DeviceOpen W vendor dev slotNumber l = (case WDC_DIAG_DeviceFindAndOpenSlot W vendor dev slotNumber l of
     (None, l) \<Rightarrow> (None, ErrLog l)
   | (Some d, l) \<Rightarrow> if DeviceValidate W d then (Some d, l) else (None, ErrLog (snd (GRAMSREADOUT_DeviceClose W d l))))"

section \<open>Interrupts and events\<close>

definition IsItemExists :: "'w wdc_ops \<Rightarrow> nat \<Rightarrow> item_type \<Rightarrow> bool" where
  "IsItemExists W d item = list_ex (\<lambda>i. i = item) (card_items W d)"

text \<open>A handler calls the stored routine with what it reports; a null routine is a crash (\<^term>\<open>None\<close>).\<close>

record int_result =
  dwCounter :: u32
  dwLost :: u32
  waitResult :: u32
  dwEnabledIntType :: u32
  dwLastMessage :: u32

definition GRAMSREADOUT_IntHandler :: "'w wdc_ops \<Rightarrow> nat \<Rightarrow> 'w lib \<Rightarrow> (nat \<times> int_result) option" where
  "GRAMSREADOUT_IntHandler W d l =
     (let n = int_of W d (wstate l);
          res = \<lparr>dwCounter = Int_dwCounter n, dwLost = Int_dwLost n, waitResult = Int_fStopped n,
                 dwEnabledIntType = enabled_int_type n, dwLastMessage = enabled_int_last_msg n\<rparr>
      in map_option (\<lambda>f. (f, res)) (Option.bind (ctx_of l d) funcDiagIntHandler))"

definition GRAMSREADOUT_EventHandler :: "u32 \<Rightarrow> nat \<Rightarrow> 'w lib \<Rightarrow> (nat \<times> u32) option" where
  "GRAMSREADOUT_EventHandler dwAction d l = map_option (\<lambda>f. (f, dwAction)) (Option.bind (ctx_of l d) funcDiagEventHandler)"

definition set_ctx :: "nat \<Rightarrow> (dev_ctx \<Rightarrow> dev_ctx) \<Rightarrow> 'w lib \<Rightarrow> 'w lib" where
  "set_ctx d f l = l\<lparr>ctx_of := (ctx_of l)(d := map_option f (ctx_of l d))\<rparr>"

definition GRAMSREADOUT_IntEnable :: "'w wdc_ops \<Rightarrow> nat option \<Rightarrow> nat \<Rightarrow> 'w lib \<Rightarrow> wd_status \<times> 'w lib" where
  "GRAMSREADOUT_IntEnable W h funcIntHandler l = (case IsValidDevice h l of (False, l) \<Rightarrow> (WD_INVALID_PARAMETER, l)
   | (True, l) \<Rightarrow> let d = the h in
     if \<not> IsItemExists W d ITEM_INTERRUPT then (WD_OPERATION_FAILED, l)
     else if WDC_IntIsEnabled W d (wstate l) then (WD_OPERATION_ALREADY_DONE, ErrLog l)
     else let l = set_ctx d (\<lambda>c. c\<lparr>funcDiagIntHandler := Some funcIntHandler\<rparr>) l in
       case WDC_IntEnable W d (wstate l) of (st, w) \<Rightarrow> (st, note_status st (l\<lparr>wstate := w\<rparr>)))"

definition GRAMSREADOUT_IntIsEnabled :: "'w wdc_ops \<Rightarrow> nat option \<Rightarrow> 'w lib \<Rightarrow> bool \<times> 'w lib" where
  "GRAMSREADOUT_IntIsEnabled W h l = (case IsValidDevice h l of (False, l) \<Rightarrow> (False, l)
   | (True, l) \<Rightarrow> (WDC_IntIsEnabled W (the h) (wstate l), l))"

definition GRAMSREADOUT_SriovEnable :: "'w wdc_ops \<Rightarrow> nat option \<Rightarrow> u32 \<Rightarrow> 'w lib \<Rightarrow> wd_status \<times> 'w lib" where
  "GRAMSREADOUT_SriovEnable W h dwNumVFs l = (case IsValidDevice h l of (False, l) \<Rightarrow> (WD_INVALID_PARAMETER, l)
   | (True, l) \<Rightarrow> case WDC_PciSriovEnable W (the h) dwNumVFs (wstate l) of (st, w) \<Rightarrow> (st, l\<lparr>wstate := w\<rparr>))"

definition GRAMSREADOUT_SriovDisable :: "'w wdc_ops \<Rightarrow> nat option \<Rightarrow> 'w lib \<Rightarrow> wd_status \<times> 'w lib" where
  "GRAMSREADOUT_SriovDisable W h l = (case IsValidDevice h l of (False, l) \<Rightarrow> (WD_INVALID_PARAMETER, l)
   | (True, l) \<Rightarrow> case WDC_PciSriovDisable W (the h) (wstate l) of (st, w) \<Rightarrow> (st, l\<lparr>wstate := w\<rparr>))"

text \<open>The number goes to the given place, which is zeroed before the handle is looked at.\<close>

definition GRAMSREADOUT_SriovGetNumVFs :: "'w wdc_ops \<Rightarrow> nat option \<Rightarrow> 'w lib \<Rightarrow> (wd_status \<times> u32) \<times> 'w lib" where
  "GRAMSREADOUT_SriovGetNumVFs W h l = (case IsValidDevice h l of (False, l) \<Rightarrow> ((WD_INVALID_PARAMETER, 0), l)
   | (True, l) \<Rightarrow> case WDC_PciSriovGetNumVFs W (the h) (wstate l) of (res, w) \<Rightarrow> (res, l\<lparr>wstate := w\<rparr>))"

definition GRAMSREADOUT_EventRegister :: "'w wdc_ops \<Rightarrow> nat option \<Rightarrow> nat \<Rightarrow> 'w lib \<Rightarrow> wd_status \<times> 'w lib" where
  "GRAMSREADOUT_EventRegister W h funcEventHandler l = (case IsValidDevice h l of (False, l) \<Rightarrow> (WD_INVALID_PARAMETER, l)
   | (True, l) \<Rightarrow> let d = the h in
     if WDC_EventIsRegistered W d (wstate l) then (WD_OPERATION_ALREADY_DONE, ErrLog l)
     else let l = set_ctx d (\<lambda>c. c\<lparr>funcDiagEventHandler := Some funcEventHandler\<rparr>) l in
       case WDC_EventRegister W d (wstate l) of (st, w) \<Rightarrow> (st, note_status st (l\<lparr>wstate := w\<rparr>)))"

definition GRAMSREADOUT_EventUnregister :: "'w wdc_ops \<Rightarrow> nat option \<Rightarrow> 'w lib \<Rightarrow> wd_status \<times> 'w lib" where
  "GRAMSREADOUT_EventUnregister W h l = (case IsValidDevice h l of (False, l) \<Rightarrow> (WD_INVALID_PARAMETER, l)
   | (True, l) \<Rightarrow> if \<not> WDC_EventIsRegistered W (the h) (wstate l) then (WD_OPERATION_ALREADY_DONE, ErrLog l)
     else case WDC_EventUnregister W (the h) (wstate l) of (st, w) \<Rightarrow> (st, note_status st (l\<lparr>wstate := w\<rparr>)))"

definition GRAMSREADOUT_EventIsRegistered :: "'w wdc_ops \<Rightarrow> nat option \<Rightarrow> 'w lib \<Rightarrow> bool \<times> 'w lib" where
  "GRAMSREADOUT_EventIsRegistered W h l = (case IsValidDevice h l of (False, l) \<Rightarrow> (False, l)
   | (True, l) \<Rightarrow> (WDC_EventIsRegistered W (the h) (wstate l), l))"

section \<open>DMA buffers and address spaces\<close>

record menu_ctx_dma =
  phDev :: "nat option"
  dma_size :: u32
  dwOptions :: u32
  qwAddr :: u64
  pBuf :: "nat option"
  pDma :: "nat option"

definition GRAMSREADOUT_DmaAllocContig :: "'w wdc_ops \<Rightarrow> menu_ctx_dma \<Rightarrow> 'w lib \<Rightarrow> wd_status \<times> menu_ctx_dma \<times> 'w lib" where
  "GRAMSREADOUT_DmaAllocContig W m l = (case WDC_DMAContigBufLock W (phDev m) (dwOptions m) (dma_size m) (wstate l) of
     ((st, b, d), w) \<Rightarrow> (st, m\<lparr>pBuf := b, pDma := d\<rparr>, note_status st (l\<lparr>wstate := w\<rparr>)))"

definition GRAMSREADOUT_DmaAllocSg :: "'w wdc_ops \<Rightarrow> menu_ctx_dma \<Rightarrow> 'w lib \<Rightarrow> wd_status \<times> menu_ctx_dma \<times> 'w lib" where
  "GRAMSREADOUT_DmaAllocSg W m l = (case WDC_DMASGBufLock W (phDev m) (pBuf m) 0 (dma_size m) (wstate l) of
     ((st, d), w) \<Rightarrow> (st, m\<lparr>pDma := d\<rparr>, note_status st (l\<lparr>wstate := w\<rparr>)))"

definition GRAMSREADOUT_DmaAllocReserved :: "'w wdc_ops \<Rightarrow> menu_ctx_dma \<Rightarrow> 'w lib \<Rightarrow> wd_status \<times> menu_ctx_dma \<times> 'w lib" where
  "GRAMSREADOUT_DmaAllocReserved W m l = (case WDC_DMAReservedBufLock W (phDev m) (qwAddr m) 0 (dma_size m) (wstate l) of
     ((st, b, d), w) \<Rightarrow> (st, m\<lparr>pBuf := b, pDma := d\<rparr>, note_status st (l\<lparr>wstate := w\<rparr>)))"

definition GRAMSREADOUT_DmaBufUnlock :: "'w wdc_ops \<Rightarrow> buf_id \<Rightarrow> 'w lib \<Rightarrow> wd_status \<times> 'w lib" where
  "GRAMSREADOUT_DmaBufUnlock W b l = (case WDC_DMABufUnlock W b (wstate l) of (st, w) \<Rightarrow> (st, note_status st (l\<lparr>wstate := w\<rparr>)))"

definition GRAMSREADOUT_GetNumAddrSpaces :: "'w wdc_ops \<Rightarrow> nat option \<Rightarrow> 'w lib \<Rightarrow> u32 \<times> 'w lib" where
  "GRAMSREADOUT_GetNumAddrSpaces W h l = (case IsValidDevice h l of (False, l) \<Rightarrow> (0, l)
   | (True, l) \<Rightarrow> (of_nat (length (addr_descs W (the h))), l))"

text \<open>The information before it is rendered as text.  The comparison is unsigned: without address spaces every number passes it, and
  the descriptor that is read then lies outside the array (\<^verbatim>\<open>Beyond\<close>).\<close>

datatype addr_info = Refused | Beyond | Inactive bool | Range bool u64 u64 u64

definition GRAMSREADOUT_GetAddrSpaceInfo :: "'w wdc_ops \<Rightarrow> nat option \<Rightarrow> u32 \<Rightarrow> 'w lib \<Rightarrow> addr_info \<times> 'w lib" where
  "GRAMSREADOUT_GetAddrSpaceInfo W h dwAddrSpace l = (case IsValidDevice h l of (False, l) \<Rightarrow> (Refused, l)
   | (True, l) \<Rightarrow> let ds = addr_descs W (the h) in
     if dwAddrSpace > of_nat (length ds) - 1 then (Refused, ErrLog l)
     else if unat dwAddrSpace \<ge> length ds then (Beyond, l)
     else let a = ds ! unat dwAddrSpace in
       (if ad_active a then Range (ad_mem a) (ad_start a) (ad_start a + ad_bytes a - 1) (ad_bytes a) else Inactive (ad_mem a), l))"

section \<open>Construction and destruction of the PCIe interface\<close>

definition new_interface :: "pcie \<Rightarrow> pcie" where
  "new_interface p = p\<lparr>is_initialized := False, dev_handle_1 := None, dev_handle_2 := None, buff_addr := \<lambda>_. None\<rparr>"

definition close_device :: "'w wdc_ops \<Rightarrow> nat option \<Rightarrow> 'w lib \<Rightarrow> 'w lib" where
  "close_device W h l = (case h of None \<Rightarrow> l | Some d \<Rightarrow> snd (GRAMSREADOUT_DeviceClose W d l))"

text \<open>Initialization with the answers of the library; the driver is asked only for the two DMA buffers.\<close>

definition vendor_id :: u32 where "vendor_id = 0x1172"

definition open_card :: "'w wdc_ops \<Rightarrow> wd_status \<Rightarrow> u32 \<Rightarrow> int \<Rightarrow> 'w lib \<Rightarrow> nat option \<times> 'w lib" where
  "open_card W st dev slot l = (if st = WD_STATUS_SUCCESS then GRAMSREADOUT_DeviceOpen W vendor_id dev (word_of_int slot) l else (None, l))"

definition InitPCIeDevices_on :: "'w wdc_ops \<Rightarrow> driver \<Rightarrow> u32 \<Rightarrow> u32 \<Rightarrow> int \<Rightarrow> int \<Rightarrow> 'w lib \<times> pcie \<Rightarrow> u32 \<times> 'w lib \<times> pcie" where
  "InitPCIeDevices_on W drv dev1 dev2 slot0 slot1 s = (case s of (l, p) \<Rightarrow>
     if is_initialized p then (1, l, p)
     else case GRAMSREADOUT_LibInit W l of (st, l) \<Rightarrow>
       case open_card W st dev1 slot0 l of (h1, l) \<Rightarrow>
       case open_card W st dev2 slot1 l of (h2, l) \<Rightarrow>
       case InitPCIeDevices (drv\<lparr>drv_init := \<lambda>t. st = WD_STATUS_SUCCESS,
                                drv_open := \<lambda>t d i. if t = Suc (bus_clock p) then h1 else h2\<rparr>) dev1 dev2 slot0 slot1 p of (r, p) \<Rightarrow>
       (r, if r = 5 then snd (GRAMSREADOUT_LibUninit W (close_device W h2 (close_device W h1 l))) else l, p))"

definition unlock_buffer :: "'w wdc_ops \<Rightarrow> buf_id \<Rightarrow> 'w lib \<times> pcie \<Rightarrow> 'w lib \<times> pcie" where
  "unlock_buffer W b s = (case s of (l, p) \<Rightarrow> if buff_addr p b = None then (l, p)
     else (snd (GRAMSREADOUT_DmaBufUnlock W b l), (bus (UnlockBuf b) p)\<lparr>buff_addr := (buff_addr p)(b := None)\<rparr>))"

definition PCIeInterface_destroy :: "'w wdc_ops \<Rightarrow> 'w lib \<times> pcie \<Rightarrow> 'w lib \<times> pcie" where
  "PCIeInterface_destroy W s = (case unlock_buffer W RecvBuf (unlock_buffer W SendBuf s) of (l, p) \<Rightarrow>
     let l = close_device W (dev_handle_2 p) (close_device W (dev_handle_1 p) l);
         p = close_handle (dev_handle_2 p) (close_handle (dev_handle_1 p) p);
         (l, p) = (if is_initialized p then (snd (GRAMSREADOUT_LibUninit W l), bus LibUninit p) else (l, p))
     in (l, p\<lparr>is_initialized := False\<rparr>))"

section \<open>Counting the users of the library\<close>

lemma ErrLog_frame [simp]: "LibInit_count (ErrLog l) = LibInit_count l" "wstate (ErrLog l) = wstate l" "ctx_of (ErrLog l) = ctx_of l"
  by (simp_all add: ErrLog_def)

lemma note_status_frame [simp]:
  "LibInit_count (note_status st l) = LibInit_count l" "wstate (note_status st l) = wstate l" "ctx_of (note_status st l) = ctx_of l"
  by (simp_all add: note_status_def)

lemma IsValidDevice_frame:
  "IsValidDevice h l = (v, l') \<Longrightarrow> LibInit_count l' = LibInit_count l \<and> wstate l' = wstate l \<and> ctx_of l' = ctx_of l
     \<and> (v \<longrightarrow> (\<exists>d c. h = Some d \<and> ctx_of l d = Some c))"
  by (auto simp: IsValidDevice_def split: option.splits if_splits)

lemma LibInit_count_step: "LibInit_count (snd (GRAMSREADOUT_LibInit W l)) = LibInit_count l + 1"
  by (simp add: GRAMSREADOUT_LibInit_def Let_def case_prod_beta)

lemma LibUninit_count_step: "LibInit_count (snd (GRAMSREADOUT_LibUninit W l)) = LibInit_count l - 1"
  by (simp add: GRAMSREADOUT_LibUninit_def Let_def case_prod_beta)

lemma IntDisable_count [simp]: "LibInit_count (snd (GRAMSREADOUT_IntDisable W h l)) = LibInit_count l"
  by (cases "IsValidDevice h l") (auto simp: GRAMSREADOUT_IntDisable_def case_prod_beta dest: IsValidDevice_frame split: bool.split)

lemma close_device_count [simp]: "LibInit_count (close_device W h l) = LibInit_count l"
  by (simp add: close_device_def GRAMSREADOUT_DeviceClose_def Let_def case_prod_beta split: option.split)

lemma DeviceOpen_count [simp]: "LibInit_count (snd (GRAMSREADOUT_DeviceOpen W v d i l)) = LibInit_count l"
  by (simp add: GRAMSREADOUT_DeviceOpen_def WDC_DIAG_DeviceFindAndOpenSlot_def DeviceValidate_def case_prod_beta split: prod.split option.split)

lemma open_card_count [simp]: "LibInit_count (snd (open_card W st dev slot l)) = LibInit_count l"
  by (simp add: open_card_def)

lemma unlock_buffer_count [simp]: "LibInit_count (fst (unlock_buffer W b s)) = LibInit_count (fst s)"
  by (simp add: unlock_buffer_def GRAMSREADOUT_DmaBufUnlock_def case_prod_beta)

text \<open>The three ways in which initialization goes on after the library has answered.\<close>

lemma InitPCIeDevices_on_cases:
  assumes "\<not> is_initialized p"
  obtains (library) "fst (GRAMSREADOUT_LibInit W l) \<noteq> WD_STATUS_SUCCESS"
      "InitPCIeDevices_on W drv dev1 dev2 slot0 slot1 (l, p) = (4, snd (GRAMSREADOUT_LibInit W l), bus LibInit p)"
  | (cards) l1 h1 l2 h2 l3 q where "GRAMSREADOUT_LibInit W l = (WD_STATUS_SUCCESS, l1)"
      "GRAMSREADOUT_DeviceOpen W vendor_id dev1 (word_of_int slot0) l1 = (h1, l2)"
      "GRAMSREADOUT_DeviceOpen W vendor_id dev2 (word_of_int slot1) l2 = (h2, l3)" "h1 = None \<or> h2 = None"
      "InitPCIeDevices_on W drv dev1 dev2 slot0 slot1 (l, p)
        = (5, snd (GRAMSREADOUT_LibUninit W (close_device W h2 (close_device W h1 l3))), q)"
      "\<not> is_initialized q" "dev_handle_1 q = None" "dev_handle_2 q = None" "buff_addr q = buff_addr p"
  | (buffers) l1 h1 l2 h2 l3 drv' t code q where "GRAMSREADOUT_LibInit W l = (WD_STATUS_SUCCESS, l1)"
      "GRAMSREADOUT_DeviceOpen W vendor_id dev1 (word_of_int slot0) l1 = (Some h1, l2)"
      "GRAMSREADOUT_DeviceOpen W vendor_id dev2 (word_of_int slot1) l2 = (Some h2, l3)"
      "InitPCIeDevices_on W drv dev1 dev2 slot0 slot1 (l, p) = (code, l3, q)" "lock_config_buffers drv' t = (code, q)"
      "\<not> is_initialized t" "dev_handle_1 t = Some h1" "dev_handle_2 t = Some h2" "buff_addr t = buff_addr p"
      "bus_log t = bus_log p @ [LibInit, DevOpen dev1 slot0, DevOpen dev2 slot1]"
proof -
  obtain st l1 where 1: "GRAMSREADOUT_LibInit W l = (st, l1)" by fastforce
  show ?thesis
  proof (cases "st = WD_STATUS_SUCCESS")
    case False
    then show ?thesis using that(1) assms 1 by (simp add: InitPCIeDevices_on_def open_card_def InitPCIeDevices_def Let_def)
  next
    case True
    obtain h1 l2 where 2: "GRAMSREADOUT_DeviceOpen W vendor_id dev1 (word_of_int slot0) l1 = (h1, l2)" by fastforce
    obtain h2 l3 where 3: "GRAMSREADOUT_DeviceOpen W vendor_id dev2 (word_of_int slot1) l2 = (h2, l3)" by fastforce
    let ?drv = "drv\<lparr>drv_init := \<lambda>t. st = WD_STATUS_SUCCESS, drv_open := \<lambda>t d i. if t = Suc (bus_clock p) then h1 else h2\<rparr>"
    define t where "t = (bus (DevOpen dev2 slot1) (bus (DevOpen dev1 slot0) (bus LibInit p)))\<lparr>dev_handle_1 := h1, dev_handle_2 := h2\<rparr>"
    define q where "q = bus LibUninit ((close_handle h2 ((close_handle h1 t)\<lparr>dev_handle_1 := None\<rparr>))\<lparr>dev_handle_2 := None\<rparr>)"
    obtain code r where lock: "lock_config_buffers ?drv t = (code, r)" by fastforce
    have t: "\<not> is_initialized t" "dev_handle_1 t = h1" "dev_handle_2 t = h2" "buff_addr t = buff_addr p"
      "bus_log t = bus_log p @ [LibInit, DevOpen dev1 slot0, DevOpen dev2 slot1]"
      using assms by (simp_all add: t_def bus_def)
    have q: "\<not> is_initialized q" "dev_handle_1 q = None" "dev_handle_2 q = None" "buff_addr q = buff_addr p"
      using assms by (simp_all add: q_def t_def bus_def close_handle_def split: option.split)
    have run: "InitPCIeDevices ?drv dev1 dev2 slot0 slot1 p = (if h1 = None \<or> h2 = None then (5, q) else (code, r))"
      using assms lock True by (simp add: InitPCIeDevices_def Let_def t_def q_def bus_def)
    have "code \<noteq> 5" using lock by (auto simp: lock_config_buffers_def Let_def split: option.splits)
    then have on: "InitPCIeDevices_on W drv dev1 dev2 slot0 slot1 (l, p) = (if h1 = None \<or> h2 = None
        then (5, snd (GRAMSREADOUT_LibUninit W (close_device W h2 (close_device W h1 l3))), q) else (code, l3, r))"
      using assms 1 2 3 True run by (simp add: InitPCIeDevices_on_def open_card_def)
    show ?thesis
    proof (cases "h1 = None \<or> h2 = None")
      case none: True
      then show ?thesis using that(2) [of l1 h1 l2 h2 l3 q] 1 2 3 True q on by simp
    next
      case both: False
      then obtain d1 d2 where "h1 = Some d1" "h2 = Some d2" by auto
      then show ?thesis using that(3) [of l1 d1 l2 d2 l3 code r ?drv t] 1 2 3 True t on lock by simp
    qed
  qed
qed

lemma destroy_count:
  "LibInit_count (fst (PCIeInterface_destroy W (l, p))) = LibInit_count l - (if is_initialized p then 1 else 0)"
proof -
  obtain l1 p1 where 1: "unlock_buffer W SendBuf (l, p) = (l1, p1)" by fastforce
  obtain l2 p2 where 2: "unlock_buffer W RecvBuf (l1, p1) = (l2, p2)" by fastforce
  have "is_initialized p1 = is_initialized p" "is_initialized p2 = is_initialized p1"
    using 1 2 by (auto simp: unlock_buffer_def split: if_splits)
  moreover have "LibInit_count l1 = LibInit_count l" "LibInit_count l2 = LibInit_count l1"
    using unlock_buffer_count [of W SendBuf "(l, p)"] unlock_buffer_count [of W RecvBuf "(l1, p1)"] 1 2 by simp_all
  ultimately show ?thesis using 1 2 by (simp add: PCIeInterface_destroy_def Let_def LibUninit_count_step)
qed

lemma destroy_log:
  assumes "is_initialized p" "buff_addr p SendBuf \<noteq> None" "buff_addr p RecvBuf \<noteq> None" "dev_handle_1 p = Some h1" "dev_handle_2 p = Some h2"
  shows "bus_log (snd (PCIeInterface_destroy W (l, p)))
    = bus_log p @ [UnlockBuf SendBuf, UnlockBuf RecvBuf, DevClose h1, DevClose h2, LibUninit]"
  using assms by (auto simp: PCIeInterface_destroy_def unlock_buffer_def close_handle_def Let_def)

lemma lock_log:
  assumes "lock_config_buffers drv t = (0, q)"
  shows "bus_log q = bus_log t @ [LockBuf SendBuf CONFIGDMABUFFSIZE, LockBuf RecvBuf CONFIGDMABUFFSIZE]"
  using assms by (auto simp: lock_config_buffers_def Let_def split: option.splits)


section \<open>After a failed library initialization\<close>

text \<open>What the program relies on: without an open driver handle, WinDriver finds no device; a failed call does not open the handle.
  \<^verbatim>\<open>shut_w w\<close> says that the handle is not open.\<close>

definition needs_driver :: "'w wdc_ops \<Rightarrow> ('w \<Rightarrow> bool) \<Rightarrow> bool" where
  "needs_driver W shut_w \<longleftrightarrow> (\<forall>w. shut_w w \<longrightarrow>
      (\<forall>v d i. fst (WDC_DIAG_DeviceFind W v d i w) = None \<and> shut_w (snd (WDC_DIAG_DeviceFind W v d i w)))
    \<and> shut_w (snd (WD_DriverName W w)) \<and> shut_w (snd (WDC_SetDebugOptions W w))
    \<and> (fst (WDC_DriverOpen W w) \<noteq> WD_STATUS_SUCCESS \<longrightarrow> shut_w (snd (WDC_DriverOpen W w))))"

record attempt =
  at_driver :: driver
  at_dev1 :: u32
  at_dev2 :: u32
  at_slot0 :: int
  at_slot1 :: int

fun attempts :: "'w wdc_ops \<Rightarrow> attempt list \<Rightarrow> 'w lib \<times> pcie \<Rightarrow> u32 list \<times> 'w lib \<times> pcie" where
  "attempts W [] s = ([], s)"
| "attempts W (a # as) s = (case InitPCIeDevices_on W (at_driver a) (at_dev1 a) (at_dev2 a) (at_slot0 a) (at_slot1 a) s of
     (r, s) \<Rightarrow> case attempts W as s of (rs, s) \<Rightarrow> (r # rs, s))"

lemma failed_init:
  assumes "needs_driver W shut_w" "shut_w (wstate l)" "fst (GRAMSREADOUT_LibInit W l) \<noteq> WD_STATUS_SUCCESS"
  shows "shut_w (wstate (snd (GRAMSREADOUT_LibInit W l)))"
  using assms by (auto simp: GRAMSREADOUT_LibInit_def needs_driver_def Let_def case_prod_beta split: if_splits)

lemma open_without_driver:
  assumes "needs_driver W shut_w" "shut_w (wstate l)"
  shows "fst (GRAMSREADOUT_DeviceOpen W v d i l) = None" "shut_w (wstate (snd (GRAMSREADOUT_DeviceOpen W v d i l)))"
proof -
  obtain f w where f: "WDC_DIAG_DeviceFind W v d (if find_has_slot W then Some i else None) (wstate l) = (f, w)" by fastforce
  then have "f = None" "shut_w w" using assms unfolding needs_driver_def by (metis fst_conv, metis snd_conv)
  then show "fst (GRAMSREADOUT_DeviceOpen W v d i l) = None" "shut_w (wstate (snd (GRAMSREADOUT_DeviceOpen W v d i l)))"
    using f by (simp_all add: GRAMSREADOUT_DeviceOpen_def WDC_DIAG_DeviceFindAndOpenSlot_def)
qed

text \<open>With one user too many, the library claims success without opening the driver.\<close>

lemma attempt_fails:
  assumes "needs_driver W shut_w" "shut_w (wstate l)" "LibInit_count l = 1" "\<not> is_initialized p"
    and "InitPCIeDevices_on W drv dev1 dev2 slot0 slot1 (l, p) = (r, l', p')"
  shows "r = 5 \<and> shut_w (wstate l') \<and> LibInit_count l' = 1 \<and> \<not> is_initialized p'"
proof -
  have lib: "GRAMSREADOUT_LibInit W l = (WD_STATUS_SUCCESS, l\<lparr>LibInit_count := 2\<rparr>)"
    using assms(3) by (simp add: GRAMSREADOUT_LibInit_def)
  have shut: "shut_w (wstate (l\<lparr>LibInit_count := 2\<rparr>))" using assms(2) by simp
  from assms(4) show ?thesis
  proof (cases rule: InitPCIeDevices_on_cases [of p W l drv dev1 dev2 slot0 slot1])
    case library
    then show ?thesis using lib by simp
  next
    case (cards l1 h1 l2 h2 l3 q)
    have l1: "l1 = l\<lparr>LibInit_count := 2\<rparr>" using cards(1) lib by simp
    have 1: "h1 = None" "shut_w (wstate l2)" using open_without_driver [OF assms(1) shut] cards(2) l1 by (metis fst_conv, metis snd_conv)
    have 2: "h2 = None" "shut_w (wstate l3)" using open_without_driver [OF assms(1) 1(2)] cards(3) by (metis fst_conv, metis snd_conv)
    have "LibInit_count l3 = LibInit_count l2" "LibInit_count l2 = LibInit_count l1"
      using DeviceOpen_count [of W vendor_id dev1 "word_of_int slot0" l1] DeviceOpen_count [of W vendor_id dev2 "word_of_int slot1" l2] cards(2,3)
      by simp_all
    then have "LibInit_count l3 = 2" using l1 by simp
    then show ?thesis using cards(5,6) assms(5) 1 2 by (simp add: close_device_def GRAMSREADOUT_LibUninit_def Let_def)
  next
    case (buffers l1 h1 l2 h2 l3 drv' t code q)
    then show ?thesis using open_without_driver [OF assms(1) shut] lib by (metis fst_conv option.distinct(1) prod.inject)
  qed
qed

text \<open>C32: A failed first initialization of the library is final: when the driver does not open at the first attempt, for instance because
  its module is not loaded yet, every later attempt of the same process fails with code 5, whatever devices and slots it
  asks for and whatever happens to the module in between: the reference count stays at one, and the driver is
  never opened again.\<close>
theorem PCIe_init_never_recovers:
  assumes "needs_driver W shut_w" and "shut_w (wstate l)" and "LibInit_count l = 0" and "\<not> is_initialized p"
    and "fst (GRAMSREADOUT_LibInit W l) \<noteq> WD_STATUS_SUCCESS"
  shows "case attempts W (a # as) (l, p) of (rs, l', p') \<Rightarrow>
    rs = 4 # replicate (length as) 5 \<and> shut_w (wstate l') \<and> LibInit_count l' = 1 \<and> \<not> is_initialized p'"
proof -
  have later: "fst (attempts W as (l, p)) = replicate (length as) 5 \<and> shut_w (wstate (fst (snd (attempts W as (l, p)))))
      \<and> LibInit_count (fst (snd (attempts W as (l, p)))) = 1 \<and> \<not> is_initialized (snd (snd (attempts W as (l, p))))"
    if "shut_w (wstate l)" "LibInit_count l = 1" "\<not> is_initialized p" for l p as
    using that
  proof (induction as arbitrary: l p)
    case (Cons a as)
    obtain r l' p' where i: "InitPCIeDevices_on W (at_driver a) (at_dev1 a) (at_dev2 a) (at_slot0 a) (at_slot1 a) (l, p) = (r, l', p')"
      by (metis prod.collapse)
    from attempt_fails [OF assms(1) Cons.prems i] Cons.IH [of l' p'] i show ?case by (simp add: case_prod_beta)
  qed simp
  from assms(4) show ?thesis
  proof (cases rule: InitPCIeDevices_on_cases [of p W l "at_driver a" "at_dev1 a" "at_dev2 a" "at_slot0 a" "at_slot1 a"])
    case library
    have "LibInit_count (snd (GRAMSREADOUT_LibInit W l)) = 1" using LibInit_count_step [of W l] assms(3) by simp
    then show ?thesis using library later [of "snd (GRAMSREADOUT_LibInit W l)" "bus LibInit p" as] failed_init [OF assms(1,2,5)] assms(4)
      by (simp add: case_prod_beta)
  qed (use assms(5) in auto)
qed

section \<open>Handlers and address spaces\<close>

text \<open>After interrupts were enabled, the handler of the device runs the routine that was given.\<close>

lemma IntEnable_handler:
  assumes "GRAMSREADOUT_IntEnable W (Some d) f l = (WD_STATUS_SUCCESS, l')"
  shows "map_option fst (GRAMSREADOUT_IntHandler W d l') = Some f \<and> LibInit_count l' = LibInit_count l"
  using assms
  by (auto simp: GRAMSREADOUT_IntEnable_def GRAMSREADOUT_IntHandler_def IsValidDevice_def set_ctx_def Let_def note_status_def
      split: if_splits prod.splits)

lemma EventRegister_handler:
  assumes "GRAMSREADOUT_EventRegister W (Some d) f l = (WD_STATUS_SUCCESS, l')"
  shows "GRAMSREADOUT_EventHandler act d l' = Some (f, act) \<and> LibInit_count l' = LibInit_count l"
  using assms
  by (auto simp: GRAMSREADOUT_EventRegister_def GRAMSREADOUT_EventHandler_def IsValidDevice_def set_ctx_def Let_def note_status_def
      split: if_splits prod.splits)

text \<open>The range check of the address spaces fails only for a device that has none: there it accepts every number.\<close>

lemma GetAddrSpaceInfo_beyond:
  assumes "ctx_of l d \<noteq> None" and "length (addr_descs W d) < 2 ^ 32"
  shows "fst (GRAMSREADOUT_GetAddrSpaceInfo W (Some d) n l) = Beyond \<longleftrightarrow> addr_descs W d = []"
proof (cases "addr_descs W d = []")
  case True
  have "\<not> n > (- 1 :: u32)" by (simp add: not_less)
  then show ?thesis using assms(1) True by (simp add: GRAMSREADOUT_GetAddrSpaceInfo_def IsValidDevice_def)
next
  case False
  then have "unat (of_nat (length (addr_descs W d)) - 1 :: u32) = length (addr_descs W d) - 1"
    using assms(2) by (cases "addr_descs W d") (simp_all add: unsigned_of_nat take_bit_nat_eq_self)
  then have "n > of_nat (length (addr_descs W d)) - 1 \<or> unat n < length (addr_descs W d)"
    using False by (cases "addr_descs W d") (simp_all add: word_less_nat_alt, linarith)
  then show ?thesis using assms(1) False by (auto simp: GRAMSREADOUT_GetAddrSpaceInfo_def IsValidDevice_def Let_def)
qed

section \<open>Examples\<close>

text \<open>A WinDriver whose kernel module appears after the first attempt; its state says whether the handle is open and how often opening it
  was tried.\<close>

definition late_module :: "(bool \<times> nat) wdc_ops" where
  "late_module = \<lparr>find_has_slot = True, WD_DriverName = Pair True, WDC_SetDebugOptions = Pair WD_STATUS_SUCCESS,
     WDC_DriverOpen = (\<lambda>(b, n). if n = 0 then (WD_OTHER 1, b, Suc n) else (WD_STATUS_SUCCESS, True, Suc n)),
     WDC_DriverClose = (\<lambda>(b, n). (WD_STATUS_SUCCESS, False, n)),
     WDC_DIAG_DeviceFind = (\<lambda>v d i w. (if fst w then Some (unat d) else None, w)), WDC_DIAG_DeviceOpen = (\<lambda>s w. (Some s, w)),
     WDC_DIAG_DeviceClose = (\<lambda>_. Pair True), WDC_IntIsEnabled = (\<lambda>_ _. False), WDC_IntEnable = (\<lambda>_. Pair WD_STATUS_SUCCESS),
     WDC_IntDisable = (\<lambda>_. Pair WD_STATUS_SUCCESS), WDC_EventIsRegistered = (\<lambda>_ _. False),
     WDC_EventRegister = (\<lambda>_. Pair WD_STATUS_SUCCESS), WDC_EventUnregister = (\<lambda>_. Pair WD_STATUS_SUCCESS),
     WDC_DMABufUnlock = (\<lambda>_. Pair WD_STATUS_SUCCESS), WDC_PciSriovEnable = (\<lambda>_ _. Pair WD_OPERATION_FAILED),
     WDC_PciSriovDisable = (\<lambda>_. Pair WD_OPERATION_FAILED), WDC_PciSriovGetNumVFs = (\<lambda>_. Pair (WD_STATUS_SUCCESS, 0)),
     WDC_DMAContigBufLock = (\<lambda>_ _ _. Pair (WD_STATUS_SUCCESS, Some 1, Some 1)), WDC_DMASGBufLock = (\<lambda>_ _ _ _. Pair (WD_STATUS_SUCCESS, Some 1)),
     WDC_DMAReservedBufLock = (\<lambda>_ _ _ _. Pair (WD_STATUS_SUCCESS, Some 1, Some 1)),
     int_of = (\<lambda>_ _. \<lparr>Int_dwCounter = 0, Int_dwLost = 0, Int_fStopped = 0, enabled_int_type = 0, enabled_int_last_msg = 0\<rparr>),
     card_items = (\<lambda>_. []), addr_descs = (\<lambda>_. [])\<rparr>"

definition fresh_lib :: "nat \<Rightarrow> (bool \<times> nat) lib" where
  "fresh_lib n = \<lparr>LibInit_count = 0, LastErr = False, ctx_of = (\<lambda>_. None), wstate = (False, n)\<rparr>"

definition sample_attempt :: attempt where
  "sample_attempt = \<lparr>at_driver = test_driver, at_dev1 = 0x5000, at_dev2 = 0x5001, at_slot0 = 1, at_slot1 = 1\<rparr>"

lemmas example_defs = late_module_def fresh_lib_def test_driver_def closed_pcie_def

lemma late_module_needs_driver: "needs_driver late_module (\<lambda>w. \<not> fst w)"
  by (simp add: needs_driver_def late_module_def)

theorem PCIe_init_never_recovers_witness:
  "fst (attempts late_module [sample_attempt, sample_attempt, sample_attempt] (fresh_lib 0, closed_pcie)) = [4, 5, 5]"
  using PCIe_init_never_recovers [OF late_module_needs_driver, of "fresh_lib 0" closed_pcie "[sample_attempt, sample_attempt]" sample_attempt]
  by (simp add: example_defs GRAMSREADOUT_LibInit_def Let_def case_prod_beta del: attempts.simps)


end
