(* ===== verification/Console.thy ===== *)
theory Console
  imports Tpc_Service
begin

text \<open>
  The interactive console of \<^verbatim>\<open>main.cpp\<close>: a menu on the standard input, whose choices become commands of the controller.  The
  standard input is the text that is still to come; its end is the end of the input.  Output is not modelled, nor are
  commands that arrive over the network meanwhile.
\<close>

section \<open>Input\<close>

definition line_feed :: char where "line_feed = CHR 0x0A"

text \<open>\<^verbatim>\<open>std::cin >> choice\<close> for an \<^verbatim>\<open>int\<close>: white space is skipped, a sign and decimal digits are consumed; without digits, and for
  a number that does not fit, the stream is in the failed state (\<^term>\<open>None\<close>).\<close>

definition read_sign :: "string \<Rightarrow> bool \<times> string" where
  "read_sign s = (case s of [] \<Rightarrow> (False, []) | x # xs \<Rightarrow>
     if x = CHR ''-'' then (True, xs) else if x = CHR ''+'' then (False, xs) else (False, s))"

definition read_int :: "string \<Rightarrow> int option \<times> string" where
  "read_int s = (case read_sign (dropWhile isspace s) of (neg, t) \<Rightarrow>
     let ds = takeWhile isdigit t; v = int (digits_val ds); n = (if neg then - v else v)
     in (if ds = [] \<or> n < - (2 ^ 31) \<or> n \<ge> 2 ^ 31 then None else Some n, dropWhile isdigit t))"

text \<open>\<^verbatim>\<open>std::cin.ignore\<close> up to and including the next line_feed.\<close>

fun skip_line :: "string \<Rightarrow> string" where
  "skip_line [] = []"
| "skip_line (x # xs) = (if x = line_feed then xs else skip_line xs)"

section \<open>Menu\<close>

definition menu :: "ctl_env \<Rightarrow> int \<Rightarrow> int option" where
  "menu E choice = (if choice = 0x0 then Some (uint (TPC_Reset_Run E))
     else if choice = 0x1 then Some (uint (TPC_Configure E))
     else if choice = 0x2 then Some (uint (TPC_Start_Run E))
     else if choice = 0x3 then Some (uint (TPC_Stop_Run E))
     else if choice = 39 then Some (uint (TPC_Query_Hardware_Status E))
     else if choice = - 1 then Some (- 1) else None)"

partial_function (option) GetUserInput :: "ctl_env \<Rightarrow> string \<Rightarrow> (int \<times> string) option" where
  "GetUserInput E s = (case read_int s of (x, rest) \<Rightarrow> (case x of
     None \<Rightarrow> GetUserInput E (skip_line rest)
   | Some choice \<Rightarrow> (case menu E choice of None \<Rightarrow> GetUserInput E rest | Some n \<Rightarrow> Some (n, rest))))"

definition console_command :: "int \<Rightarrow> u16 \<times> u32 list" where
  "console_command input = (word_of_int (if word_of_int input = (0 :: u16) then 0xA else input), [1])"

definition perform_command :: "ctl_env \<Rightarrow> u16 \<times> u32 list \<Rightarrow> ctl \<Rightarrow> bool result \<times> ctl" where
  "perform_command E command c = HandleCommand E command (c\<lparr>handler := tick (handler c)\<rparr>)"

text \<open>The loop of \<^verbatim>\<open>Run\<close>.  No exception is caught on the main thread: one that a command throws ends the process.\<close>

partial_function (option) console_Run :: "ctl_env \<Rightarrow> string \<Rightarrow> ctl \<Rightarrow> (unit result \<times> ctl) option" where
  "console_Run E s c = Option.bind (GetUserInput E s) (\<lambda>(input, rest).
     if input = - 1 then Some (Done (), c)
     else (case perform_command E (console_command input) c of (r, d) \<Rightarrow> (case r of
         Done _ \<Rightarrow> console_Run E rest d
       | Raise \<Rightarrow> Some (Terminate, d)
       | Terminate \<Rightarrow> Some (Terminate, d))))"

text \<open>The program: construction, menu, end of the controller.  Its value is the exit status.\<close>

definition console_main :: "ctl_env \<Rightarrow> os_view \<Rightarrow> string \<Rightarrow> ctl \<Rightarrow> (nat result \<times> ctl) option" where
  "console_main E os s parts = (case construct E os True parts of (r, c) \<Rightarrow> (case r of
     Terminate \<Rightarrow> Some (Terminate, c)
   | Raise \<Rightarrow> Some (Terminate, c)
   | Done _ \<Rightarrow> (case Init c of (ok, c) \<Rightarrow>
       if \<not> ok then Some (if Controller_destroy (SetRunning False c) = Done () then Done 1 else Terminate, SetRunning False c)
       else Option.bind (console_Run E s c) (\<lambda>(r, c). case r of
           Done _ \<Rightarrow> Some (if Controller_destroy (SetRunning False c) = Done () then Done 0 else Terminate, SetRunning False c)
         | _ \<Rightarrow> Some (Terminate, c)))))"

section \<open>Lines\<close>

text \<open>A line that holds no number is refused as a whole.\<close>

definition junk :: "string \<Rightarrow> bool" where
  "junk l \<longleftrightarrow> line_feed \<notin> set l \<and> (case dropWhile isspace l of [] \<Rightarrow> False
     | x # _ \<Rightarrow> \<not> isdigit x \<and> x \<noteq> CHR ''-'' \<and> x \<noteq> CHR ''+'')"

lemma skip_line_append: "line_feed \<notin> set l \<Longrightarrow> skip_line (l @ line_feed # rest) = rest"
  by (induction l) auto

lemma GetUserInput_junk:
  assumes "junk l"
  shows "GetUserInput E (l @ line_feed # rest) = GetUserInput E rest"
proof -
  from assms obtain x xs where x: "dropWhile isspace l = x # xs" "\<not> isdigit x" "x \<noteq> CHR ''-''" "x \<noteq> CHR ''+''"
    by (auto simp: junk_def split: list.splits)
  then have "\<exists>y \<in> set l. \<not> isspace y" by (metis dropWhile_eq_Nil_conv list.discI)
  then have "dropWhile isspace (l @ line_feed # rest) = x # xs @ line_feed # rest" using x(1) by (metis dropWhile_append1 append_Cons)
  then have "read_int (l @ line_feed # rest) = (None, x # xs @ line_feed # rest)" using x by (simp add: read_int_def read_sign_def)
  moreover have "line_feed \<notin> set (x # xs)" using assms x(1) by (metis junk_def set_dropWhileD)
  then have "skip_line (x # xs @ line_feed # rest) = rest" using skip_line_append [of "x # xs" rest] by simp
  ultimately show ?thesis by (simp add: GetUserInput.simps [of E "l @ line_feed # rest"])
qed

text \<open>Numbers that are not in the menu are refused too; the rest of their line is read again.\<close>

lemma GetUserInput_number:
  assumes "read_int s = (Some k, rest)"
  shows "GetUserInput E s = (case menu E k of None \<Rightarrow> GetUserInput E rest | Some n \<Rightarrow> Some (n, rest))"
  using assms by (simp add: GetUserInput.simps [of E s])

lemma GetUserInput_line_feed: "GetUserInput E (line_feed # rest) = GetUserInput E rest"
proof -
  have "read_int (line_feed # rest) = read_int rest" by (simp add: read_int_def line_feed_def isspace_def)
  then show ?thesis by (simp add: GetUserInput.simps [of E "line_feed # rest"] GetUserInput.simps [of E rest])
qed

text \<open>A non-negative number on a line of its own is read as that number.\<close>

lemma read_int_to_string:
  assumes "n < 2 ^ 31"
  shows "read_int (to_string n @ line_feed # rest) = (Some (int n), line_feed # rest)"
proof -
  have ds: "\<forall>x \<in> set (to_string n). isdigit x" using to_string_digits [of n] by (simp add: list_all_iff)
  have nl: "\<not> isdigit line_feed" by (simp add: line_feed_def isdigit_def)
  obtain x xs where x: "to_string n = x # xs" by (cases "to_string n") auto
  then have "\<not> isspace x" "x \<noteq> CHR ''-''" "x \<noteq> CHR ''+''" using ds digit_not_special by simp_all
  then have "read_sign (dropWhile isspace (to_string n @ line_feed # rest)) = (False, to_string n @ line_feed # rest)"
    using x by (simp add: read_sign_def)
  moreover have "takeWhile isdigit (to_string n @ line_feed # rest) = to_string n" "dropWhile isdigit (to_string n @ line_feed # rest) = line_feed # rest"
    using ds nl by (simp_all add: takeWhile_append dropWhile_append)
  moreover have "to_string n \<noteq> []" using x by simp
  ultimately show ?thesis using assms by (simp add: read_int_def digits_val_to_string Let_def)
qed

section \<open>A session\<close>

datatype entry = Choice nat | Junk string

fun well_typed :: "entry \<Rightarrow> bool" where
  "well_typed (Choice n) = (n < 2 ^ 31)"
| "well_typed (Junk l) = junk l"

fun line_of :: "entry \<Rightarrow> string" where
  "line_of (Choice n) = to_string n"
| "line_of (Junk l) = l"

definition typed :: "entry list \<Rightarrow> string" where
  "typed es = concat (map (\<lambda>e. line_of e @ [line_feed]) es)"

fun chosen :: "ctl_env \<Rightarrow> entry list \<Rightarrow> int list" where
  "chosen E [] = []"
| "chosen E (Junk l # es) = chosen E es"
| "chosen E (Choice n # es) = (case menu E (int n) of None \<Rightarrow> chosen E es | Some k \<Rightarrow> k # chosen E es)"

text \<open>The commands of a session, one after the other.\<close>

fun execute :: "ctl_env \<Rightarrow> int list \<Rightarrow> ctl \<Rightarrow> unit result \<times> ctl" where
  "execute E [] c = (Done (), c)"
| "execute E (k # ks) c = (case perform_command E (console_command k) c of
     (Done _, d) \<Rightarrow> execute E ks d | (Raise, d) \<Rightarrow> (Terminate, d) | (Terminate, d) \<Rightarrow> (Terminate, d))"

lemma console_Run_cong: "GetUserInput E s = GetUserInput E t \<Longrightarrow> console_Run E s c = console_Run E t c"
  by (simp add: console_Run.simps [of E s] console_Run.simps [of E t])

lemma console_Run_command:
  assumes "GetUserInput E s = Some (k, t)" and "k \<noteq> - 1" and "\<And>d. console_Run E t d = Some (execute E ks d)"
  shows "console_Run E s c = Some (execute E (k # ks) c)"
  using assms by (simp add: console_Run.simps [of E s] split: prod.split result.split)

lemma menu_nonneg: "menu E (int n) = Some k \<Longrightarrow> k \<noteq> - 1"
proof -
  have "uint w \<noteq> - 1" for w :: u16 using uint_ge_0 [of w] by linarith
  then show "menu E (int n) = Some k \<Longrightarrow> k \<noteq> - 1" by (auto simp: menu_def split: if_splits)
qed

lemma GetUserInput_exit: "GetUserInput E (''-1'' @ rest) = Some (- 1, dropWhile isdigit rest) \<or> (\<exists>x xs. rest = x # xs \<and> isdigit x)"
proof (cases "takeWhile isdigit rest = []")
  case True
  then have "read_int (''-1'' @ rest) = (Some (- 1), dropWhile isdigit rest)"
    by (simp add: read_int_def read_sign_def isspace_def isdigit_def digits_val_def digit_val_def)
  then show ?thesis using GetUserInput_number by (simp add: menu_def)
qed (cases rest, auto split: if_splits)

lemma console_Run_session:
  assumes "list_all well_typed es"
  shows "console_Run E (typed es @ ''-1'' @ line_feed # rest) c = Some (execute E (chosen E es) c)"
  using assms
proof (induction es arbitrary: c)
  case Nil
  have "GetUserInput E (''-1'' @ line_feed # rest) = Some (- 1, line_feed # rest)"
    using GetUserInput_exit [of E "line_feed # rest"] by (simp add: line_feed_def isdigit_def)
  then show ?case by (simp add: typed_def console_Run.simps)
next
  case (Cons e es)
  let ?t = "typed es @ ''-1'' @ line_feed # rest"
  have s: "typed (e # es) @ ''-1'' @ line_feed # rest = line_of e @ line_feed # ?t" by (simp add: typed_def)
  have nl: "console_Run E (line_feed # ?t) c = console_Run E ?t c" for c by (rule console_Run_cong) (rule GetUserInput_line_feed)
  show ?case
  proof (cases e)
    case (Junk l)
    then have "console_Run E (line_of e @ line_feed # ?t) c = console_Run E ?t c"
      using Cons.prems by (intro console_Run_cong) (simp add: GetUserInput_junk)
    then show ?thesis using Cons Junk s by simp
  next
    case (Choice n)
    then have i: "GetUserInput E (line_of e @ line_feed # ?t) = (case menu E (int n) of None \<Rightarrow> GetUserInput E (line_feed # ?t) | Some k \<Rightarrow> Some (k, line_feed # ?t))"
      using GetUserInput_number [OF read_int_to_string [of n ?t], of E] Cons.prems by (simp only: line_of.simps list.pred_inject well_typed.simps)
    show ?thesis
    proof (cases "menu E (int n)")
      case None
      then have "console_Run E (line_of e @ line_feed # ?t) c = console_Run E ?t c"
        using i nl [of c] console_Run_cong [of E "line_of e @ line_feed # ?t" "line_feed # ?t"] by simp
      then show ?thesis using Cons Choice None s by simp
    next
      case (Some k)
      then have "GetUserInput E (line_of e @ line_feed # ?t) = Some (k, line_feed # ?t)" using i by simp
      from console_Run_command [OF this menu_nonneg [OF Some], of "chosen E es"] show ?thesis using Cons Choice Some s nl by simp
    qed
  qed
qed


section \<open>The end of the input\<close>

text \<open>What is left is always a suffix of the input; and without a minus sign the answer is not the exit.\<close>

lemma read_int_rest: "read_int s = (x, rest) \<Longrightarrow> suffix rest s"
proof -
  have "suffix (snd (read_sign u)) u" for u by (simp add: read_sign_def suffix_ConsI split: list.split)
  then have "suffix (dropWhile isdigit (snd (read_sign (dropWhile isspace s)))) s"
    by (meson suffix_dropWhile suffix_order.order_trans)
  then show "read_int s = (x, rest) \<Longrightarrow> suffix rest s" by (auto simp: read_int_def Let_def case_prod_beta)
qed

lemma skip_line_rest: "suffix (skip_line s) s"
  by (induction s) (auto intro: suffix_ConsI)

lemma read_int_no_sign:
  assumes "read_int s = (Some k, rest)" and "CHR ''-'' \<notin> set s"
  shows "0 \<le> k"
proof -
  have "CHR ''-'' \<notin> set (dropWhile isspace s)" using assms(2) by (meson set_dropWhileD)
  then have "\<not> fst (read_sign (dropWhile isspace s))" by (auto simp: read_sign_def split: list.splits)
  then show ?thesis using assms(1) by (auto simp: read_int_def Let_def case_prod_beta split: if_splits)
qed

lemma menu_exit: "menu E k = Some n \<Longrightarrow> 0 \<le> k \<Longrightarrow> n \<noteq> - 1"
  using menu_nonneg [of E "nat k" n] by simp

text \<open>At the end of the input there is no answer: the read fails again and again.\<close>

lemma GetUserInput_answer:
  assumes "GetUserInput E s = Some y"
  shows "s \<noteq> [] \<and> suffix (snd y) s \<and> (CHR ''-'' \<notin> set s \<longrightarrow> fst y \<noteq> - 1)"
proof (rule GetUserInput.raw_induct [where P = "\<lambda>E s y. s \<noteq> [] \<and> suffix (snd y) s \<and> (CHR ''-'' \<notin> set s \<longrightarrow> fst y \<noteq> - 1)", OF _ assms])
  fix f E s and y :: "int \<times> string"
  assume IH: "\<And>E s y. f E s = Some y \<Longrightarrow> s \<noteq> [] \<and> suffix (snd y) s \<and> (CHR ''-'' \<notin> set s \<longrightarrow> fst y \<noteq> - 1)"
    and eq: "(case read_int s of (x, rest) \<Rightarrow> (case x of None \<Rightarrow> f E (skip_line rest)
      | Some choice \<Rightarrow> (case menu E choice of None \<Rightarrow> f E rest | Some n \<Rightarrow> Some (n, rest)))) = Some y"
  obtain x rest where r: "read_int s = (x, rest)" by fastforce
  note rest = read_int_rest [OF r]
  have again: "s \<noteq> [] \<and> suffix (snd y) s \<and> (CHR ''-'' \<notin> set s \<longrightarrow> fst y \<noteq> - 1)" if "f E t = Some y" "suffix t s" for t
    using IH [OF that(1)] that(2) by (auto dest: set_mono_suffix suffix_order.order_trans)
  show "s \<noteq> [] \<and> suffix (snd y) s \<and> (CHR ''-'' \<notin> set s \<longrightarrow> fst y \<noteq> - 1)"
  proof (cases x)
    case None
    then show ?thesis using eq r again [of "skip_line rest"] skip_line_rest rest suffix_order.order_trans by auto
  next
    case (Some k)
    have "s \<noteq> []" using r Some by (auto simp: read_int_def read_sign_def)
    moreover have "CHR ''-'' \<notin> set s \<Longrightarrow> 0 \<le> k" using r Some read_int_no_sign by simp
    ultimately show ?thesis using eq r Some again [OF _ rest] rest menu_exit by (cases "menu E k") auto
  qed
qed

lemma console_Run_no_exit:
  assumes "console_Run E s c = Some y" and "CHR ''-'' \<notin> set s"
  shows "fst y = Terminate"
proof -
  have "CHR ''-'' \<notin> set s \<longrightarrow> fst y = Terminate"
  proof (rule console_Run.raw_induct [where P = "\<lambda>E s c y. CHR ''-'' \<notin> set s \<longrightarrow> fst y = Terminate", OF _ assms(1)])
    fix f E s c and y :: "unit result \<times> ctl"
    assume IH: "\<And>E s c y. f E s c = Some y \<Longrightarrow> CHR ''-'' \<notin> set s \<longrightarrow> fst y = Terminate"
      and eq: "Option.bind (GetUserInput E s) (\<lambda>(input, rest). if input = - 1 then Some (Done (), c)
        else (case perform_command E (console_command input) c of (r, d) \<Rightarrow> (case r of
            Done _ \<Rightarrow> f E rest d | Raise \<Rightarrow> Some (Terminate, d) | Terminate \<Rightarrow> Some (Terminate, d)))) = Some y"
    obtain k rest where g: "GetUserInput E s = Some (k, rest)" using eq by (cases "GetUserInput E s") auto
    obtain r d where p: "perform_command E (console_command k) c = (r, d)" by fastforce
    have again: "CHR ''-'' \<notin> set s \<Longrightarrow> f E rest d = Some y \<Longrightarrow> fst y = Terminate"
      using GetUserInput_answer [OF g] IH [of E rest d y] by (auto dest: set_mono_suffix)
    show "CHR ''-'' \<notin> set s \<longrightarrow> fst y = Terminate"
      using GetUserInput_answer [OF g] eq g p again by (cases r) auto
  qed
  then show ?thesis using assms(2) by simp
qed

text \<open>The end of the standard input is not an exit: without a minus sign in the input the console never ends normally; and when the
  input is empty from the beginning it asks without end.\<close>

lemma console_needs_exit:
  assumes "CHR ''-'' \<notin> set s"
  shows "console_main E os s parts \<noteq> Some (Done 0, c)"
proof
  assume end_0: "console_main E os s parts = Some (Done 0, c)"
  obtain r d where d: "construct E os True parts = (r, d)" by fastforce
  then have "r = Done ()" using end_0 by (cases r) (simp_all add: console_main_def)
  then obtain q where "console_Run E s (d\<lparr>current_state := kIdle\<rparr>) = Some q" "fst q \<noteq> Terminate"
    using end_0 d by (cases "console_Run E s (d\<lparr>current_state := kIdle\<rparr>)") (auto simp: console_main_def Init_def split: result.splits)
  then show False using console_Run_no_exit [OF _ assms] by auto
qed

lemma console_empty_input:
  assumes "construct E os True parts = (Done (), c)"
  shows "console_main E os [] parts = None"
proof -
  have "GetUserInput E [] = None" using GetUserInput_answer [of E "[]"] by (cases "GetUserInput E []") auto
  then show ?thesis using assms by (simp add: console_main_def Init_def console_Run.simps)
qed


end
