(* ===== verification/Service_Shutdown.thy ===== *)
theory Service_Shutdown
  imports Controller
begin

text \<open>
  How a service is stopped: the signal handler, the threads of the network context and the waiting main thread, which
  share the flag \<^verbatim>\<open>g_running\<close>, the mutex \<^verbatim>\<open>g_shutdown_mutex\<close> and the condition variable \<^verbatim>\<open>g_shutdown_cv\<close>.  The text of
  these functions is the same in \<^verbatim>\<open>data_monitor.cpp\<close>, \<^verbatim>\<open>tpc_daq.cpp\<close> and the two orchestrators; they are modelled
  after the first one, with the thread of the data monitor.
\<close>

section \<open>Signals\<close>

datatype signum = SIGTERM | SIGINT | SIGHUP | SIGPIPE | Other_signal nat

datatype disposition = Default | Handled | Ignored

text \<open>A failure of \<^verbatim>\<open>sigaction\<close> ends the program (\<^term>\<open>None\<close>), except for the broken pipe.\<close>

definition SetupSignalHandlers :: "(signum \<Rightarrow> bool) \<Rightarrow> (signum \<Rightarrow> disposition) option" where
  "SetupSignalHandlers sigaction_ok =
     (if list_all sigaction_ok [SIGTERM, SIGINT, SIGHUP]
      then Some (\<lambda>s. if s \<in> {SIGTERM, SIGINT, SIGHUP} then Handled
                     else if s = SIGPIPE \<and> sigaction_ok SIGPIPE then Ignored else Default)
      else None)"

section \<open>State\<close>

text \<open>The positions of the main thread: before the test of the flag; before locking the mutex; before the evaluation of the
  predicate; after it, before sleeping; asleep; awake, before locking again; with the predicate satisfied, before
  telling the receiver to stop; in the shutdown sequence.\<close>

datatype main_pc = M_check | M_lock | M_test | M_decided | M_asleep | M_wake | M_stop | M_clean

datatype handler_pc = H_idle | H_store | H_lock | H_unlock | H_notify

datatype context_pc = C_runs | C_store | C_notify | C_ended

datatype holder = By_main | By_handler

text \<open>\<^verbatim>\<open>on_main\<close>: the handler interrupts the main thread, which stands still meanwhile.  \<^verbatim>\<open>handled\<close>: a handler has run to its end.
  \<^verbatim>\<open>daq_object\<close>: the service thread has constructed its object and not released it.  \<^verbatim>\<open>told\<close>: the object was told to stop.\<close>

record shutdown_state =
  g_running :: bool
  g_shutdown_mutex :: "holder option"
  main_at :: main_pc
  handler_at :: handler_pc
  on_main :: bool
  context_at :: context_pc
  handled :: bool
  daq_object :: bool
  told :: bool

definition shutdown_init :: shutdown_state where
  "shutdown_init = \<lparr>g_running = True, g_shutdown_mutex = None, main_at = M_check, handler_at = H_idle, on_main = False,
     context_at = C_runs, handled = False, daq_object = False, told = False\<rparr>"

section \<open>Steps\<close>

definition notify_one :: "shutdown_state \<Rightarrow> shutdown_state" where
  "notify_one s = (if main_at s = M_asleep then s\<lparr>main_at := M_wake\<rparr> else s)"

text \<open>One action of each thread; \<^term>\<open>None\<close>: it has none, or waits.\<close>

fun SignalHandler_at :: "handler_pc \<Rightarrow> shutdown_state \<Rightarrow> shutdown_state option" where
  "SignalHandler_at H_idle s = None"
| "SignalHandler_at H_store s = Some (s\<lparr>g_running := False, handler_at := H_lock\<rparr>)"
| "SignalHandler_at H_lock s =
     (if g_shutdown_mutex s = None then Some (s\<lparr>g_shutdown_mutex := Some By_handler, handler_at := H_unlock\<rparr>) else None)"
| "SignalHandler_at H_unlock s = Some (s\<lparr>g_shutdown_mutex := None, handler_at := H_notify\<rparr>)"
| "SignalHandler_at H_notify s = Some ((notify_one s)\<lparr>handler_at := H_idle, handled := True\<rparr>)"

text \<open>A thread of the network context whose \<^verbatim>\<open>run\<close> has thrown: it notifies without having locked.\<close>

fun StartContext_at :: "context_pc \<Rightarrow> shutdown_state \<Rightarrow> shutdown_state option" where
  "StartContext_at C_runs s = Some (s\<lparr>context_at := C_store\<rparr>)"
| "StartContext_at C_store s = Some (s\<lparr>g_running := False, context_at := C_notify\<rparr>)"
| "StartContext_at C_notify s = Some ((notify_one s)\<lparr>context_at := C_ended\<rparr>)"
| "StartContext_at C_ended s = None"

definition main_locks :: "shutdown_state \<Rightarrow> shutdown_state option" where
  "main_locks s = (if g_shutdown_mutex s = None then Some (s\<lparr>g_shutdown_mutex := Some By_main, main_at := M_test\<rparr>) else None)"

fun main_wait :: "main_pc \<Rightarrow> shutdown_state \<Rightarrow> shutdown_state option" where
  "main_wait M_check s = Some (s\<lparr>main_at := if g_running s then M_lock else M_clean\<rparr>)"
| "main_wait M_lock s = main_locks s"
| "main_wait M_test s = Some (s\<lparr>main_at := if g_running s then M_decided else M_stop\<rparr>)"
| "main_wait M_decided s = Some (s\<lparr>g_shutdown_mutex := None, main_at := M_asleep\<rparr>)"
| "main_wait M_asleep s = None"
| "main_wait M_wake s = main_locks s"
| "main_wait M_stop s = Some (s\<lparr>told := told s \<or> daq_object s, g_shutdown_mutex := None, main_at := M_clean\<rparr>)"
| "main_wait M_clean s = None"

inductive shutdown_step :: "shutdown_state \<Rightarrow> shutdown_state \<Rightarrow> bool" where
  main: "main_wait (main_at s) s = Some s' \<Longrightarrow> \<not> (on_main s \<and> handler_at s \<noteq> H_idle) \<Longrightarrow> shutdown_step s s'"
| handler: "SignalHandler_at (handler_at s) s = Some s' \<Longrightarrow> shutdown_step s s'"
| context_fails: "StartContext_at (context_at s) s = Some s' \<Longrightarrow> shutdown_step s s'"
| signal: "handler_at s = H_idle \<Longrightarrow> shutdown_step s (s\<lparr>handler_at := H_store, on_main := interrupts_main\<rparr>)"
| object: "shutdown_step s (s\<lparr>daq_object := exists_now\<rparr>)"
| spurious: "main_at s = M_asleep \<Longrightarrow> shutdown_step s (s\<lparr>main_at := M_wake\<rparr>)"

inductive_cases shutdown_stepE: "shutdown_step s s'"

section \<open>Invariant\<close>

definition shutdown_inv :: "shutdown_state \<Rightarrow> bool" where
  "shutdown_inv s \<longleftrightarrow> (g_shutdown_mutex s = Some By_main \<longleftrightarrow> main_at s \<in> {M_test, M_decided, M_stop})
     \<and> (g_shutdown_mutex s = Some By_handler \<longleftrightarrow> handler_at s = H_unlock)
     \<and> (main_at s \<in> {M_stop, M_clean} \<or> handler_at s \<in> {H_lock, H_unlock, H_notify} \<or> handled s \<longrightarrow> \<not> g_running s)
     \<and> (handler_at s \<in> {H_unlock, H_notify} \<or> handled s \<longrightarrow> main_at s \<noteq> M_decided)
     \<and> (handled s \<longrightarrow> main_at s \<noteq> M_asleep)"

lemma mutex_cases:
  obtains "m = None" | "m = Some By_main" | "m = Some By_handler"
  by (cases m rule: option.exhaust; cases "the m") auto

lemma main_wait_inv:
  assumes "shutdown_inv s" and "main_wait (main_at s) s = Some s'"
  shows "shutdown_inv s'"
  using assms
  by (cases "main_at s"; cases "g_shutdown_mutex s" rule: mutex_cases; cases "handler_at s"; cases "g_running s")
    (simp_all add: shutdown_inv_def main_locks_def, clarsimp+)

lemma handler_inv:
  assumes "shutdown_inv s" and "SignalHandler_at (handler_at s) s = Some s'"
  shows "shutdown_inv s'"
  using assms
  by (cases "main_at s"; cases "g_shutdown_mutex s" rule: mutex_cases; cases "handler_at s"; cases "g_running s")
    (simp_all add: shutdown_inv_def notify_one_def, clarsimp+)

lemma context_inv:
  assumes "shutdown_inv s" and "StartContext_at (context_at s) s = Some s'"
  shows "shutdown_inv s'"
  using assms
  by (cases "main_at s"; cases "g_shutdown_mutex s" rule: mutex_cases; cases "context_at s"; cases "handler_at s")
    (simp_all add: shutdown_inv_def notify_one_def, clarsimp+)

lemma shutdown_step_inv:
  assumes "shutdown_step s s'" and "shutdown_inv s"
  shows "shutdown_inv s'"
  using assms
proof cases
  case (signal b)
  then show ?thesis using assms(2) by (simp add: shutdown_inv_def)
next
  case (object b)
  then show ?thesis using assms(2) by (simp add: shutdown_inv_def)
next
  case spurious
  then show ?thesis using assms(2) by (simp add: shutdown_inv_def)
qed (use assms(2) main_wait_inv handler_inv context_inv in blast)+

lemma shutdown_reachable_inv: "shutdown_step\<^sup>*\<^sup>* shutdown_init s \<Longrightarrow> shutdown_inv s"
proof (induction rule: rtranclp_induct)
  case base
  show ?case by (simp add: shutdown_inv_def shutdown_init_def)
qed (rule shutdown_step_inv)

section \<open>A signal is not lost\<close>

text \<open>The main thread on its own.\<close>

fun main_alone :: "nat \<Rightarrow> shutdown_state \<Rightarrow> shutdown_state option" where
  "main_alone 0 s = Some s"
| "main_alone (Suc n) s = Option.bind (main_wait (main_at s) s) (main_alone n)"

text \<open>C36: A signal stops the service: as soon as a handler has run to its end, on whatever thread and however it was interleaved with
  the waiting main thread and with failing network threads, the main thread is not asleep and will not fall asleep
  again: at most three actions of its own, none of which has to wait, take it to the shutdown sequence.  It tells
  the object of the service thread to stop if that exists and the signal did not come before it began to wait.\<close>
theorem signal_stops_service:
  assumes "shutdown_step\<^sup>*\<^sup>* shutdown_init s" and "handled s" and "handler_at s = H_idle"
  shows "main_at s \<notin> {M_asleep, M_decided} \<and> \<not> g_running s
    \<and> (\<exists>n s'. n \<le> 3 \<and> main_alone n s = Some s' \<and> main_at s' = M_clean \<and> (told s' \<longleftrightarrow> told s \<or> daq_object s \<and> main_at s \<notin> {M_check, M_clean}))"
proof -
  have inv: "shutdown_inv s" using assms(1) by (rule shutdown_reachable_inv)
  then have s: "main_at s \<notin> {M_asleep, M_decided}" "\<not> g_running s" "g_shutdown_mutex s \<noteq> Some By_handler"
    "g_shutdown_mutex s = Some By_main \<longleftrightarrow> main_at s \<in> {M_test, M_stop}"
    using assms(2,3) by (auto simp: shutdown_inv_def)
  have free: "g_shutdown_mutex s = None" if "main_at s \<in> {M_lock, M_wake}"
    using s(3,4) that by (cases "g_shutdown_mutex s" rule: mutex_cases) auto
  let ?n = "case main_at s of M_clean \<Rightarrow> (0 :: nat) | M_check \<Rightarrow> 1 | M_stop \<Rightarrow> 1 | M_test \<Rightarrow> 2 | _ \<Rightarrow> 3"
  let ?s' = "case main_at s of M_clean \<Rightarrow> s | M_check \<Rightarrow> s\<lparr>main_at := M_clean\<rparr>
      | _ \<Rightarrow> s\<lparr>told := told s \<or> daq_object s, g_shutdown_mutex := None, main_at := M_clean\<rparr>"
  have "main_alone ?n s = Some ?s'"
    using free s(1,2) by (cases "main_at s") (simp_all add: main_locks_def numeral_3_eq_3 numeral_2_eq_2)
  moreover have "?n \<le> 3" "main_at ?s' = M_clean" "told ?s' \<longleftrightarrow> told s \<or> daq_object s \<and> main_at s \<notin> {M_check, M_clean}"
    by (cases "main_at s"; simp)+
  ultimately show ?thesis using s(1,2) by blast
qed

section \<open>What can go wrong\<close>

definition stuck :: "shutdown_state \<Rightarrow> bool" where
  "stuck s \<longleftrightarrow> on_main s \<and> handler_at s = H_lock \<and> main_at s = M_test \<and> g_shutdown_mutex s = Some By_main"

text \<open>A handler that interrupts the main thread while this holds the mutex waits for it for ever.\<close>

lemma stuck_for_ever:
  assumes "shutdown_step\<^sup>*\<^sup>* s s'" and "stuck s"
  shows "stuck s'"
  using assms
proof (induction rule: rtranclp_induct)
  case (step s s')
  then have st: "stuck s" by simp
  have "StartContext_at (context_at s) s = Some s' \<Longrightarrow> stuck s'" using st by (cases "context_at s") (auto simp: stuck_def notify_one_def)
  then show ?case using step(2) st by (auto simp: stuck_def elim!: shutdown_stepE)
qed

fun follow :: "(shutdown_state \<Rightarrow> shutdown_state option) list \<Rightarrow> shutdown_state \<Rightarrow> shutdown_state option" where
  "follow [] s = Some s"
| "follow (f # fs) s = Option.bind (f s) (follow fs)"

definition do_main :: "shutdown_state \<Rightarrow> shutdown_state option" where
  "do_main s = (if on_main s \<and> handler_at s \<noteq> H_idle then None else main_wait (main_at s) s)"

definition do_handler :: "shutdown_state \<Rightarrow> shutdown_state option" where
  "do_handler s = SignalHandler_at (handler_at s) s"

definition do_context :: "shutdown_state \<Rightarrow> shutdown_state option" where
  "do_context s = StartContext_at (context_at s) s"

definition do_object :: "shutdown_state \<Rightarrow> shutdown_state option" where
  "do_object s = Some (s\<lparr>daq_object := True\<rparr>)"

definition do_signal :: "bool \<Rightarrow> shutdown_state \<Rightarrow> shutdown_state option" where
  "do_signal b s = (if handler_at s = H_idle then Some (s\<lparr>handler_at := H_store, on_main := b\<rparr>) else None)"

lemmas do_defs = do_main_def do_handler_def do_context_def do_object_def do_signal_def main_locks_def notify_one_def shutdown_init_def

lemma follow_steps:
  assumes "follow fs s = Some s'" and "set fs \<subseteq> {do_main, do_handler, do_context, do_object, do_signal False, do_signal True}"
  shows "shutdown_step\<^sup>*\<^sup>* s s'"
  using assms
proof (induction fs arbitrary: s)
  case (Cons f fs)
  then obtain t where t: "f s = Some t" "follow fs t = Some s'" by (cases "f s") auto
  have "f \<in> {do_main, do_handler, do_context, do_object, do_signal False, do_signal True}" using Cons.prems(2) by simp
  then have "shutdown_step s t" using t(1)
    by (auto simp: do_main_def do_handler_def do_context_def do_object_def do_signal_def split: if_splits intro: shutdown_step.intros)
  then show ?case using Cons t(2) by (auto intro: converse_rtranclp_into_rtranclp)
qed simp

lemma handler_deadlock: "\<exists>s. shutdown_step\<^sup>*\<^sup>* shutdown_init s \<and> stuck s"
proof -
  let ?fs = "[do_main, do_main, do_signal True, do_handler]"
  have "\<exists>s. follow ?fs shutdown_init = Some s \<and> stuck s" by (simp add: do_defs stuck_def)
  then show ?thesis using follow_steps [of ?fs] by auto
qed

text \<open>A network thread that fails between the evaluation of the predicate and the beginning of the sleep is not noticed: the main thread
  sleeps although the flag is cleared, and nobody will notify it.\<close>

lemma context_failure_lost:
  "\<exists>s. shutdown_step\<^sup>*\<^sup>* shutdown_init s \<and> main_at s = M_asleep \<and> \<not> g_running s \<and> context_at s = C_ended \<and> handler_at s = H_idle"
proof -
  let ?fs = "[do_main, do_main, do_main, do_context, do_context, do_context, do_main]"
  have "\<exists>s. follow ?fs shutdown_init = Some s \<and> main_at s = M_asleep \<and> \<not> g_running s \<and> context_at s = C_ended \<and> handler_at s = H_idle"
    by (simp add: do_defs)
  then show ?thesis using follow_steps [of ?fs] by auto
qed

text \<open>A signal before the main thread begins to wait leads to the shutdown sequence without the object of the service thread being told to stop.\<close>

lemma early_signal_untold: "\<exists>s. shutdown_step\<^sup>*\<^sup>* shutdown_init s \<and> main_at s = M_clean \<and> daq_object s \<and> \<not> told s"
proof -
  let ?fs = "[do_object, do_signal False, do_handler, do_main]"
  have "\<exists>s. follow ?fs shutdown_init = Some s \<and> main_at s = M_clean \<and> daq_object s \<and> \<not> told s" by (simp add: do_defs)
  then show ?thesis using follow_steps [of ?fs] by auto
qed

theorem signal_stops_service_witness:
  "\<exists>s. shutdown_step\<^sup>*\<^sup>* shutdown_init s \<and> main_at s = M_wake \<and> (\<exists>n s'. n \<le> 3 \<and> main_alone n s = Some s' \<and> main_at s' = M_clean \<and> told s')"
proof -
  let ?fs = "[do_object, do_main, do_main, do_main, do_main, do_signal True, do_handler, do_handler, do_handler, do_handler]"
  have "\<exists>s. follow ?fs shutdown_init = Some s \<and> main_at s = M_wake \<and> handled s \<and> handler_at s = H_idle \<and> daq_object s" by (simp add: do_defs)
  then obtain s where s: "shutdown_step\<^sup>*\<^sup>* shutdown_init s" "main_at s = M_wake" "handled s" "handler_at s = H_idle" "daq_object s"
    using follow_steps [of ?fs] by auto
  then show ?thesis using signal_stops_service [OF s(1,3,4)] by auto
qed

section \<open>The thread of the data monitor\<close>

text \<open>The class \<^verbatim>\<open>DataMonitor\<close> is a parameter: what its constructor, its loop and its destructor do.  The loop is not preceded by an
  initialization, and its exceptions are caught on their own.\<close>

definition RunTpcMonitorController :: "'d result \<Rightarrow> ('d \<Rightarrow> unit result \<times> 'd) \<Rightarrow> ('d \<Rightarrow> unit result) \<Rightarrow> unit result" where
  "RunTpcMonitorController construct_dm run_dm destroy_dm = (case construct_dm of
     Terminate \<Rightarrow> Terminate
   | Raise \<Rightarrow> Done ()
   | Done d \<Rightarrow> (case run_dm d of (r, d) \<Rightarrow> (case r of Terminate \<Rightarrow> Terminate | _ \<Rightarrow> destroy_dm d)))"

lemma monitor_thread_catches:
  assumes "construct_dm \<noteq> Terminate" and "\<And>d. fst (run_dm d) \<noteq> Terminate" and "\<And>d. destroy_dm d = Done ()"
  shows "RunTpcMonitorController construct_dm run_dm destroy_dm = Done ()"
  using assms by (auto simp: RunTpcMonitorController_def split: result.split prod.split) (metis fst_conv)

end
