(* ===== verification/Spec2Isabelle.thy ===== *)
theory Spec2Isabelle
  imports Collect_Data Tpc_Service Mirror_Daemon Tof_Service Gramsreadout_Lib Console Service_Shutdown
begin

text \<open>
  Verification of the readout software of the GRAMS liquid argon detector (C++ sources below \<^verbatim>\<open>src/\<close>).

  \<^bold>\<open>The program.\<close>  The front-end boards of a crate are set up over a PCIe controller card, and their data arrive by DMA
  over a second card.  A controller process receives commands (configure, start, stop, reset, query), sets up the
  boards, and runs a data handler with four threads: one reads DMA buffers into a queue of blocks, one builds
  events from the blocks and writes them to files of 5000 events on two NVMe disks, one records trigger counters
  and one records PPS time stamps.  A status thread reports, and stops a run whose disks are full.  A mirror
  daemon copies closed files to backup disks.  An orchestrator starts and stops these services and chooses the data
  disk.

  \<^bold>\<open>Shared theories.\<close>  \<^verbatim>\<open>Prelude\<close>: word sizes, decimal numbers, string search.  \<^verbatim>\<open>Json\<close>: the operations of the JSON library that
  the sources use (paths, conversions with their wrap-around, exceptions as \<^term>\<open>None\<close>).

  \<^bold>\<open>Data path.\<close>
  \<^item> \<^verbatim>\<open>Producer_Consumer_Queue\<close> (\<^verbatim>\<open>lib/folly/ProducerConsumerQueue.h\<close>): all operations on 32-bit indices, an interface locale of a
    bounded FIFO queue with its interpretation, and a second model that splits \<^verbatim>\<open>write\<close> and \<^verbatim>\<open>read\<close> at their accesses
    to shared memory.  Shown: the queue is a bounded FIFO, in every interleaving of one producer and one consumer.
  \<^item> \<^verbatim>\<open>Storage_Utils\<close> (\<^verbatim>\<open>src/data/storage_utils.cpp\<close>): disk queries, choice of the data disk (locale over the two policies), backup
    roots and mirror paths.
  \<^item> \<^verbatim>\<open>Data_Handler\<close>, \<^verbatim>\<open>Event_Builder\<close>, \<^verbatim>\<open>Data_Handler_Config\<close> (\<^verbatim>\<open>src/data/data_handler.cpp\<close>): members of the data handler as a
    record, file names, disk switch, event builder of \<^verbatim>\<open>DataWrite\<close>, reset, configuration, metrics.  Shown: the files hold
    exactly the complete events of the stream, none twice, 5000 per file and under distinct names.
  \<^item> \<^verbatim>\<open>Dma_Readout\<close>, \<^verbatim>\<open>Trigger_Readout\<close> (same file): the read thread with timeouts and recovery, the trigger and PPS threads.  Shown: they
    end after the run flag is cleared, DMA buffers are released, records are written once and in order.
  \<^item> \<^verbatim>\<open>Readout_Pipeline\<close>: read and write thread on the shared queue; in every interleaving the files hold the complete events of the
    accepted blocks, none spanning a place where data were lost, when the losses are separated.  \<^verbatim>\<open>Collect_Data\<close>: start
    and join of the four threads; the collection thread returns after a stop.

  \<^bold>\<open>Hardware.\<close>  \<^verbatim>\<open>Pcie_Interface\<close> (\<^verbatim>\<open>lib/pcie_driver/pcie_interface.cpp\<close>) on a parameter for the driver; \<^verbatim>\<open>Gramsreadout_Lib\<close>
  (\<^verbatim>\<open>lib/pcie_driver/gramsreadout_lib.c\<close>, the library between that interface and WinDriver, with the constructor and
  destructor of the interface on top of it: a session restores the reference count of the library unless it fails with
  code 4 or 6, and a failed first initialization is final); \<^verbatim>\<open>Hardware_Device\<close> (command words and
  firmware download); \<^verbatim>\<open>Hardware_Program\<close> (the setup of a board as a list of bus operations and its execution on the
  shared buffers); \<^verbatim>\<open>Xmit_Control\<close>, \<^verbatim>\<open>Charge_Fem\<close>, \<^verbatim>\<open>Light_Fem\<close>, \<^verbatim>\<open>Trigger_Control\<close> (one per file of \<^verbatim>\<open>src/hardware\<close>);
  \<^verbatim>\<open>Status\<close> (\<^verbatim>\<open>src/status/status.cpp\<close>).  Shown: the value that each register of each board ends with, as a
  function of the configuration, and every error of a setup.

  \<^bold>\<open>Control.\<close>  \<^verbatim>\<open>Controller_Config\<close> and \<^verbatim>\<open>Controller\<close> (\<^verbatim>\<open>src/control/controller.cpp\<close>, \<^verbatim>\<open>run_stop_coordinator.cpp\<close>): \<^verbatim>\<open>Configure\<close> with its
  early returns, commands, automatic stop, and a step relation of commands, status thread and collection thread.
  Shown: an invariant of the reachable states, refinement of the abstract state table, recovery from a full disk.
  \<^verbatim>\<open>Tpc_Service\<close> (\<^verbatim>\<open>daemon/tpc_daq.cpp\<close>), \<^verbatim>\<open>Orchestrator\<close> and \<^verbatim>\<open>Daq_Orchestrator\<close> (\<^verbatim>\<open>daemon/orchestrator.cpp\<close>,
  \<^verbatim>\<open>daq_orchestrator.cpp\<close>) and \<^verbatim>\<open>Tof_Service\<close> (\<^verbatim>\<open>tof_daq.cpp\<close>): the services around it, how they start, stop and fail.
  \<^verbatim>\<open>Service_Shutdown\<close> (\<^verbatim>\<open>data_monitor.cpp\<close>, the same text in the other services): signal handler, network threads and waiting
  main thread, interleaved at every access to the flag, the mutex and the condition variable.  Shown: a signal
  whose handler has returned is never lost; the ways in which a shutdown can hang.  \<^verbatim>\<open>Console\<close> (\<^verbatim>\<open>main.cpp\<close>): the menu on
  the standard input.  Shown: a typed session executes exactly the chosen commands.

  \<^bold>\<open>Mirror.\<close>  \<^verbatim>\<open>Mirror_Engine\<close>, \<^verbatim>\<open>Mirror_Copy\<close>, \<^verbatim>\<open>Mirror_Daemon\<close> (\<^verbatim>\<open>daemon/mirror_engine.cpp\<close>, \<^verbatim>\<open>data_mirror.cpp\<close>): queues and scheduling,
  copying with rate limit and state file, scan, inotify watcher and worker with a step relation.  Shown: a copy is
  atomic, no file is queued or copied twice at a time, the state file survives restarts.

  This theory adds what spans components: one drift length for boards, trigger and time stamps; the mirror daemon
  understands the names that the readout gives its files.

  \<^bold>\<open>Conventions.\<close>  Exceptions, early returns and calls of \<^verbatim>\<open>std::terminate\<close> are values (options, sums, \<^verbatim>\<open>result\<close>).  Integers keep their width where
  the source can overflow.  What the operating system, the hardware and other threads answer is an environment
  indexed by a clock that every operation advances, or a list of observations, one per pass of a loop.  A loop over
  observations gives \<^term>\<open>None\<close> when they run out before the loop ends: the theorems on termination show that observations
  with a cleared flag at some point are enough.  Two loops carry fuel, the drain of the queue in \<^verbatim>\<open>Reset\<close> and the queue's
  destructor; its amount is the size of the queue, and lemmas show that it suffices.  The prompt and the loop of the console may
  run for ever and are partial functions; that they do return is part of the theorem on sessions.  Code of other repositories is a
  parameter: command codes and telemetry classes (calls are recorded with their arguments), the parameter class
  \<^verbatim>\<open>TpcConfigs\<close>, the JSON parser, the WinDriver library, libstatgrab, systemd.

  \<^bold>\<open>Granularity.\<close>  Threads interleave at the operations named above; only the queue is split further.  In particular the write thread's
  comparison and clearing of \<^verbatim>\<open>resync_at_block_\<close> is one step.  Memory is sequentially consistent.

  \<^bold>\<open>Not modelled.\<close>  Logging, console output and sleeping; network connections; \<^verbatim>\<open>ReadoutViaController\<close>, which nothing calls; the
  class of the data monitor, which is not part of the sources, and the joins of its main function, which are those of
  \<^verbatim>\<open>tpc_daq.cpp\<close> in another order; the texts of error messages; the vendored JSON library, test programs and scripts.
\<close>

section \<open>One drift length for the front end, the trigger and the time stamps\<close>

lemma drift_reads:
  assumes "path2 ''readout_windows'' ''drift_size'' c = Some (JInt i)" and "0 \<le> i" "i \<le> 8190"
  shows "cfg_int ''readout_windows'' ''drift_size'' c = Some i" and "cfg_size ''readout_windows'' ''drift_size'' c = Some (nat i)"
proof -
  have "signed_take_bit 31 i = i" using assms(2,3) by (intro signed_take_bit_int_eq_self) simp_all
  then show "cfg_int ''readout_windows'' ''drift_size'' c = Some i" using assms(1) by (simp add: cfg_int_def int32_def signed_of_int)
  show "cfg_size ''readout_windows'' ''drift_size'' c = Some (nat i)"
    using assms unat_word_of_int_small [of i, where 'a = 64] by (simp add: cfg_size_def)
qed

lemma charge_drift: "charge_read c = Some cf \<Longrightarrow> cfg_int ''readout_windows'' ''drift_size'' c = Some (ch_drift_size cf)"
  by (auto simp: charge_read_def bind_eq_Some_conv)

lemma handler_drift:
  assumes "DataHandler_Configure P env c d = (0, d')" and "datahandler_get_config P \<noteq> 0"
  shows "cfg_size ''readout_windows'' ''drift_size'' c = Some (drift_size d')"
proof -
  obtain d1 d2 d3 where 3: "cfg_limits c d2 = (True, d3)"
    and d': "d' = clamp_dma (AppendStorageSegmentLog env ''run_start'' (InitNvmePathsFromEnv env d3))"
    using assms by (auto simp: DataHandler_Configure_def split: prod.splits bool.splits)
  have "cfg_size ''readout_windows'' ''drift_size'' c = Some (drift_size d3)"
    using 3 by (auto simp: cfg_limits_def Let_def split: option.splits)
  then show ?thesis
    by (simp add: d' clamp_dma_def InitNvmePathsFromEnv_def AppendStorageSegmentLog_def log_io_def tick_def Let_def)
qed

text \<open>C25: The charge boards, the trigger board and the PPS thread work with the same frame: for a drift length of 0 to 8190 samples, one
  configuration sets the time size of every charge board to it, the frame length of the trigger board to eight
  times the number of samples minus one, and the frame span of the time stamps to one more than the drift
  length.\<close>
theorem frame_lengths_agree:
  assumes "path2 ''readout_windows'' ''drift_size'' c = Some (JInt i)" and "0 \<le> i" "i \<le> 8190"
    and "charge_read c = Some cf" and "crate_ok cf" and "ch_tpc cf \<le> m" "m \<le> ch_st2 cf"
    and "trigger_read c t = (Some (fl, dt, src), t')" and "0 \<le> trigger_module_m t'" "trigger_module_m t' < 32"
    and "length (prescale_vec t') \<le> 9" and "static_masks t = None"
    and "DataHandler_Configure Q env c d = (0, d')" and "datahandler_get_config Q \<noteq> 0"
  shows "data_of (nat m) 3 5 (fst (snd (ChargeFem_Configure P c nword))) = [nat i]
    \<and> data_of (nat (trigger_module_m t')) 0 2 (fst (snd (TriggerControl_Configure P c t))) = [8 * (nat i + 1) - 1]
    \<and> drift_size d' = nat i"
proof -
  note r = drift_reads [OF assms(1-3)]
  have "ch_drift_size cf = i" using charge_drift [OF assms(4)] r(1) by simp
  then have "data_of (nat m) 3 5 (fst (snd (ChargeFem_Configure P c nword))) = [nat i]"
    using ChargeFem_settings_facts [OF assms(4-7), of P nword] assms(2,3) by (simp add: case_prod_beta)
  moreover have "static_masks t = None \<and> src = src \<or> static_source t src" using assms(12) by simp
  from TriggerControl_settings_facts [OF assms(8) r(1) assms(9-11) this, of P]
  have "data_of (nat (trigger_module_m t')) 0 2 (fst (snd (TriggerControl_Configure P c t))) = [nat ((8 * i + 7) mod 65536)]"
    by (simp add: case_prod_beta Let_def)
  moreover have "nat ((8 * i + 7) mod 65536) = 8 * (nat i + 1) - 1" using assms(2,3) by (simp add: nat_add_distrib nat_mult_distrib)
  moreover have "drift_size d' = nat i" using handler_drift [OF assms(13,14)] r(2) by simp
  ultimately show ?thesis by simp
qed

definition full_json :: json where
  "full_json = JObject [(''crate'', JObject [(''xmit_slot'', JInt 11), (''last_light_slot'', JInt 16), (''last_charge_slot'', JInt 15),
       (''charge_fem_slot'', JInt 13), (''light_fem_slot'', JInt 16), (''trig_slot'', JInt 10)]),
     (''hardware'', JObject [(''readout_basedir'', JString ''/home/pgrams'')]),
     (''charge_fem'', JObject [(''fpga_bitfile'', JString ''charge.rbf'')]),
     (''readout_windows'', JObject [(''drift_size'', JInt 255)]),
     (''trigger'', JObject [(''software_trigger_rate_hz'', JInt 10), (''dead_time'', JInt 4), (''trigger_source'', JString ''external''),
        (''prescale'', JArray [JInt 0, JInt 5])]),
     (''data_handler'', JObject [(''dma_buffer_size_kb'', JInt 900), (''num_events'', JInt 5), (''subrun'', JInt 7),
        (''data_basedir'', JString ''/nvme0''), (''pps_sample_period'', JInt 1), (''read_core_id'', JInt 2), (''write_core_id'', JInt 3)])]"

theorem frame_lengths_agree_witness:
  "data_of 14 3 5 (fst (snd (ChargeFem_Configure sample_params full_json 0))) = [255]
   \<and> data_of 10 0 2 (fst (snd (TriggerControl_Configure sample_params full_json new_trig))) = [2047]
   \<and> drift_size (snd (DataHandler_Configure sample_dh_params quiet_env full_json sample_dh)) = 255"
proof -
  let ?d = "snd (DataHandler_Configure sample_dh_params quiet_env full_json sample_dh)"
  have "path2 ''readout_windows'' ''drift_size'' full_json = Some (JInt 255)" by code_simp
  moreover have "charge_read full_json = Some charge_json_cfg" by (simp add: charge_read_def full_json_def cfg_defs charge_json_cfg_def)
  moreover have "crate_ok charge_json_cfg" "ch_tpc charge_json_cfg \<le> 14" "14 \<le> ch_st2 charge_json_cfg"
    by (simp_all add: crate_ok_def charge_json_cfg_def)
  moreover have "trigger_read full_json new_trig = (Some (2047, 4, ''external''),
      new_trig\<lparr>software_trigger_rate_m := 10, trigger_module_m := 10, prescale_vec := [0, 5]\<rparr>)"
    by (simp add: trigger_read_def full_json_def cfg_defs)
  moreover have "fst (DataHandler_Configure sample_dh_params quiet_env full_json sample_dh) = 0"
    by (simp add: DataHandler_Configure_def cfg_run_def cfg_source_def cfg_limits_def abort_wait_def full_json_def cfg_defs Let_def)
  then have "DataHandler_Configure sample_dh_params quiet_env full_json sample_dh = (0, ?d)" by (metis prod.collapse)
  moreover have "static_masks new_trig = None" "datahandler_get_config sample_dh_params \<noteq> 0" by (simp_all add: new_trig_def sample_dh_params_def)
  ultimately show ?thesis
    using frame_lengths_agree [of full_json 255 charge_json_cfg 14 new_trig 2047 4 "''external''"
        "new_trig\<lparr>software_trigger_rate_m := 10, trigger_module_m := 10, prescale_vec := [0, 5]\<rparr>" sample_dh_params quiet_env sample_dh ?d
        sample_params 0] by simp
qed

section \<open>The mirror daemon recognises the files of a run\<close>

lemma find_skip:
  assumes "find_from k pat xs = None" and "c \<notin> set pat"
  shows "find_from k pat (xs @ c # ys) = find_from (k + Suc (length xs)) pat ys"
  using assms
proof (induction xs arbitrary: k)
  case Nil
  then show ?case by (cases pat) auto
next
  case (Cons x xs)
  have "take (length pat) (x # xs @ c # ys) \<noteq> pat"
  proof (cases "length pat \<le> length (x # xs)")
    case True
    then have "take (length pat) (x # xs @ c # ys) = take (length pat) (x # xs)" by (cases "length pat") simp_all
    then show ?thesis using Cons.prems(1) by (auto split: if_splits)
  next
    case False
    then have "c \<in> set (take (length pat) ((x # xs) @ c # ys))" by (auto simp: take_Cons' take_append)
    then show ?thesis using Cons.prems(2) by auto
  qed
  then show ?case using Cons by (auto split: if_splits)
qed

lemma find_absent: "c \<in> set pat \<Longrightarrow> c \<notin> set s \<Longrightarrow> find_from k pat s = None"
proof (induction s arbitrary: k)
  case (Cons x s)
  have "take (length pat) (x # s) \<noteq> pat" using Cons.prems by (metis in_set_takeD)
  then show ?case using Cons by simp
qed auto

lemma find_here: "pat \<noteq> [] \<Longrightarrow> find_from k pat (pat @ s) = Some k"
  by (cases pat) simp_all

lemma ParseUintAfter_number:
  assumes "off = length p" and "n < 2 ^ 32" and "\<forall>c s. t = c # s \<longrightarrow> \<not> isdigit c"
  shows "ParseUintAfter (p @ to_string n @ t) off = Some (of_nat n, off + length (to_string n))"
proof -
  have val: "foldl (\<lambda>v c. v * 10 + of_nat (digit_val c)) (0 :: u64) ds = of_nat (digits_val ds)" for ds
    by (induction ds rule: rev_induct) (simp_all add: digits_val_def algebra_simps)
  have digits: "takeWhile isdigit (to_string n @ t) = to_string n"
    using to_string_digits [of n] assms(3) by (cases t) (simp_all add: list_all_iff takeWhile_append)
  have u: "unat (of_nat n :: u64) = n" using assms(2) by (simp add: unsigned_of_nat take_bit_nat_eq_self)
  have "\<not> (of_nat n :: u64) > 0xFFFFFFFF" using assms(2) u by (simp add: word_less_nat_alt)
  moreover have "ucast (of_nat n :: u64) = (of_nat n :: u32)" by (rule bit_word_eqI) (auto simp: bit_simps)
  ultimately show ?thesis using digits val by (simp add: ParseUintAfter_def assms(1) Let_def)
qed

lemma parse_segment_number:
  assumes "off = length p" and "n < 2 ^ 31" and "\<forall>c s. t = c # s \<longrightarrow> \<not> isdigit c"
  shows "parse_segment (p @ to_string n @ t) off = int n"
proof -
  have "signed_take_bit 31 (int n) = int n" using assms(2) by (intro signed_take_bit_int_eq_self) simp_all
  then have "sint (of_nat n :: u32) = int n" by (simp add: signed_of_nat)
  then show ?thesis using ParseUintAfter_number [of off p n t] assms by (simp add: parse_segment_def)
qed

lemma not_in_number: "\<not> isdigit c \<Longrightarrow> c \<notin> set (to_string n)"
  using to_string_digits [of n] by (auto simp: list_all_iff)

lemma find_in_dir:
  assumes "find_sub pat base = None" and "CHR ''/'' \<notin> set pat"
  shows "find_sub pat (base @ CHR ''/'' # rest) = find_from (Suc (length base)) pat rest"
  using find_skip [of 0 pat base "CHR ''/''" rest] assms by (simp add: find_sub_def)

text \<open>The three kinds of files, written as directory, prefix, number and rest.\<close>

lemma meta_readout_name:
  assumes "find_sub ''pGRAMS_bin_'' base = None" and "run < 2 ^ 32" "n < 2 ^ 31"
  shows "meta_readout (readout_prefix base run @ to_string n @ ''.dat'') m = (True, m\<lparr>FileMeta.run_id := of_nat run, priority := 1, segment := int n\<rparr>)"
proof -
  let ?p = "base @ ''/readout_data/pGRAMS_bin_''" and ?t = "''_'' @ to_string n @ ''.dat''"
  define q e where "q = ?p @ to_string run @ ?t" and "e = length base + 25 + length (to_string run)"
  have path: "readout_prefix base run @ to_string n @ ''.dat'' = q" by (simp add: readout_prefix_def q_def)
  have "find_sub ''pGRAMS_bin_'' q = Some (length base + 14)"
    using find_in_dir [OF assms(1), of "''readout_data/pGRAMS_bin_'' @ to_string run @ ?t"] by (simp add: q_def)
  moreover have "ParseUintAfter q (length base + 25) = Some (of_nat run, e)"
    using ParseUintAfter_number [of "length base + 25" ?p run ?t] assms(2) by (simp add: isdigit_def q_def e_def)
  moreover have "char_at q e (CHR ''_'')" by (simp add: char_at_def nth_append q_def e_def)
  moreover have "parse_segment q (e + 1) = int n"
    using parse_segment_number [of "e + 1" "?p @ to_string run @ ''_''" n "''.dat''"] assms(3)
    by (simp add: isdigit_def q_def e_def)
  ultimately show ?thesis unfolding path meta_readout_def by (simp add: Let_def add.commute [of 25])
qed

lemma meta_segmented_name:
  assumes "find_sub pat path = Some pos" and "path = p @ to_string run @ segment_suffix n @ ''.bin''" and "length p = pos + length pat"
    and "run < 2 ^ 32" "n < 2 ^ 31"
  shows "meta_segmented pat prio path m = (True, m\<lparr>FileMeta.run_id := of_nat run, priority := prio, segment := if n = 0 then segment m else int n\<rparr>)"
proof -
  have "ParseUintAfter path (length p) = Some (of_nat run, length p + length (to_string run))"
    using ParseUintAfter_number [of "length p" p run "segment_suffix n @ ''.bin''"] assms(2,4) by (simp add: segment_suffix_def isdigit_def)
  moreover have "char_at path (length p + length (to_string run)) (CHR ''_'') \<longleftrightarrow> n \<noteq> 0"
    by (simp add: assms(2) char_at_def nth_append segment_suffix_def)
  moreover have "parse_segment path (length p + length (to_string run) + 1) = int n" if "n \<noteq> 0"
    using parse_segment_number [of "length p + length (to_string run) + 1" "p @ to_string run @ ''_''" n "''.bin''"] assms(2,5) that
    by (simp add: segment_suffix_def isdigit_def)
  ultimately show ?thesis using assms(1,3) by (simp add: meta_segmented_def)
qed

text \<open>C19: What the readout writes, the mirror daemon understands: from the names of the readout, trigger and PPS files of a run it gets
  back the run number, the kind (which is the order of copying within a run) and the file number, for every run
  number of 32 bits and every file number below \<^verbatim>\<open>2^31\<close>, when the data directory itself contains none of the prefixes and
  is no TOF directory.\<close>
theorem mirror_recognises_run_files:
  assumes "find_sub ''pGRAMS_bin_'' base = None" "find_sub ''trigger_raw_'' base = None" "find_sub ''pps_data_'' base = None"
    and "run_number d < 2 ^ 32" "n < 2 ^ 31" and "\<not> IsTofPath (readout_prefix base (run_number d) @ to_string n @ ''.dat'')"
    and "\<not> IsTofPath (BuildTriggerRawFileName d base n)" "\<not> IsTofPath (BuildPpsFileName d base n)"
  shows "let understood = (\<lambda>path. let m = ParseFileMeta os path in (FileMeta.run_id m, priority m, segment m)); run = of_nat (run_number d) in
    understood (readout_prefix base (run_number d) @ to_string n @ ''.dat'') = (run, 1, int n)
    \<and> understood (BuildTriggerRawFileName d base n) = (run, 2, int n)
    \<and> understood (BuildPpsFileName d base n) = (run, 3, int n)"
proof -
  define t where "t = to_string (run_number d) @ segment_suffix n @ ''.bin''"
  have other: "CHR ''G'' \<notin> set t" "CHR ''w'' \<notin> set t"
    by (auto simp: t_def segment_suffix_def not_in_number isdigit_def)
  define trig where "trig = BuildTriggerRawFileName d base n"
  define pps where "pps = BuildPpsFileName d base n"
  have trig: "trig = base @ ''/trigger_data/trigger_raw_'' @ t" by (simp add: trig_def BuildTriggerRawFileName_def t_def)
  have pps: "pps = base @ ''/pps_data/pps_data_'' @ t" by (simp add: pps_def BuildPpsFileName_def t_def)
  have "find_sub ''pGRAMS_bin_'' trig = None" "find_sub ''pGRAMS_bin_'' pps = None"
    using find_in_dir [OF assms(1), of "''trigger_data/trigger_raw_'' @ t"] find_in_dir [OF assms(1), of "''pps_data/pps_data_'' @ t"]
      find_absent [of "CHR ''G''" "''pGRAMS_bin_''"] other by (simp_all add: trig pps)
  then have 1: "meta_readout trig m = (False, m)" "meta_readout pps m = (False, m)" for m by (simp_all add: meta_readout_def)
  have "find_sub ''trigger_raw_'' pps = None"
    using find_in_dir [OF assms(2), of "''pps_data/pps_data_'' @ t"] find_absent [of "CHR ''w''" "''trigger_raw_''"] other
    by (simp add: pps)
  then have 2: "meta_segmented ''trigger_raw_'' 2 pps m = (False, m)" for m by (simp add: meta_segmented_def)
  have "find_sub ''trigger_raw_'' trig = Some (length base + 14)"
    using find_in_dir [OF assms(2), of "''trigger_data/trigger_raw_'' @ t"] by (simp add: trig)
  from meta_segmented_name [OF this, of "base @ ''/trigger_data/trigger_raw_''" "run_number d" n 2]
  have 3: "meta_segmented ''trigger_raw_'' 2 trig m = (True, m\<lparr>FileMeta.run_id := of_nat (run_number d), priority := 2,
      segment := if n = 0 then segment m else int n\<rparr>)" for m
    using assms(4,5) by (simp add: trig t_def)
  have "find_sub ''pps_data_'' pps = Some (length base + 10)"
    using find_in_dir [OF assms(3), of "''pps_data/pps_data_'' @ t"] by (simp add: pps)
  from meta_segmented_name [OF this, of "base @ ''/pps_data/pps_data_''" "run_number d" n 3]
  have 4: "meta_segmented ''pps_data_'' 3 pps m = (True, m\<lparr>FileMeta.run_id := of_nat (run_number d), priority := 3,
      segment := if n = 0 then segment m else int n\<rparr>)" for m
    using assms(4,5) by (simp add: pps t_def)
  show ?thesis
    using meta_readout_name [OF assms(1,4,5)] 1 2 3 4 assms(6-8)
    by (simp add: ParseFileMeta_def Let_def trig_def pps_def)
qed

theorem mirror_recognises_run_files_witness:
  "let m = ParseFileMeta default_os ''/nvme0/readout_data/pGRAMS_bin_7_12.dat'' in (FileMeta.run_id m, priority m, segment m) = (7, 1, 12)"
proof -
  let ?d = "sample_dh\<lparr>run_number := 7\<rparr>"
  have names: "readout_prefix ''/nvme0'' (run_number ?d) @ to_string 12 @ ''.dat'' = ''/nvme0/readout_data/pGRAMS_bin_7_12.dat''"
    "BuildTriggerRawFileName ?d ''/nvme0'' 12 = ''/nvme0/trigger_data/trigger_raw_7_12.bin''"
    "BuildPpsFileName ?d ''/nvme0'' 12 = ''/nvme0/pps_data/pps_data_7_12.bin''"
    by (simp_all add: readout_prefix_def BuildTriggerRawFileName_def BuildPpsFileName_def segment_suffix_def to_string.simps digit_char_def) code_simp+
  have tof: "\<not> IsTofPath ''/nvme0/readout_data/pGRAMS_bin_7_12.dat''" "\<not> IsTofPath ''/nvme0/trigger_data/trigger_raw_7_12.bin''"
    "\<not> IsTofPath ''/nvme0/pps_data/pps_data_7_12.bin''" by code_simp+
  have "find_sub ''pGRAMS_bin_'' ''/nvme0'' = None" "find_sub ''trigger_raw_'' ''/nvme0'' = None" "find_sub ''pps_data_'' ''/nvme0'' = None"
    by code_simp+
  from mirror_recognises_run_files [OF this, of ?d 12 default_os, unfolded names] show ?thesis using tof by (simp add: Let_def)
qed

end
